(* ===== verification/Prelude.thy ===== *)
theory Prelude
  imports Main "HOL-Library.Word" "HOL-Library.Char_ord" "HOL-Library.List_Lexorder"
begin

text \<open>
  What every component shares: the Go types the code computes with (byte strings,
  instants, durations, 64-bit words), the functions of Go's \<open>strings\<close> and \<open>time\<close>
  packages the sources call, and the lemmas about them that the component theories use.
  A Go \<open>string\<close> or \<open>[]byte\<close> is a list of bytes (\<open>char list\<close>); lengths count
  bytes, as \<open>len\<close> does. An instant is a whole number of nanoseconds since the Unix
  epoch and a duration a whole number of nanoseconds.
\<close>

section \<open>Types and collections of facts\<close>

type_synonym bytes = string
type_synonym instant = int
type_synonym duration = int
type_synonym u64 = "64 word"

named_theorems code_defs \<open>the definitions a component unfolds to reason about a whole operation\<close>
named_theorems table_defs \<open>the constant tables of the sources\<close>

section \<open>Lists and membership\<close>

text \<open>\<open>contains\<close> of pep/request.go and authverify/accesstoken_wire.go: the same loop twice.\<close>

primrec contains :: "string list \<Rightarrow> string \<Rightarrow> bool" where
  "contains [] s = False"
| "contains (v # vs) s = (if v = s then True else contains vs s)"

lemma contains_iff [simp]: "contains xs s \<longleftrightarrow> s \<in> set xs"
  by (induction xs) auto

text \<open>Characters by their byte value.\<close>

abbreviation byte :: "char \<Rightarrow> nat" where
  "byte c \<equiv> of_char c"

definition chr :: "nat \<Rightarrow> char" where
  "chr n = char_of n"

lemma byte_chr [simp]: "n < 256 \<Longrightarrow> byte (chr n) = n"
  by (simp add: chr_def of_char_of)

lemma chr_byte [simp]: "chr (byte c) = c"
  by (simp add: chr_def)

lemma byte_inject: "byte c = byte d \<longleftrightarrow> c = d"
  by (metis chr_byte)

section \<open>The \<open>strings\<close> package\<close>

text \<open>\<open>strings.Split(s, sep)\<close> for a one-byte separator: always at least one part.\<close>

fun split_on :: "char \<Rightarrow> string \<Rightarrow> string list" where
  "split_on d [] = [[]]"
| "split_on d (c # cs) =
     (if c = d then [] # split_on d cs
      else (case split_on d cs of [] \<Rightarrow> [[c]] | p # ps \<Rightarrow> (c # p) # ps))"

text \<open>\<open>strings.Join(parts, sep)\<close>.\<close>

fun join :: "string \<Rightarrow> string list \<Rightarrow> string" where
  "join sep [] = []"
| "join sep [p] = p"
| "join sep (p # q # ps) = p @ sep @ join sep (q # ps)"

lemma split_on_ne [simp]: "split_on d s \<noteq> []"
  by (cases s) (auto split: list.splits)

lemma join_split_on: "join [d] (split_on d s) = s"
proof (induction s)
  case Nil
  then show ?case by simp
next
  case (Cons c s)
  show ?case
  proof (cases "split_on d s")
    case Nil
    then show ?thesis by simp
  next
    case (Cons p ps)
    with \<open>join [d] (split_on d s) = s\<close> show ?thesis by (cases ps) auto
  qed
qed

lemma split_on_no_sep: "p \<in> set (split_on d s) \<Longrightarrow> d \<notin> set p"
  by (induction s arbitrary: p) (auto split: if_splits list.splits)

lemma split_on_single: "d \<notin> set p \<Longrightarrow> split_on d p = [p]"
  by (induction p) auto

lemma split_on_append: "d \<notin> set p \<Longrightarrow> split_on d (p @ d # s) = p # split_on d s"
  by (induction p) auto

lemma split_on_join:
  assumes "ps \<noteq> []" and "\<And>p. p \<in> set ps \<Longrightarrow> d \<notin> set p"
  shows "split_on d (join [d] ps) = ps"
  using assms by (induction "[d]" ps rule: join.induct) (auto simp: split_on_single split_on_append)

lemma join_cons: "ps \<noteq> [] \<Longrightarrow> join sep (p # ps) = p @ sep @ join sep ps"
  by (cases ps) auto

text \<open>\<open>strings.HasPrefix\<close> and the \<open>s[len(p):]\<close> that follows it.\<close>

fun strip_prefix :: "string \<Rightarrow> string \<Rightarrow> string option" where
  "strip_prefix [] s = Some s"
| "strip_prefix (p # ps) [] = None"
| "strip_prefix (p # ps) (c # cs) = (if p = c then strip_prefix ps cs else None)"

lemma strip_prefix_iff: "strip_prefix p s = Some r \<longleftrightarrow> s = p @ r"
  by (induction p s rule: strip_prefix.induct) auto

definition has_prefix :: "string \<Rightarrow> string \<Rightarrow> bool" where
  "has_prefix p s = (strip_prefix p s \<noteq> None)"

lemma has_prefix_iff: "has_prefix p s \<longleftrightarrow> (\<exists>r. s = p @ r)"
  by (auto simp: has_prefix_def strip_prefix_iff)

text \<open>
  \<open>unicode.IsSpace\<close> as the UTF-8 encodings of the code points it holds for: tab, line
  feed, vertical tab, form feed, carriage return, space, U+0085, U+00A0, U+1680,
  U+2000--U+200A, U+2028, U+2029, U+202F, U+205F, U+3000. \<open>strings.TrimSpace\<close> and
  \<open>bytes.TrimSpace\<close> drop such encodings from both ends. UTF-8 is self-synchronising,
  so a trailing encoding is the same byte suffix whatever precedes it.
\<close>

definition space_encodings :: "string list" where
  "space_encodings =
     map (map chr)
       ([[9], [10], [11], [12], [13], [32], [194, 133], [194, 160], [225, 154, 128]]
        @ map (\<lambda>i. [226, 128, 128 + i]) [0..<11]
        @ [[226, 128, 168], [226, 128, 169], [226, 128, 175], [226, 129, 159], [227, 128, 128]])"

fun strip_any :: "string list \<Rightarrow> string \<Rightarrow> string option" where
  "strip_any [] s = None"
| "strip_any (p # ps) s = (case strip_prefix p s of Some r \<Rightarrow> Some r | None \<Rightarrow> strip_any ps s)"

lemma strip_any_shorter:
  "strip_any ps s = Some r \<Longrightarrow> (\<forall>p \<in> set ps. p \<noteq> []) \<Longrightarrow> length r < length s"
  by (induction ps s rule: strip_any.induct) (auto split: option.splits simp: strip_prefix_iff)

lemma strip_any_None: "strip_any ps s = None \<longleftrightarrow> (\<forall>p \<in> set ps. \<not> has_prefix p s)"
  by (induction ps s rule: strip_any.induct) (auto split: option.splits simp: has_prefix_def)

fun trim_loop :: "nat \<Rightarrow> string list \<Rightarrow> string \<Rightarrow> string" where
  "trim_loop 0 ps s = s"
| "trim_loop (Suc n) ps s = (case strip_any ps s of None \<Rightarrow> s | Some r \<Rightarrow> trim_loop n ps r)"

definition trim_left_space :: "string \<Rightarrow> string" where
  "trim_left_space s = trim_loop (length s) space_encodings s"

definition trim_space :: "string \<Rightarrow> string" where
  "trim_space s = rev (trim_loop (length s) (map rev space_encodings) (rev (trim_left_space s)))"

lemma trim_loop_idle: "strip_any ps s = None \<Longrightarrow> trim_loop n ps s = s"
  by (cases n) auto

text \<open>The fuel \<open>length s\<close> is enough: nothing strippable is left.\<close>

lemma trim_loop_done:
  "(\<forall>p \<in> set ps. p \<noteq> []) \<Longrightarrow> length s \<le> n \<Longrightarrow> strip_any ps (trim_loop n ps s) = None"
proof (induction n ps s rule: trim_loop.induct)
  case (1 ps s)
  then show ?case by (auto simp: strip_any_None has_prefix_iff)
next
  case (2 n ps s)
  show ?case
  proof (cases "strip_any ps s")
    case None
    then show ?thesis by simp
  next
    case (Some r)
    then have "length r < length s" using 2(2) by (rule strip_any_shorter)
    with Some 2 show ?thesis by simp
  qed
qed

lemma trim_loop_shorter: "length (trim_loop n ps s) \<le> length s"
proof (induction n ps s rule: trim_loop.induct)
  case (1 ps s)
  then show ?case by simp
next
  case (2 n ps s)
  have "length r \<le> length s" if "strip_any ps s = Some r" for r
    using that by (induction ps s rule: strip_any.induct) (auto split: option.splits simp: strip_prefix_iff)
  with 2 show ?case by (auto split: option.splits intro: order_trans)
qed

lemma trim_space_shorter: "length (trim_space s) \<le> length s"
  by (simp add: trim_space_def trim_left_space_def)
     (metis length_rev order_trans trim_loop_shorter)

text \<open>What is trimmed from the left is a sequence of space encodings.\<close>

lemma strip_any_Some: "strip_any ps s = Some r \<Longrightarrow> \<exists>p \<in> set ps. s = p @ r"
  by (induction ps s rule: strip_any.induct) (auto split: option.splits simp: strip_prefix_iff)

lemma trim_loop_split: "\<exists>ls. s = concat ls @ trim_loop n ps s \<and> set ls \<subseteq> set ps"
proof (induction n ps s rule: trim_loop.induct)
  case (1 ps s)
  then show ?case by (intro exI [of _ "[]"]) simp
next
  case (2 n ps s)
  show ?case
  proof (cases "strip_any ps s")
    case None
    then show ?thesis by (intro exI [of _ "[]"]) simp
  next
    case (Some r)
    then obtain p where p: "p \<in> set ps" "s = p @ r" using strip_any_Some by blast
    obtain ls where "r = concat ls @ trim_loop n ps r" "set ls \<subseteq> set ps" using 2 Some by blast
    with p Some show ?thesis by (intro exI [of _ "p # ls"]) simp
  qed
qed

lemma trim_space_split:
  "\<exists>ls r. s = concat ls @ trim_space s @ r \<and> set ls \<subseteq> set space_encodings"
proof -
  let ?l = "trim_left_space s"
  obtain ls where ls: "s = concat ls @ ?l" "set ls \<subseteq> set space_encodings"
    using trim_loop_split unfolding trim_left_space_def by blast
  obtain q where "rev ?l = q @ rev (trim_space s)"
    using trim_loop_split [of "rev ?l" "length s" "map rev space_encodings"]
    by (auto simp: trim_space_def)
  then have "?l = trim_space s @ rev q" by (metis rev_append rev_rev_ident)
  with ls show ?thesis by metis
qed

text \<open>A text of visible ASCII characters has nothing to trim.\<close>

definition visible :: "char \<Rightarrow> bool" where
  "visible c = (33 \<le> byte c \<and> byte c \<le> 126)"

lemma spaces_invisible: "list_all (\<lambda>p. p \<noteq> [] \<and> \<not> list_ex visible p) space_encodings"
  by code_simp

lemma trim_visible: "list_all visible s \<Longrightarrow> trim_space s = s"
proof -
  assume s: "list_all visible s"
  have p: "p \<noteq> [] \<and> (\<forall>c \<in> set p. \<not> visible c)" if "p \<in> set space_encodings" for p
    using spaces_invisible that by (auto simp: list_all_iff list_ex_iff)
  have "strip_any space_encodings s = None" "strip_any (map rev space_encodings) (rev s) = None"
    unfolding strip_any_None has_prefix_iff using p s
    by (auto simp: list_all_iff rev_swap) (metis Un_iff hd_in_set set_append)+
  then show ?thesis by (simp add: trim_space_def trim_left_space_def trim_loop_idle)
qed

text \<open>Text with a visible character is not blank.\<close>

lemma trim_visible_char: "c \<in> set s \<Longrightarrow> visible c \<Longrightarrow> trim_space s \<noteq> []"
proof
  assume c: "c \<in> set s" "visible c" and e: "trim_space s = []"
  have inv: "\<not> visible d" if "p \<in> set space_encodings" "d \<in> set p" for p d
    using spaces_invisible that by (auto simp: list_all_iff list_ex_iff)
  let ?l = "trim_left_space s"
  obtain ls where ls: "s = concat ls @ ?l" "set ls \<subseteq> set space_encodings"
    using trim_loop_split unfolding trim_left_space_def by blast
  obtain qs where "rev ?l = concat qs" and qs: "set qs \<subseteq> rev ` set space_encodings"
    using trim_loop_split [of "rev ?l" "length s" "map rev space_encodings"] e by (auto simp: trim_space_def)
  then have "set ?l = set (concat qs)" by (metis set_rev)
  with ls c have "c \<in> set (concat ls) \<or> c \<in> set (concat qs)" by (metis Un_iff set_append)
  then show False using inv ls(2) qs c(2) by fastforce
qed

section \<open>Signed 64-bit integers\<close>

definition wrap_int64 :: "int \<Rightarrow> int" where
  "wrap_int64 x = (x + 2 ^ 63) mod 2 ^ 64 - 2 ^ 63"

lemma wrap_int64_id: "- (2 ^ 63) \<le> x \<Longrightarrow> x < 2 ^ 63 \<Longrightarrow> wrap_int64 x = x"
  by (simp add: wrap_int64_def)

lemma wrap_int64_range: "- (2 ^ 63) \<le> wrap_int64 x \<and> wrap_int64 x < 2 ^ 63"
  using pos_mod_bound [of "2 ^ 64" "x + 2 ^ 63"] pos_mod_sign [of "2 ^ 64" "x + 2 ^ 63"] by (simp add: wrap_int64_def)

section \<open>The \<open>time\<close> package\<close>

definition second :: duration where
  "second = 1000000000"

definition minute :: duration where
  "minute = 60 * second"

definition hour :: duration where
  "hour = 60 * minute"

definition max_duration :: duration where
  "max_duration = 2 ^ 63 - 1"

definition min_duration :: duration where
  "min_duration = - (2 ^ 63)"

text \<open>\<open>time.Time.Sub\<close> saturates at the bounds of a 64-bit duration.\<close>

definition time_sub :: "instant \<Rightarrow> instant \<Rightarrow> duration" where
  "time_sub t u = max min_duration (min max_duration (t - u))"

text \<open>The zero \<open>time.Time\<close> is January 1 of year 1, UTC.\<close>

definition zero_time :: instant where
  "zero_time = - 62135596800 * second"

text \<open>\<open>time.Time.Unix\<close>: whole seconds since the epoch, rounded down.\<close>

definition unix_seconds :: "instant \<Rightarrow> int" where
  "unix_seconds t = t div second"

lemma second_pos [simp]: "0 < second"
  by (simp add: second_def)

lemma unix_seconds_bounds: "unix_seconds t * second \<le> t \<and> t < (unix_seconds t + 1) * second"
  using div_mult_mod_eq [of t second] pos_mod_bound [OF second_pos, of t] pos_mod_sign [OF second_pos, of t]
  unfolding unix_seconds_def distrib_right by linarith

lemma unix_seconds_window:
  "n * second \<le> t \<Longrightarrow> n \<le> unix_seconds t" "t < x * second \<Longrightarrow> unix_seconds t < x"
proof -
  show "n \<le> unix_seconds t" if "n * second \<le> t"
  proof -
    have "n * second < (unix_seconds t + 1) * second" using that unix_seconds_bounds [of t] by linarith
    then show ?thesis by simp
  qed
  show "unix_seconds t < x" if "t < x * second"
  proof -
    have "unix_seconds t * second < x * second" using that unix_seconds_bounds [of t] by linarith
    then show ?thesis by simp
  qed
qed

lemma time_sub_nonneg: "0 \<le> time_sub t u \<longleftrightarrow> u \<le> t"
  by (auto simp: time_sub_def min_duration_def max_duration_def)

lemma time_sub_less: "d \<le> max_duration \<Longrightarrow> min_duration < d \<Longrightarrow> time_sub t u < d \<longleftrightarrow> t - u < d"
  by (auto simp: time_sub_def)

section \<open>Early returns\<close>

text \<open>
  A chain of checks with early returns is a chain of \<open>and_then\<close> over a result type:
  \<open>demand e b\<close> returns \<open>e\<close> unless \<open>b\<close>, \<open>give e x\<close> returns \<open>e\<close>
  when \<open>x\<close> is absent.
\<close>

definition and_then :: "'e + 'a \<Rightarrow> ('a \<Rightarrow> 'e + 'b) \<Rightarrow> 'e + 'b" where
  "and_then m f = (case m of Inl e \<Rightarrow> Inl e | Inr a \<Rightarrow> f a)"

definition demand :: "'e \<Rightarrow> bool \<Rightarrow> 'e + unit" where
  "demand e b = (if b then Inr () else Inl e)"

definition give :: "'e \<Rightarrow> 'a option \<Rightarrow> 'e + 'a" where
  "give e x = (case x of None \<Rightarrow> Inl e | Some a \<Rightarrow> Inr a)"

lemma and_then_Inr: "and_then m f = Inr b \<longleftrightarrow> (\<exists>a. m = Inr a \<and> f a = Inr b)"
  by (cases m) (auto simp: and_then_def)

lemma and_then_Inl: "and_then m f = Inl e \<longleftrightarrow> m = Inl e \<or> (\<exists>a. m = Inr a \<and> f a = Inl e)"
  by (cases m) (auto simp: and_then_def)

lemma and_then_simps [simp]: "and_then (Inl e) f = Inl e" "and_then (Inr a) f = f a"
  by (simp_all add: and_then_def)

lemma demand_Inr [simp]: "demand e b = Inr u \<longleftrightarrow> b"
  by (simp add: demand_def)

lemma demand_Inl [simp]: "demand e b = Inl x \<longleftrightarrow> \<not> b \<and> x = e"
  by (auto simp: demand_def)

lemma give_Inr [simp]: "give e x = Inr a \<longleftrightarrow> x = Some a"
  by (cases x) (auto simp: give_def)

lemma give_Inl [simp]: "give e x = Inl e' \<longleftrightarrow> x = None \<and> e' = e"
  by (cases x) (auto simp: give_def)

end
