(* ===== verification/Regex.thy ===== *)
theory Regex
  imports Prelude
begin

text \<open>
  Go's \<open>regexp\<close> package as far as the sources use it: fully anchored patterns
  (\<open>^...$\<close>) over byte classes, concatenation, alternation and (bounded) repetition.
  Every class the patterns name is a positive ASCII class, so matching by bytes and
  matching by runes agree. \<open>lang\<close> is the meaning of a pattern, \<open>matches\<close> the
  executable matcher by derivatives, and \<open>matches_iff\<close> their agreement.
\<close>

section \<open>Patterns and their languages\<close>

datatype re =
    RNone
  | REps
  | RCls "(nat \<times> nat) list"
  | RSeq re re
  | RAlt re re
  | RRep re nat "nat option"

definition in_class :: "(nat \<times> nat) list \<Rightarrow> char \<Rightarrow> bool" where
  "in_class rs c = list_ex (\<lambda>(lo, hi). lo \<le> byte c \<and> byte c \<le> hi) rs"

definition in_reps :: "nat \<Rightarrow> nat option \<Rightarrow> nat \<Rightarrow> bool" where
  "in_reps m n k = (m \<le> k \<and> (case n of None \<Rightarrow> True | Some b \<Rightarrow> k \<le> b))"

primrec lang :: "re \<Rightarrow> string set" where
  "lang RNone = {}"
| "lang REps = {[]}"
| "lang (RCls rs) = {[c] | c. in_class rs c}"
| "lang (RSeq r s) = {u @ v | u v. u \<in> lang r \<and> v \<in> lang s}"
| "lang (RAlt r s) = lang r \<union> lang s"
| "lang (RRep r m n) = {concat ws | ws. (\<forall>w \<in> set ws. w \<in> lang r) \<and> in_reps m n (length ws)}"

section \<open>The notations of the pattern syntax\<close>

text \<open>A literal byte, a literal text, a class range, and the postfix operators.\<close>

definition lit :: "char \<Rightarrow> re" where
  "lit c = RCls [(byte c, byte c)]"

primrec lits :: "string \<Rightarrow> re" where
  "lits [] = REps"
| "lits (c # cs) = RSeq (lit c) (lits cs)"

primrec seqs :: "re list \<Rightarrow> re" where
  "seqs [] = REps"
| "seqs (r # rs) = (if rs = [] then r else RSeq r (seqs rs))"

primrec alts :: "re list \<Rightarrow> re" where
  "alts [] = RNone"
| "alts (r # rs) = (if rs = [] then r else RAlt r (alts rs))"

definition crange :: "char \<Rightarrow> char \<Rightarrow> nat \<times> nat" where
  "crange lo hi = (byte lo, byte hi)"

definition cone :: "char \<Rightarrow> nat \<times> nat" where
  "cone c = (byte c, byte c)"

abbreviation r_opt :: "re \<Rightarrow> re" where
  "r_opt r \<equiv> RAlt r REps"

abbreviation r_star :: "re \<Rightarrow> re" where
  "r_star r \<equiv> RRep r 0 None"

abbreviation r_plus :: "re \<Rightarrow> re" where
  "r_plus r \<equiv> RRep r 1 None"

abbreviation r_times :: "re \<Rightarrow> nat \<Rightarrow> re" where
  "r_times r n \<equiv> RRep r n (Some n)"

abbreviation r_reps :: "re \<Rightarrow> nat \<Rightarrow> nat \<Rightarrow> re" where
  "r_reps r m n \<equiv> RRep r m (Some n)"

section \<open>The matcher\<close>

primrec nullable :: "re \<Rightarrow> bool" where
  "nullable RNone = False"
| "nullable REps = True"
| "nullable (RCls rs) = False"
| "nullable (RSeq r s) = (nullable r \<and> nullable s)"
| "nullable (RAlt r s) = (nullable r \<or> nullable s)"
| "nullable (RRep r m n) =
     ((m = 0 \<or> nullable r) \<and> (case n of None \<Rightarrow> True | Some b \<Rightarrow> m \<le> b))"

fun mk_seq :: "re \<Rightarrow> re \<Rightarrow> re" where
  "mk_seq RNone s = RNone"
| "mk_seq REps s = s"
| "mk_seq r s = RSeq r s"

fun mk_alt :: "re \<Rightarrow> re \<Rightarrow> re" where
  "mk_alt RNone s = s"
| "mk_alt r RNone = r"
| "mk_alt r s = RAlt r s"

primrec deriv :: "char \<Rightarrow> re \<Rightarrow> re" where
  "deriv c RNone = RNone"
| "deriv c REps = RNone"
| "deriv c (RCls rs) = (if in_class rs c then REps else RNone)"
| "deriv c (RSeq r s) =
     (if nullable r then mk_alt (mk_seq (deriv c r) s) (deriv c s) else mk_seq (deriv c r) s)"
| "deriv c (RAlt r s) = mk_alt (deriv c r) (deriv c s)"
| "deriv c (RRep r m n) =
     (case n of
        Some 0 \<Rightarrow> RNone
      | _ \<Rightarrow> mk_seq (deriv c r) (RRep r (m - 1) (map_option (\<lambda>b. b - 1) n)))"

fun matches :: "re \<Rightarrow> string \<Rightarrow> bool" where
  "matches r [] = nullable r"
| "matches r (c # cs) = matches (deriv c r) cs"

section \<open>The matcher decides the language\<close>

lemma nullable_iff: "nullable r \<longleftrightarrow> [] \<in> lang r"
proof (induction r)
  case (RRep r m n)
  have "[] \<in> lang (RRep r m n) \<longleftrightarrow> (\<exists>k. (k = 0 \<or> [] \<in> lang r) \<and> in_reps m n k)" (is "?L \<longleftrightarrow> ?R")
  proof
    assume ?L
    then obtain ws where ws: "concat ws = []" "\<forall>w \<in> set ws. w \<in> lang r" "in_reps m n (length ws)"
      by auto
    then have "length ws = 0 \<or> [] \<in> lang r" by (cases ws) auto
    with ws(3) show ?R by blast
  next
    assume ?R
    then obtain k where k: "k = 0 \<or> [] \<in> lang r" "in_reps m n k" by blast
    then have "\<forall>w \<in> set (replicate k []). w \<in> lang r" "in_reps m n (length (replicate k []))" by auto
    moreover have "concat (replicate k []) = []" by simp
    ultimately show ?L unfolding lang.simps mem_Collect_eq by metis
  qed
  also have "\<dots> \<longleftrightarrow> nullable (RRep r m n)"
    by (auto simp: RRep in_reps_def split: option.splits)
  finally show ?case by simp
qed auto

lemma lang_mk_seq [simp]: "lang (mk_seq r s) = lang (RSeq r s)"
  by (cases r) auto

lemma lang_mk_alt [simp]: "lang (mk_alt r s) = lang (RAlt r s)"
  by (cases "(r, s)" rule: mk_alt.cases) auto

text \<open>
  The first word of a repetition that is not empty starts with the first character; the
  empty words before it can be moved behind it, so the count of words stays in its bounds.
\<close>

lemma concat_first_nonempty:
  assumes "concat ws = c # w"
  shows "\<exists>k u vs. ws = replicate k [] @ (c # u) # vs \<and> w = u @ concat vs"
  using assms
proof (induction ws)
  case Nil
  then show ?case by simp
next
  case (Cons v ws)
  show ?case
  proof (cases v)
    case Nil
    with Cons obtain k u vs where "ws = replicate k [] @ (c # u) # vs" "w = u @ concat vs" by auto
    with Nil have "v # ws = replicate (Suc k) [] @ (c # u) # vs \<and> w = u @ concat vs" by simp
    then show ?thesis by blast
  next
    case (Cons a u)
    with \<open>concat (v # ws) = c # w\<close> have "v # ws = replicate 0 [] @ (c # u) # ws \<and> w = u @ concat ws"
      by simp
    then show ?thesis by blast
  qed
qed

lemma in_reps_Suc:
  "n \<noteq> Some 0 \<Longrightarrow> in_reps (m - 1) (map_option (\<lambda>b. b - 1) n) k \<Longrightarrow> in_reps m n (Suc k)"
  by (auto simp: in_reps_def split: option.splits)

lemma in_reps_pred:
  "in_reps m n (Suc k) \<Longrightarrow> n \<noteq> Some 0 \<and> in_reps (m - 1) (map_option (\<lambda>b. b - 1) n) k"
  by (auto simp: in_reps_def split: option.splits)

lemma rep_cons:
  "c # w \<in> lang (RRep r m n) \<longleftrightarrow>
     n \<noteq> Some 0 \<and>
     (\<exists>u v. w = u @ v \<and> c # u \<in> lang r \<and> v \<in> lang (RRep r (m - 1) (map_option (\<lambda>b. b - 1) n)))"
  (is "?L \<longleftrightarrow> ?R")
proof
  assume ?L
  then obtain ws where ws: "concat ws = c # w" "\<forall>x \<in> set ws. x \<in> lang r" "in_reps m n (length ws)"
    by (auto simp: eq_commute)
  from concat_first_nonempty [OF ws(1)] obtain k u vs where
    k: "ws = replicate k [] @ (c # u) # vs" "w = u @ concat vs" by blast
  let ?vs = "replicate k [] @ vs"
  have "in_reps m n (Suc (length ?vs))" using ws(3) k(1) by simp
  from in_reps_pred [OF this] have n: "n \<noteq> Some 0"
    "in_reps (m - 1) (map_option (\<lambda>b. b - 1) n) (length ?vs)" by auto
  have "concat vs = concat ?vs" "\<forall>x \<in> set ?vs. x \<in> lang r" using ws(2) k(1) by auto
  then have "concat vs \<in> lang (RRep r (m - 1) (map_option (\<lambda>b. b - 1) n))"
    using n(2) unfolding lang.simps mem_Collect_eq by blast
  with n(1) k ws(2) show ?R by auto
next
  assume ?R
  then obtain u vs where "w = u @ concat vs" "c # u \<in> lang r" "\<forall>x \<in> set vs. x \<in> lang r"
    and n: "n \<noteq> Some 0" "in_reps (m - 1) (map_option (\<lambda>b. b - 1) n) (length vs)" by auto
  moreover have "in_reps m n (length ((c # u) # vs))" using in_reps_Suc [OF n] by simp
  ultimately have "c # w = concat ((c # u) # vs) \<and> (\<forall>x \<in> set ((c # u) # vs). x \<in> lang r) \<and>
      in_reps m n (length ((c # u) # vs))" by simp
  then show ?L unfolding lang.simps mem_Collect_eq by blast
qed

lemma lang_deriv: "w \<in> lang (deriv c r) \<longleftrightarrow> c # w \<in> lang r"
proof (induction r arbitrary: w)
  case (RSeq r s)
  show ?case
    by (auto simp: RSeq nullable_iff Cons_eq_append_conv)
next
  case (RRep r m n)
  show ?case
  proof (cases "n = Some 0")
    case True
    then show ?thesis using rep_cons [of c w r m n] by simp
  next
    case False
    then have "deriv c (RRep r m n) = mk_seq (deriv c r) (RRep r (m - 1) (map_option (\<lambda>b. b - 1) n))"
      by (auto split: option.splits nat.splits)
    then show ?thesis using rep_cons [of c w r m n] False
      by (auto simp del: lang.simps(6) simp: RRep)
  qed
qed (auto split: if_splits)

theorem matches_iff: "matches r s \<longleftrightarrow> s \<in> lang r"
  by (induction r s rule: matches.induct) (auto simp: nullable_iff lang_deriv)

section \<open>Reasoning about patterns\<close>

lemma in_class_append [simp]: "in_class (rs @ ss) c \<longleftrightarrow> in_class rs c \<or> in_class ss c"
  by (auto simp: in_class_def)

lemma in_class_cone [simp]: "in_class [cone d] c \<longleftrightarrow> c = d"
  by (auto simp: in_class_def cone_def byte_inject dest: le_antisym)

lemma lang_lit [simp]: "lang (lit c) = {[c]}"
  by (auto simp: lit_def in_class_def byte_inject)

lemma lang_lits [simp]: "lang (lits s) = {s}"
  by (induction s) auto

lemma lang_seq: "s \<in> lang (RSeq r q) \<longleftrightarrow> (\<exists>u v. s = u @ v \<and> u \<in> lang r \<and> v \<in> lang q)"
  by auto

lemma lang_seq_class:
  "s \<in> lang (RSeq (RCls rs) r) \<longleftrightarrow> (\<exists>c t. s = c # t \<and> in_class rs c \<and> t \<in> lang r)"
  by auto (metis append_Cons append_Nil)

lemma lang_seq_lit: "s \<in> lang (RSeq (lit d) r) \<longleftrightarrow> (\<exists>t. s = d # t \<and> t \<in> lang r)"
  by auto

lemma lang_seq_end_class:
  "s \<in> lang (RSeq r (RCls rs)) \<longleftrightarrow> (\<exists>t c. s = t @ [c] \<and> t \<in> lang r \<and> in_class rs c)"
  by auto

lemma lang_seq_opt: "s \<in> lang (RSeq r (r_opt q)) \<longleftrightarrow> s \<in> lang r \<or> s \<in> lang (RSeq r q)"
  by auto

lemma lang_alt: "s \<in> lang (RAlt r q) \<longleftrightarrow> s \<in> lang r \<or> s \<in> lang q"
  by simp

text \<open>A class repeated: the texts of that class with a length in the bounds.\<close>

lemma lang_rep_class:
  "lang (RRep (RCls rs) m n) = {s. list_all (in_class rs) s \<and> in_reps m n (length s)}"
  (is "?L = ?R")
proof
  have "list_all (in_class rs) (concat ws) \<and> length (concat ws) = length ws"
    if "\<forall>w \<in> set ws. w \<in> lang (RCls rs)" for ws
    using that by (induction ws) auto
  then show "?L \<subseteq> ?R" by auto
next
  show "?R \<subseteq> ?L"
  proof
    fix s
    assume s: "s \<in> ?R"
    have "s = concat (map (\<lambda>c. [c]) s)" by (induction s) auto
    moreover have "\<forall>w \<in> set (map (\<lambda>c. [c]) s). w \<in> lang (RCls rs)" using s by (auto simp: list_all_iff)
    ultimately show "s \<in> ?L" using s by (auto intro!: exI [of _ "map (\<lambda>c. [c]) s"])
  qed
qed

lemma matches_rep_class:
  "matches (RRep (RCls rs) m n) s \<longleftrightarrow> list_all (in_class rs) s \<and> in_reps m n (length s)"
  by (simp only: matches_iff lang_rep_class) simp

text \<open>Only bytes of the pattern's classes occur in what it matches.\<close>

primrec classes :: "re \<Rightarrow> (nat \<times> nat) list" where
  "classes RNone = []"
| "classes REps = []"
| "classes (RCls rs) = rs"
| "classes (RSeq r s) = classes r @ classes s"
| "classes (RAlt r s) = classes r @ classes s"
| "classes (RRep r m n) = classes r"

lemma lang_classes: "s \<in> lang r \<Longrightarrow> c \<in> set s \<Longrightarrow> in_class (classes r) c"
proof (induction r arbitrary: s)
  case (RSeq r1 r2)
  then show ?case by fastforce
next
  case (RRep r m n)
  then show ?case by auto blast
qed auto

lemma matches_classes: "matches r s \<Longrightarrow> c \<in> set s \<Longrightarrow> in_class (classes r) c"
  by (simp add: matches_iff lang_classes)

text \<open>A lower bound on the length of a match.\<close>

primrec min_length :: "re \<Rightarrow> nat" where
  "min_length RNone = 0"
| "min_length REps = 0"
| "min_length (RCls rs) = 1"
| "min_length (RSeq r s) = min_length r + min_length s"
| "min_length (RAlt r s) = min (min_length r) (min_length s)"
| "min_length (RRep r m n) = m * min_length r"

lemma concat_length: "\<forall>w \<in> set ws. n \<le> length w \<Longrightarrow> length ws * n \<le> length (concat ws)"
  by (induction ws) auto

lemma lang_min_length: "s \<in> lang r \<Longrightarrow> min_length r \<le> length s"
proof (induction r arbitrary: s)
  case (RSeq r1 r2)
  then show ?case by (fastforce intro: add_mono)
next
  case (RRep r m n)
  then obtain ws where ws: "s = concat ws" "\<forall>w \<in> set ws. min_length r \<le> length w" "m \<le> length ws"
    by (auto simp: in_reps_def)
  have "m * min_length r \<le> length ws * min_length r" using ws(3) by (rule mult_le_mono1)
  also have "\<dots> \<le> length s" unfolding ws(1) using ws(2) by (rule concat_length)
  finally show ?case by simp
qed (auto simp: min_le_iff_disj)

lemma matches_min_length: "matches r s \<Longrightarrow> min_length r \<le> length s"
  by (simp add: matches_iff lang_min_length)

end
