(* ===== verification/Repokey.thy ===== *)
theory Repokey
  imports Regex
begin

text \<open>
  Package \<open>repokey\<close> (repokey/repokey.go): the canonical repository key. The pattern
  is built as the source builds it, with the group repeat unrolled into
  \<open>MaxSegments - 2\<close> nested optional groups; the theorems say which keys it accepts.
\<close>

section \<open>The pattern\<close>

definition MaxSegments :: nat where
  "MaxSegments = 20"

definition MaxBytes :: nat where
  "MaxBytes = 255"

definition lower_digit :: "(nat \<times> nat) list" where
  "lower_digit = [crange CHR ''a'' CHR ''z'', crange CHR ''0'' CHR ''9'']"

definition slug_char :: "(nat \<times> nat) list" where
  "slug_char = lower_digit @ [cone CHR ''.'', cone CHR ''_'', cone CHR ''-'']"

text \<open>\<open>[a-z0-9](?:[a-z0-9._-]{0,98}[a-z0-9])?\<close>\<close>

definition group :: re where
  "group = RSeq (RCls lower_digit) (r_opt (RSeq (r_reps (RCls slug_char) 0 98) (RCls lower_digit)))"

text \<open>\<open>(?:[a-z0-9]|[a-z0-9.][a-z0-9._-]{0,98}[a-z0-9])\<close>\<close>

definition last_segment :: re where
  "last_segment =
     RAlt (RCls lower_digit)
       (RSeq (RCls (lower_digit @ [cone CHR ''.'']))
         (RSeq (r_reps (RCls slug_char) 0 98) (RCls lower_digit)))"

primrec nest :: "nat \<Rightarrow> re" where
  "nest 0 = REps"
| "nest (Suc i) = r_opt (RSeq (lit CHR ''/'') (RSeq group (nest i)))"

definition body :: re where
  "body = RSeq group (RSeq (nest (MaxSegments - 2)) (RSeq (lit CHR ''/'') last_segment))"

definition SlugPattern :: re where
  "SlugPattern = body"

definition SchemaPattern :: re where
  "SchemaPattern = RAlt body (lit CHR ''*'')"

definition ValidSlug :: "string \<Rightarrow> bool" where
  "ValidSlug key = (length key \<le> MaxBytes \<and> matches SlugPattern key)"

definition Valid :: "string \<Rightarrow> bool" where
  "Valid key = (length key \<le> MaxBytes \<and> matches SchemaPattern key)"

section \<open>What the documentation promises of a key\<close>

text \<open>
  A group name has 1 to 100 characters with an alphanumeric first and last one; the last
  segment may also start with a dot, but is then at least two characters long and ends
  alphanumerically, so \<open>.\<close> and \<open>..\<close> stay out.
\<close>

definition group_name :: "string \<Rightarrow> bool" where
  "group_name s =
     (s \<noteq> [] \<and> length s \<le> 100 \<and> list_all (in_class slug_char) s \<and>
      in_class lower_digit (hd s) \<and> in_class lower_digit (last s))"

definition repository_name :: "string \<Rightarrow> bool" where
  "repository_name s =
     (s \<noteq> [] \<and> length s \<le> 100 \<and> list_all (in_class slug_char) s \<and>
      (in_class lower_digit (hd s) \<or> hd s = CHR ''.'') \<and> in_class lower_digit (last s))"

definition slug_spec :: "string \<Rightarrow> bool" where
  "slug_spec key =
     (let segs = split_on CHR ''/'' key in
      length key \<le> MaxBytes \<and> 2 \<le> length segs \<and> length segs \<le> MaxSegments \<and>
      list_all group_name (butlast segs) \<and> repository_name (last segs))"

section \<open>The segments of the pattern\<close>

lemma lower_digit_slug: "in_class lower_digit c \<Longrightarrow> in_class slug_char c"
  by (simp add: slug_char_def)

text \<open>A first byte, at most 98 bytes between, a last byte: one shape for both segment kinds.\<close>

lemma framed_segment:
  "(\<exists>c m d. s = c # m @ [d] \<and> P c \<and> list_all Q m \<and> length m \<le> 98 \<and> R d) \<longleftrightarrow>
     2 \<le> length s \<and> length s \<le> 100 \<and> P (hd s) \<and> list_all Q (butlast (tl s)) \<and> R (last s)"
  (is "?L \<longleftrightarrow> ?R")
proof
  assume ?L
  then show ?R by (auto simp: butlast_append)
next
  assume r: ?R
  then obtain c t where s: "s = c # t" "t \<noteq> []" by (cases s; cases "tl s") auto
  then have "s = c # butlast t @ [last t]" by simp
  moreover have "length (butlast t) \<le> 98" using r s by auto
  ultimately show ?L using r s by (intro exI [of _ c] exI [of _ "butlast t"] exI [of _ "last t"]) simp
qed

lemma all_slug_split:
  assumes "s \<noteq> []" and "length s \<noteq> 1" and "in_class lower_digit (last s)"
  shows "list_all (in_class slug_char) s \<longleftrightarrow>
     in_class slug_char (hd s) \<and> list_all (in_class slug_char) (butlast (tl s))"
proof -
  from assms obtain c t where t: "s = c # t" "t \<noteq> []" by (cases s) auto
  have "list_all (in_class slug_char) t \<longleftrightarrow>
      list_all (in_class slug_char) (butlast t @ [last t])" using t(2) by simp
  then show ?thesis using assms t lower_digit_slug by (auto simp del: append_butlast_last_id)
qed

lemma segment_language:
  "s \<in> lang (RSeq (RCls rs) (RSeq (r_reps (RCls slug_char) 0 98) (RCls lower_digit))) \<longleftrightarrow>
     2 \<le> length s \<and> length s \<le> 100 \<and> in_class rs (hd s) \<and>
     list_all (in_class slug_char) (butlast (tl s)) \<and> in_class lower_digit (last s)"
proof -
  have "s \<in> lang (RSeq (RCls rs) (RSeq (r_reps (RCls slug_char) 0 98) (RCls lower_digit))) \<longleftrightarrow>
      (\<exists>c m d. s = c # m @ [d] \<and> in_class rs c \<and> list_all (in_class slug_char) m \<and>
         length m \<le> 98 \<and> in_class lower_digit d)"
    unfolding lang_seq_class lang_seq_end_class lang_rep_class by (auto simp: in_reps_def)
  then show ?thesis by (simp only: framed_segment)
qed

text \<open>One byte, or a framed segment: the shape of a segment whose first byte is in \<open>rs\<close>.\<close>

lemma segment_shape:
  assumes "\<And>c. in_class rs c \<Longrightarrow> in_class slug_char c"
  shows "s \<in> lang (RCls lower_digit) \<or>
      s \<in> lang (RSeq (RCls rs) (RSeq (r_reps (RCls slug_char) 0 98) (RCls lower_digit))) \<longleftrightarrow>
    s \<noteq> [] \<and> length s \<le> 100 \<and> list_all (in_class slug_char) s \<and>
      (length s = 1 \<or> in_class rs (hd s)) \<and> in_class lower_digit (last s)"
proof (cases "length s = 1")
  case True
  then obtain c where "s = [c]" by (auto simp: length_Suc_conv)
  then show ?thesis by (simp only: segment_language) (auto simp: lower_digit_slug)
next
  case False
  then have "s \<notin> lang (RCls lower_digit)" by auto
  moreover have "s \<noteq> [] \<longleftrightarrow> 2 \<le> length s" using False by (cases s; cases "tl s") auto
  ultimately show ?thesis using False all_slug_split [of s] assms
    by (simp only: segment_language) auto
qed

lemma lang_group: "s \<in> lang group \<longleftrightarrow> group_name s"
proof -
  have "s \<in> lang group \<longleftrightarrow>
      s \<in> lang (RCls lower_digit) \<or>
      s \<in> lang (RSeq (RCls lower_digit) (RSeq (r_reps (RCls slug_char) 0 98) (RCls lower_digit)))"
    unfolding group_def by (rule lang_seq_opt)
  then show ?thesis
    by (subst (asm) segment_shape) (auto simp: group_name_def lower_digit_slug length_Suc_conv)
qed

lemma lang_last_segment: "s \<in> lang last_segment \<longleftrightarrow> repository_name s"
proof -
  let ?first = "lower_digit @ [cone CHR ''.'']"
  have slug: "in_class slug_char c" if "in_class ?first c" for c
    using that by (auto simp: slug_char_def in_class_def)
  have first: "in_class ?first c \<longleftrightarrow> in_class lower_digit c \<or> c = CHR ''.''" for c
    by (simp only: in_class_append in_class_cone)
  have one: "in_class lower_digit (last s) \<Longrightarrow> length s = 1 \<Longrightarrow> in_class lower_digit (hd s)"
    by (auto simp: length_Suc_conv)
  have "s \<in> lang last_segment \<longleftrightarrow>
      s \<noteq> [] \<and> length s \<le> 100 \<and> list_all (in_class slug_char) s \<and>
        (length s = 1 \<or> in_class ?first (hd s)) \<and> in_class lower_digit (last s)"
    unfolding last_segment_def lang_alt by (rule segment_shape) (rule slug)
  then show ?thesis unfolding first repository_name_def using one by blast
qed

section \<open>Paths of segments\<close>

definition slashed :: "string list \<Rightarrow> string" where
  "slashed ss = concat (map ((#) CHR ''/'') ss)"

lemma lang_nest:
  "s \<in> lang (nest n) \<longleftrightarrow> (\<exists>ss. s = slashed ss \<and> length ss \<le> n \<and> list_all group_name ss)"
proof (induction n arbitrary: s)
  case 0
  then show ?case by (auto simp: slashed_def)
next
  case (Suc n)
  have "s \<in> lang (nest (Suc n)) \<longleftrightarrow>
      s = [] \<or> (\<exists>g t. s = CHR ''/'' # g @ t \<and> group_name g \<and> t \<in> lang (nest n))"
    by (auto simp: lang_group)
  also have "\<dots> \<longleftrightarrow> (\<exists>ss. s = slashed ss \<and> length ss \<le> Suc n \<and> list_all group_name ss)" (is "?L \<longleftrightarrow> ?R")
  proof
    assume ?L
    then consider "s = []" | g ss where "s = slashed (g # ss)" "group_name g" "length ss \<le> n"
      "list_all group_name ss" by (auto simp: Suc slashed_def)
    then show ?R
    proof cases
      case 1
      then show ?thesis by (intro exI [of _ "[]"]) (simp add: slashed_def)
    next
      case 2
      then show ?thesis by (intro exI [of _ "g # ss"]) simp
    qed
  next
    assume ?R
    then obtain ss where ss: "s = slashed ss" "length ss \<le> Suc n" "list_all group_name ss" by blast
    then show ?L by (cases ss) (auto simp: Suc slashed_def)
  qed
  finally show ?case .
qed

lemma join_slashed: "join ''/'' (g # ss) = g @ slashed ss"
  by (induction ss arbitrary: g) (auto simp: slashed_def)

lemma slug_no_slash: "list_all (in_class slug_char) s \<Longrightarrow> CHR ''/'' \<notin> set s"
proof
  assume "list_all (in_class slug_char) s" and "CHR ''/'' \<in> set s"
  then have "in_class slug_char CHR ''/''" by (simp add: list_all_iff)
  then show False by (simp add: slug_char_def lower_digit_def in_class_def crange_def cone_def)
qed

lemma lang_body:
  "key \<in> lang body \<longleftrightarrow>
     (\<exists>gs r. key = join ''/'' (gs @ [r]) \<and> 1 \<le> length gs \<and> length gs \<le> MaxSegments - 1 \<and>
        list_all group_name gs \<and> repository_name r)" (is "_ \<longleftrightarrow> ?R")
proof -
  have "key \<in> lang body \<longleftrightarrow>
      (\<exists>g ss r. key = g @ slashed ss @ CHR ''/'' # r \<and> group_name g \<and> list_all group_name ss \<and>
         length ss \<le> MaxSegments - 2 \<and> repository_name r)"
    unfolding body_def lang_seq [of key] lang_seq [of _ "nest _"] lang_seq_lit
      lang_group lang_nest lang_last_segment by blast
  also have "\<dots> \<longleftrightarrow> ?R" (is "?L \<longleftrightarrow> _")
  proof
    assume ?L
    then obtain g ss r where k: "key = g @ slashed ss @ CHR ''/'' # r" "group_name g"
      "list_all group_name ss" "length ss \<le> MaxSegments - 2" "repository_name r" by blast
    have "key = join ''/'' ((g # ss) @ [r])" using k(1) join_slashed [of g "ss @ [r]"]
      by (simp add: slashed_def)
    moreover have "length (g # ss) \<le> MaxSegments - 1" using k(4) by (simp add: MaxSegments_def)
    ultimately show ?R using k by (intro exI [of _ "g # ss"] exI [of _ r]) simp
  next
    assume ?R
    then obtain gs r where k: "key = join ''/'' (gs @ [r])" "1 \<le> length gs"
      "length gs \<le> MaxSegments - 1" "list_all group_name gs" "repository_name r" by blast
    then obtain g ss where gs: "gs = g # ss" by (cases gs) auto
    then have "key = g @ slashed ss @ CHR ''/'' # r" using k(1) join_slashed [of g "ss @ [r]"]
      by (simp add: slashed_def)
    moreover have "length ss \<le> MaxSegments - 2" using k(3) gs by (simp add: MaxSegments_def)
    ultimately show ?L using k gs by auto
  qed
  finally show ?thesis .
qed

lemma names_no_slash:
  "group_name s \<Longrightarrow> CHR ''/'' \<notin> set s" "repository_name s \<Longrightarrow> CHR ''/'' \<notin> set s"
  by (auto simp: group_name_def repository_name_def dest: slug_no_slash)

text \<open>The unrolled pattern accepts exactly the keys whose slash-separated segments are names.\<close>

lemma ValidSlug_segments: "ValidSlug key \<longleftrightarrow> slug_spec key"
proof -
  have "(\<exists>gs r. key = join ''/'' (gs @ [r]) \<and> 1 \<le> length gs \<and> length gs \<le> MaxSegments - 1 \<and>
        list_all group_name gs \<and> repository_name r) \<longleftrightarrow>
      (let segs = split_on CHR ''/'' key in 2 \<le> length segs \<and> length segs \<le> MaxSegments \<and>
        list_all group_name (butlast segs) \<and> repository_name (last segs))" (is "?L \<longleftrightarrow> ?R")
  proof
    assume ?L
    then obtain gs r where k: "key = join ''/'' (gs @ [r])" "1 \<le> length gs"
      "length gs \<le> MaxSegments - 1" "list_all group_name gs" "repository_name r" by blast
    have "split_on CHR ''/'' key = gs @ [r]"
      unfolding k(1) using k(4,5)
      by (intro split_on_join) (auto simp: list_all_iff names_no_slash)
    then show ?R using k(2-5) by (simp add: MaxSegments_def)
  next
    assume r: ?R
    let ?segs = "split_on CHR ''/'' key"
    have "key = join ''/'' (butlast ?segs @ [last ?segs])"
      by (simp add: join_split_on)
    then show ?L using r
      by (intro exI [of _ "butlast ?segs"] exI [of _ "last ?segs"]) (auto simp: Let_def MaxSegments_def)
  qed
  then show ?thesis
    by (simp add: ValidSlug_def slug_spec_def SlugPattern_def matches_iff lang_body Let_def)
qed

lemma Valid_iff: "Valid key \<longleftrightarrow> ValidSlug key \<or> key = ''*''"
  by (auto simp: Valid_def ValidSlug_def SchemaPattern_def SlugPattern_def matches_iff MaxBytes_def)

lemma wildcard_not_slug: "\<not> ValidSlug ''*''"
  by (simp add: ValidSlug_segments slug_spec_def)

section \<open>Properties\<close>

text \<open>
  C23. The compiled pattern, with its group repeat unrolled eighteen times, together with the
  byte limit accepts exactly the keys of 2 to 20 slash-separated segments in at most 255
  bytes whose groups are group names and whose last segment is a repository name; the schema
  pattern accepts the same keys and the one key \<open>*\<close>, which no slug is.
\<close>

theorem repository_keys:
  "(ValidSlug key \<longleftrightarrow> slug_spec key) \<and>
   (Valid key \<longleftrightarrow> slug_spec key \<or> key = ''*'') \<and> \<not> slug_spec ''*''"
  using wildcard_not_slug by (simp add: ValidSlug_segments Valid_iff)

end
