(* ===== verification/Decision.thy ===== *)
theory Decision
  imports Repokey
begin

text \<open>
  The decision value of the policy enforcement point: pep/internal/decision/decision.go, the
  reason tables of pep/decision.go and the typed error of pep/errors.go. A decision is built
  by \<open>FromWire\<close> or \<open>Local\<close> only; the well-formedness predicate says what every
  decision so built satisfies.
\<close>

section \<open>Reasons\<close>

type_synonym Reason = string

definition AllowedByMembershipDefault :: Reason where
  "AllowedByMembershipDefault = ''allowed_by_membership_default''"
definition AllowedByRepositoryGrant :: Reason where
  "AllowedByRepositoryGrant = ''allowed_by_repository_grant''"
definition AllowedByRole :: Reason where
  "AllowedByRole = ''allowed_by_role''"
definition AllowedByPlatformAdmin :: Reason where
  "AllowedByPlatformAdmin = ''allowed_by_platform_admin''"

definition denyReasons :: "Reason list" where
  "denyReasons =
     [''delegation_invalid'', ''grant_absent'', ''grant_expired'', ''grant_revoked'',
      ''impersonation_denied'', ''invalid_request'', ''membership_inactive'', ''no_membership'',
      ''org_mismatch'', ''organization_inactive'', ''platform_role_absent'', ''principal_inactive'',
      ''repository_allowlist_too_large'', ''repository_not_granted'', ''resource_mismatch'',
      ''role_lacks_action'', ''role_scope_mismatch'', ''role_unknown'',
      ''service_account_inactive'', ''unknown_action'', ''workload_action_denied'',
      ''workload_audience_denied'']"

definition Unreachable :: Reason where "Unreachable = ''pdp_unreachable''"
definition Timeout :: Reason where "Timeout = ''pdp_timeout''"
definition Canceled :: Reason where "Canceled = ''pdp_canceled''"
definition Unavailable :: Reason where "Unavailable = ''pdp_unavailable''"
definition RateLimited :: Reason where "RateLimited = ''pdp_rate_limited''"
definition Refused :: Reason where "Refused = ''pdp_refused''"
definition Malformed :: Reason where "Malformed = ''pdp_malformed''"
definition TooLarge :: Reason where "TooLarge = ''pdp_too_large''"
definition Mismatch :: Reason where "Mismatch = ''pdp_mismatch''"
definition UnknownObligation :: Reason where "UnknownObligation = ''pdp_unknown_obligation''"
definition LocalInvalid :: Reason where "LocalInvalid = ''pdp_invalid_request''"
definition NotConfigured :: Reason where "NotConfigured = ''pdp_not_configured''"
definition NoDecision :: Reason where "NoDecision = ''pdp_no_decision''"

lemmas local_reason_defs [table_defs] =
  Unreachable_def Timeout_def Canceled_def Unavailable_def RateLimited_def Refused_def Malformed_def
  TooLarge_def Mismatch_def UnknownObligation_def LocalInvalid_def NotConfigured_def NoDecision_def

lemmas allow_reason_defs [table_defs] =
  AllowedByMembershipDefault_def AllowedByRepositoryGrant_def AllowedByRole_def
  AllowedByPlatformAdmin_def

definition wireReasons :: "Reason list" where
  "wireReasons =
     [AllowedByMembershipDefault, AllowedByRepositoryGrant, AllowedByRole] @ denyReasons"

definition localReasons :: "Reason list" where
  "localReasons =
     [Unreachable, Timeout, Canceled, Unavailable, RateLimited, Refused, Malformed, TooLarge, Mismatch,
      UnknownObligation, LocalInvalid, NotConfigured, NoDecision]"

definition acceptAheadReasons :: "Reason list" where
  "acceptAheadReasons = [AllowedByPlatformAdmin]"

text \<open>The map \<open>allowReasons\<close> of pep/decision.go, as the lookup the code does in it.\<close>

definition allowReasons :: "Reason \<Rightarrow> bool" where
  "allowReasons r =
     (r \<in> {AllowedByMembershipDefault, AllowedByRepositoryGrant, AllowedByRole, AllowedByPlatformAdmin})"

definition wireReason :: "string \<Rightarrow> Reason option" where
  "wireReason s =
     (if list_ex (\<lambda>w. w = s) wireReasons then Some s
      else if list_ex (\<lambda>w. w = s) acceptAheadReasons then Some s
      else None)"

definition WireReasons :: "Reason list" where
  "WireReasons = wireReasons"

definition LocalReasons :: "Reason list" where
  "LocalReasons = localReasons"

definition Reason_Local :: "Reason \<Rightarrow> bool" where
  "Reason_Local r = (length r > 4 \<and> take 4 r = ''pdp_'')"

definition allowReason :: "Reason \<Rightarrow> bool" where
  "allowReason r =
     (r = AllowedByMembershipDefault \<or> r = AllowedByRepositoryGrant \<or> r = AllowedByRole \<or>
      r = AllowedByPlatformAdmin)"

section \<open>Obligations\<close>

record Obligations =
  granted :: bool
  tenant :: string
  hasTenant :: bool
  allowlist :: "string list"
  hasAllowlist :: bool
  scope :: string
  redaction :: "string list"
  assurance :: string
  hasAssurance :: bool
  stepUp :: bool

definition zero_Obligations :: Obligations where
  "zero_Obligations =
     \<lparr>granted = False, tenant = [], hasTenant = False, allowlist = [], hasAllowlist = False, scope = [],
      redaction = [], assurance = [], hasAssurance = False, stepUp = False\<rparr>"

text \<open>A nil \<open>Allowlist\<close> is the absent member: an option.\<close>

record ObligationSpec =
  spec_Tenant :: string
  spec_Scope :: string
  spec_Allowlist :: "string list option"
  spec_Redaction :: "string list"
  spec_Assurance :: string
  spec_StepUp :: bool

definition zero_ObligationSpec :: ObligationSpec where
  "zero_ObligationSpec =
     \<lparr>spec_Tenant = [], spec_Scope = [], spec_Allowlist = None, spec_Redaction = [],
      spec_Assurance = [], spec_StepUp = False\<rparr>"

definition ScopeOrganization :: string where
  "ScopeOrganization = ''organization''"

definition NewObligations :: "ObligationSpec \<Rightarrow> Obligations" where
  "NewObligations s =
     (let ob = \<lparr>granted = True, tenant = spec_Tenant s, hasTenant = (spec_Tenant s \<noteq> []),
        allowlist = [], hasAllowlist = False, scope = spec_Scope s, redaction = spec_Redaction s,
        assurance = spec_Assurance s, hasAssurance = (spec_Assurance s \<noteq> []), stepUp = spec_StepUp s\<rparr>
      in case spec_Allowlist s of
           None \<Rightarrow> ob
         | Some l \<Rightarrow> ob\<lparr>hasAllowlist := True, allowlist := l\<rparr>)"

definition assuranceRank :: "string \<Rightarrow> int" where
  "assuranceRank a = (if a = ''aal1'' then 1 else if a = ''aal2'' then 2 else if a = ''aal3'' then 3 else 0)"

definition TenantScope :: "Obligations \<Rightarrow> string \<times> bool" where
  "TenantScope ob = (tenant ob, hasTenant ob)"

definition TenantAllows :: "Obligations \<Rightarrow> string \<Rightarrow> bool" where
  "TenantAllows ob org =
     (if \<not> granted ob \<or> org = [] then False else \<not> hasTenant ob \<or> tenant ob = org)"

definition RepositoryRestricted :: "Obligations \<Rightarrow> bool" where
  "RepositoryRestricted ob = hasAllowlist ob"

definition RepositoryScopeOrganization :: "Obligations \<Rightarrow> bool" where
  "RepositoryScopeOrganization ob = (granted ob \<and> scope ob = ScopeOrganization)"

definition RepositoryAllowlist :: "Obligations \<Rightarrow> string list" where
  "RepositoryAllowlist ob = allowlist ob"

definition RepositoryAllowed :: "Obligations \<Rightarrow> string \<Rightarrow> bool" where
  "RepositoryAllowed ob key =
     (if \<not> granted ob \<or> \<not> ValidSlug key then False
      else if scope ob = ScopeOrganization then True
      else list_ex (\<lambda>k. k = ''*'' \<or> k = key) (allowlist ob))"

definition Redaction :: "Obligations \<Rightarrow> string list" where
  "Redaction ob = redaction ob"

definition Redacts :: "Obligations \<Rightarrow> string \<Rightarrow> bool" where
  "Redacts ob c = list_ex (\<lambda>r. r = c) (redaction ob)"

definition MinimumAssurance :: "Obligations \<Rightarrow> string \<times> bool" where
  "MinimumAssurance ob = (assurance ob, hasAssurance ob)"

definition AssuranceSatisfiedBy :: "Obligations \<Rightarrow> string \<Rightarrow> bool" where
  "AssuranceSatisfiedBy ob level =
     (let have = assuranceRank level in
      if \<not> granted ob \<or> have = 0 then False
      else \<not> hasAssurance ob \<or> have \<ge> assuranceRank (assurance ob))"

definition StepUpRequired :: "Obligations \<Rightarrow> bool" where
  "StepUpRequired ob = stepUp ob"

section \<open>Decisions\<close>

text \<open>
  The error a decision carries: the typed \<open>*pep.Error\<close> with its reason and HTTP status, or
  one of the package-level error values.
\<close>

record Error =
  e_reason :: Reason
  e_status :: int

datatype error = PepError Error | NoDecisionError | InconsistentError | BadRule

record Decision =
  allowed :: bool
  reason :: Reason
  err :: "error option"
  decisionID :: string
  principalID :: string
  organization :: string
  hasOrg :: bool
  policyRevision :: u64
  expiresAt :: instant
  cacheable :: bool
  obligations :: Obligations

definition zero_Decision :: Decision where
  "zero_Decision =
     \<lparr>allowed = False, reason = [], err = None, decisionID = [], principalID = [], organization = [],
      hasOrg = False, policyRevision = 0, expiresAt = zero_time, cacheable = False,
      obligations = zero_Obligations\<rparr>"

record Wire =
  w_Allowed :: bool
  w_Reason :: Reason
  w_DecisionID :: string
  w_PrincipalID :: string
  w_Organization :: string
  w_HasOrg :: bool
  w_PolicyRevision :: u64
  w_ExpiresAt :: instant
  w_Cacheable :: bool
  w_Obligations :: Obligations

definition Local :: "Reason \<Rightarrow> error option \<Rightarrow> Decision" where
  "Local r e = zero_Decision\<lparr>reason := r, err := e\<rparr>"

definition FromWire :: "Wire \<Rightarrow> Decision" where
  "FromWire w =
     (if w_Allowed w \<noteq> allowReason (w_Reason w) then Local Malformed (Some InconsistentError)
      else
        let d = zero_Decision\<lparr>allowed := w_Allowed w, reason := w_Reason w, decisionID := w_DecisionID w,
          principalID := w_PrincipalID w, organization := w_Organization w, hasOrg := w_HasOrg w,
          policyRevision := w_PolicyRevision w, expiresAt := w_ExpiresAt w, cacheable := w_Cacheable w\<rparr>
        in if w_Allowed w then d\<lparr>obligations := w_Obligations w\<rparr> else d)"

definition Allowed :: "Decision \<Rightarrow> bool" where
  "Allowed d = allowed d"

definition Decision_Reason :: "Decision \<Rightarrow> Reason" where
  "Decision_Reason d = (if reason d = [] then NoDecision else reason d)"

definition Decision_Local :: "Decision \<Rightarrow> bool" where
  "Decision_Local d = Reason_Local (Decision_Reason d)"

definition Err :: "Decision \<Rightarrow> error option" where
  "Err d = (if reason d = [] then Some NoDecisionError else err d)"

definition Decision_OrganizationID :: "Decision \<Rightarrow> string \<times> bool" where
  "Decision_OrganizationID d = (organization d, hasOrg d)"

definition Cacheable :: "Decision \<Rightarrow> bool" where
  "Cacheable d = cacheable d"

definition PolicyRevision :: "Decision \<Rightarrow> u64" where
  "PolicyRevision d = policyRevision d"

definition ExpiresAt :: "Decision \<Rightarrow> instant" where
  "ExpiresAt d = expiresAt d"

definition DecisionID :: "Decision \<Rightarrow> string" where
  "DecisionID d = decisionID d"

definition PrincipalID :: "Decision \<Rightarrow> string" where
  "PrincipalID d = principalID d"

definition Decision_Obligations :: "Decision \<Rightarrow> Obligations" where
  "Decision_Obligations d = obligations d"

lemmas accessor_defs [code_defs] =
  Allowed_def Decision_Reason_def Decision_Local_def Err_def Cacheable_def PolicyRevision_def
  ExpiresAt_def

text \<open>pep/errors.go.\<close>

definition Error_Reason :: "Error option \<Rightarrow> Reason" where
  "Error_Reason e = (case e of None \<Rightarrow> NoDecision | Some e \<Rightarrow> e_reason e)"

definition fail :: "Reason \<Rightarrow> Error" where
  "fail r = \<lparr>e_reason = r, e_status = 0\<rparr>"

definition failStatus :: "Reason \<Rightarrow> int \<Rightarrow> Error" where
  "failStatus r status = \<lparr>e_reason = r, e_status = status\<rparr>"

definition deny :: "Error \<Rightarrow> Decision" where
  "deny e = Local (e_reason e) (Some (PepError e))"

end
