(* ===== verification/Go_Json.thy ===== *)
theory Go_Json
  imports Prelude
begin

text \<open>
  What the sources use of Go's \<open>encoding/json\<close>. A JSON text is read into a \<open>json\<close>
  tree that keeps a number's text and an object's members in document order; a
  \<open>json.RawMessage\<close> of a valid document is modelled by the tree of its bytes. The
  token interface of \<open>json.Decoder\<close> (\<open>Token\<close>, \<open>More\<close>) is the state machine of
  the library, on the same lexical rules. \<open>json_text\<close> is the grammar, as an inductive
  relation with no fuel; the executable parser is proved equal to it.
\<close>

section \<open>Values\<close>

datatype json =
    JNull
  | JBool bool
  | JNum string
  | JStr string
  | JArr "json list"
  | JObj "(string \<times> json) list"

text \<open>A Go map keeps the last of several members with one name.\<close>

definition obj_get :: "(string \<times> json) list \<Rightarrow> string \<Rightarrow> json option" where
  "obj_get ms k = map_of (rev ms) k"

lemma obj_get_mem: "obj_get ms k = Some v \<Longrightarrow> (k, v) \<in> set ms"
  by (auto simp: obj_get_def dest: map_of_SomeD)

lemma obj_get_None: "obj_get ms k = None \<longleftrightarrow> k \<notin> fst ` set ms"
  by (auto simp: obj_get_def map_of_eq_None_iff)

lemma obj_get_unique: "distinct (map fst ms) \<Longrightarrow> obj_get ms k = Some v \<longleftrightarrow> (k, v) \<in> set ms"
  by (simp add: obj_get_def map_of_eq_Some_iff rev_map [symmetric])

section \<open>Lexical rules\<close>

abbreviation quote :: char where "quote \<equiv> CHR 0x22"
abbreviation backslash :: char where "backslash \<equiv> CHR 0x5C"

definition is_ws :: "char \<Rightarrow> bool" where
  "is_ws c = (c = CHR '' '' \<or> c = CHR 0x09 \<or> c = CHR 0x0A \<or> c = CHR 0x0D)"

definition skip_ws :: "bytes \<Rightarrow> bytes" where
  "skip_ws s = dropWhile is_ws s"

definition is_digit :: "char \<Rightarrow> bool" where
  "is_digit c = (CHR ''0'' \<le> c \<and> c \<le> CHR ''9'')"

definition digit_val :: "char \<Rightarrow> nat" where
  "digit_val c = byte c - 48"

definition hex_val :: "char \<Rightarrow> nat option" where
  "hex_val c =
     (if is_digit c then Some (digit_val c)
      else if CHR ''a'' \<le> c \<and> c \<le> CHR ''f'' then Some (byte c - 87)
      else if CHR ''A'' \<le> c \<and> c \<le> CHR ''F'' then Some (byte c - 55)
      else None)"

text \<open>\<open>getu4\<close>: the value of four hexadecimal digits.\<close>

definition u4 :: "char \<Rightarrow> char \<Rightarrow> char \<Rightarrow> char \<Rightarrow> nat option" where
  "u4 a b c d =
     (case (hex_val a, hex_val b, hex_val c, hex_val d) of
        (Some w, Some x, Some y, Some z) \<Rightarrow> Some (((w * 16 + x) * 16 + y) * 16 + z)
      | _ \<Rightarrow> None)"

text \<open>The bytes of a string up to its closing quote, as the scanner admits them.\<close>

fun str_body :: "bytes \<Rightarrow> (bytes \<times> bytes) option" where
  "str_body [] = None"
| "str_body (c # cs) =
     (if c = quote then Some ([], cs)
      else if c = backslash then
        (case cs of [] \<Rightarrow> None
         | d # ds \<Rightarrow>
             if d = CHR ''u'' then
               (case ds of
                  w # x # y # z # es \<Rightarrow>
                    if u4 w x y z = None then None
                    else map_option (\<lambda>(b, r). (c # d # w # x # y # z # b, r)) (str_body es)
                | _ \<Rightarrow> None)
             else if d \<in> {CHR ''b'', CHR ''f'', CHR ''n'', CHR ''r'', CHR ''t'', backslash, CHR ''/'', quote}
             then map_option (\<lambda>(b, r). (c # d # b, r)) (str_body ds)
             else None)
      else if byte c < 32 then None
      else map_option (\<lambda>(b, r). (c # b, r)) (str_body cs))"

definition unescape :: "char \<Rightarrow> char" where
  "unescape d =
     (if d = CHR ''b'' then CHR 0x08 else if d = CHR ''f'' then CHR 0x0C
      else if d = CHR ''n'' then CHR 0x0A else if d = CHR ''r'' then CHR 0x0D
      else if d = CHR ''t'' then CHR 0x09 else d)"

text \<open>\<open>utf8.EncodeRune\<close> for a code point that is not a surrogate.\<close>

definition encode_rune :: "nat \<Rightarrow> bytes" where
  "encode_rune r =
     map chr
       (if r < 128 then [r]
        else if r < 2048 then [192 + r div 64, 128 + r mod 64]
        else if r < 65536 then [224 + r div 4096, 128 + r div 64 mod 64, 128 + r mod 64]
        else [240 + r div 262144, 128 + r div 4096 mod 64, 128 + r div 64 mod 64, 128 + r mod 64])"

definition replacement :: bytes where
  "replacement = map chr [239, 191, 189]"

text \<open>
  The number of bytes of the well-formed multi-byte sequence a byte list starts with, 0 when
  it starts with none: the table of \<open>utf8.DecodeRune\<close>.
\<close>

definition lead_info :: "nat \<Rightarrow> (nat \<times> nat \<times> nat) option" where
  "lead_info b =
     (if 194 \<le> b \<and> b \<le> 223 then Some (2, 128, 191)
      else if b = 224 then Some (3, 160, 191)
      else if b = 237 then Some (3, 128, 159)
      else if 225 \<le> b \<and> b \<le> 239 then Some (3, 128, 191)
      else if b = 240 then Some (4, 144, 191)
      else if b = 244 then Some (4, 128, 143)
      else if 241 \<le> b \<and> b \<le> 243 then Some (4, 128, 191)
      else None)"

definition utf8_len :: "bytes \<Rightarrow> nat" where
  "utf8_len s =
     (case s of [] \<Rightarrow> 0
      | c # cs \<Rightarrow>
          (case lead_info (byte c) of None \<Rightarrow> 0
           | Some (n, lo, hi) \<Rightarrow>
               (if n - 1 \<le> length cs \<and> lo \<le> byte (cs ! 0) \<and> byte (cs ! 0) \<le> hi \<and>
                   list_all (\<lambda>d. 128 \<le> byte d \<and> byte d \<le> 191) (take (n - 2) (tl cs))
                then n else 0)))"

definition high_surrogate :: "nat \<Rightarrow> bool" where
  "high_surrogate r = (55296 \<le> r \<and> r < 56320)"

definition low_surrogate :: "nat \<Rightarrow> bool" where
  "low_surrogate r = (56320 \<le> r \<and> r < 57344)"

text \<open>
  \<open>unquoteBytes\<close> on the bytes between the quotes: escapes are decoded, a surrogate
  without its partner and a byte that starts no well-formed sequence become U+FFFD.
\<close>

function (sequential) unquote :: "bytes \<Rightarrow> bytes" where
  "unquote [] = []"
| "unquote (c # cs) =
     (if c = backslash then
        (case cs of [] \<Rightarrow> []
         | d # ds \<Rightarrow>
             if d = CHR ''u'' then
               (case ds of
                  w # x # y # z # es \<Rightarrow>
                    (case u4 w x y z of None \<Rightarrow> []
                     | Some r \<Rightarrow>
                         if high_surrogate r \<or> low_surrogate r then
                           (case es of
                              b # u # w' # x' # y' # z' # fs \<Rightarrow>
                                (case u4 w' x' y' z' of
                                   Some r' \<Rightarrow>
                                     if b = backslash \<and> u = CHR ''u'' \<and> high_surrogate r \<and> low_surrogate r'
                                     then encode_rune (65536 + (r - 55296) * 1024 + (r' - 56320)) @ unquote fs
                                     else replacement @ unquote es
                                 | None \<Rightarrow> replacement @ unquote es)
                            | _ \<Rightarrow> replacement @ unquote es)
                         else encode_rune r @ unquote es)
                | _ \<Rightarrow> [])
             else unescape d # unquote ds)
      else if byte c < 128 then c # unquote cs
      else if utf8_len (c # cs) = 0 then replacement @ unquote cs
      else take (utf8_len (c # cs)) (c # cs) @ unquote (drop (utf8_len (c # cs)) (c # cs)))"
  by pat_completeness auto
termination by (relation "measure length") auto

definition lex_string :: "bytes \<Rightarrow> (string \<times> bytes) option" where
  "lex_string s =
     (case s of [] \<Rightarrow> None
      | c # cs \<Rightarrow> if c = quote then map_option (\<lambda>(b, r). (unquote b, r)) (str_body cs) else None)"

text \<open>The number grammar, longest match: sign, integer part, fraction, exponent.\<close>

definition digits1 :: "bytes \<Rightarrow> (bytes \<times> bytes) option" where
  "digits1 s =
     (let d = takeWhile is_digit s in if d = [] then None else Some (d, dropWhile is_digit s))"

definition int_part :: "bytes \<Rightarrow> (bytes \<times> bytes) option" where
  "int_part s =
     (case s of [] \<Rightarrow> None | c # cs \<Rightarrow> if c = CHR ''0'' then Some ([c], cs) else digits1 s)"

definition frac_part :: "bytes \<Rightarrow> (bytes \<times> bytes) option" where
  "frac_part s =
     (case s of [] \<Rightarrow> Some ([], [])
      | c # cs \<Rightarrow>
          if c = CHR ''.'' then map_option (\<lambda>(d, r). (c # d, r)) (digits1 cs) else Some ([], s))"

definition exp_part :: "bytes \<Rightarrow> (bytes \<times> bytes) option" where
  "exp_part s =
     (case s of [] \<Rightarrow> Some ([], [])
      | c # cs \<Rightarrow>
          if c = CHR ''e'' \<or> c = CHR ''E'' then
            (case cs of [] \<Rightarrow> None
             | d # ds \<Rightarrow>
                 if d = CHR ''+'' \<or> d = CHR ''-''
                 then map_option (\<lambda>(e, r). (c # d # e, r)) (digits1 ds)
                 else map_option (\<lambda>(e, r). (c # e, r)) (digits1 cs))
          else Some ([], s))"

definition lex_number :: "bytes \<Rightarrow> (string \<times> bytes) option" where
  "lex_number s =
     (let sg = takeWhile (\<lambda>c. c = CHR ''-'') (take 1 s) in
      case int_part (drop (length sg) s) of None \<Rightarrow> None
      | Some (i, r1) \<Rightarrow>
          (case frac_part r1 of None \<Rightarrow> None
           | Some (f, r2) \<Rightarrow>
               (case exp_part r2 of None \<Rightarrow> None
                | Some (e, r3) \<Rightarrow> Some (sg @ i @ f @ e, r3))))"

definition lex_literal :: "string \<Rightarrow> json \<Rightarrow> bytes \<Rightarrow> (json \<times> bytes) option" where
  "lex_literal t v s = map_option (\<lambda>r. (v, r)) (strip_prefix t s)"

text \<open>A value that is neither an array nor an object, at its first byte.\<close>

definition lex_scalar :: "bytes \<Rightarrow> (json \<times> bytes) option" where
  "lex_scalar s =
     (case s of [] \<Rightarrow> None
      | c # cs \<Rightarrow>
          if c = quote then map_option (\<lambda>(t, r). (JStr t, r)) (lex_string s)
          else if c = CHR ''t'' then lex_literal ''true'' (JBool True) s
          else if c = CHR ''f'' then lex_literal ''false'' (JBool False) s
          else if c = CHR ''n'' then lex_literal ''null'' JNull s
          else map_option (\<lambda>(t, r). (JNum t, r)) (lex_number s))"

declare str_body.simps [simp del] unquote.simps [simp del]

lemma str_body_split: "str_body s = Some (b, r) \<Longrightarrow> s = b @ quote # r"
proof (induction s arbitrary: b r rule: length_induct)
  case (1 s)
  show ?case
  proof (cases s)
    case Nil
    with 1 show ?thesis by (simp add: str_body.simps)
  next
    case (Cons c cs)
    have "str_body (c # cs) = Some (b, r)" using 1(2) Cons by simp
    then consider "c = quote" "b = []" "cs = r"
      | b' where "str_body cs = Some (b', r)" "b = c # b'"
      | d ds b' where "cs = d # ds" "str_body ds = Some (b', r)" "b = c # d # b'"
      | d w x y z es b' where "cs = d # w # x # y # z # es" "str_body es = Some (b', r)"
          "b = c # d # w # x # y # z # b'"
      by (subst (asm) str_body.simps(2)) (auto simp del: str_body.simps split: if_splits list.splits)
    then show ?thesis by cases (use 1(1) Cons in auto)
  qed
qed

lemma digits1_shorter: "digits1 s = Some (d, r) \<Longrightarrow> length r < length s"
  by (cases s) (auto simp: digits1_def Let_def length_dropWhile_le less_Suc_eq_le split: if_splits)

lemma part_shorter:
  "int_part s = Some (d, r) \<Longrightarrow> length r < length s"
  "frac_part s = Some (d, r) \<Longrightarrow> length r \<le> length s"
  "exp_part s = Some (d, r) \<Longrightarrow> length r \<le> length s"
  by (auto simp: int_part_def frac_part_def exp_part_def split: list.splits if_splits
      dest!: digits1_shorter)

lemma lex_number_shorter: "lex_number s = Some (t, r) \<Longrightarrow> length r < length s"
proof -
  assume a: "lex_number s = Some (t, r)"
  let ?s = "drop (length (takeWhile (\<lambda>c. c = CHR ''-'') (take 1 s))) s"
  have "length ?s \<le> length s" by simp
  moreover from a obtain i f e r1 r2 where "int_part ?s = Some (i, r1)" "frac_part r1 = Some (f, r2)"
    "exp_part r2 = Some (e, r)" by (auto simp: lex_number_def Let_def split: option.splits)
  ultimately show ?thesis using part_shorter by (metis leD le_less_trans less_le_trans not_less)
qed

lemma lex_string_shorter: "lex_string s = Some (t, r) \<Longrightarrow> length r < length s"
  by (auto simp: lex_string_def split: list.splits if_splits dest!: str_body_split)

lemma lex_scalar_shorter: "lex_scalar s = Some (v, r) \<Longrightarrow> length r < length s"
  by (auto simp: lex_scalar_def lex_literal_def strip_prefix_iff
      split: list.splits if_splits dest!: lex_string_shorter lex_number_shorter)

lemma skip_ws_shorter: "length (skip_ws s) \<le> length s"
  by (simp add: skip_ws_def length_dropWhile_le)

lemma skip_ws_idem [simp]: "skip_ws (skip_ws s) = skip_ws s"
  by (simp add: skip_ws_def)

lemma skip_ws_head: "skip_ws s = c # r \<Longrightarrow> \<not> is_ws c"
  by (metis hd_dropWhile list.distinct(1) list.sel(1) skip_ws_def)

section \<open>The grammar\<close>

text \<open>
  \<open>json_value s v r\<close>: the bytes \<open>s\<close> start, after white space, with a text of
  \<open>v\<close>, and \<open>r\<close> is what follows. The two other relations read the rest of a
  non-empty array and of a non-empty object, closing bracket included.
\<close>

inductive json_value :: "bytes \<Rightarrow> json \<Rightarrow> bytes \<Rightarrow> bool"
  and json_elems :: "bytes \<Rightarrow> json list \<Rightarrow> bytes \<Rightarrow> bool"
  and json_members :: "bytes \<Rightarrow> (string \<times> json) list \<Rightarrow> bytes \<Rightarrow> bool" where
  scalar: "lex_scalar (skip_ws s) = Some (v, r) \<Longrightarrow> json_value s v r"
| empty_array: "skip_ws s = CHR ''['' # t \<Longrightarrow> skip_ws t = CHR '']'' # r \<Longrightarrow> json_value s (JArr []) r"
| array: "skip_ws s = CHR ''['' # t \<Longrightarrow> json_elems t vs r \<Longrightarrow> json_value s (JArr vs) r"
| empty_object: "skip_ws s = CHR ''{'' # t \<Longrightarrow> skip_ws t = CHR ''}'' # r \<Longrightarrow> json_value s (JObj []) r"
| object: "skip_ws s = CHR ''{'' # t \<Longrightarrow> json_members t ms r \<Longrightarrow> json_value s (JObj ms) r"
| last_elem: "json_value s v t \<Longrightarrow> skip_ws t = CHR '']'' # r \<Longrightarrow> json_elems s [v] r"
| more_elems: "json_value s v t \<Longrightarrow> skip_ws t = CHR '','' # u \<Longrightarrow> json_elems u vs r \<Longrightarrow>
    json_elems s (v # vs) r"
| last_member: "lex_string (skip_ws s) = Some (k, t) \<Longrightarrow> skip_ws t = CHR '':'' # u \<Longrightarrow>
    json_value u v w \<Longrightarrow> skip_ws w = CHR ''}'' # r \<Longrightarrow> json_members s [(k, v)] r"
| more_members: "lex_string (skip_ws s) = Some (k, t) \<Longrightarrow> skip_ws t = CHR '':'' # u \<Longrightarrow>
    json_value u v w \<Longrightarrow> skip_ws w = CHR '','' # x \<Longrightarrow> json_members x ms r \<Longrightarrow>
    json_members s ((k, v) # ms) r"

definition json_text :: "bytes \<Rightarrow> json \<Rightarrow> bool" where
  "json_text s v = (\<exists>r. json_value s v r \<and> skip_ws r = [])"

section \<open>The parser\<close>

definition expect :: "char \<Rightarrow> bytes \<Rightarrow> bytes option" where
  "expect c s = (case skip_ws s of [] \<Rightarrow> None | d # r \<Rightarrow> if d = c then Some r else None)"

lemma expect_iff: "expect c s = Some r \<longleftrightarrow> skip_ws s = c # r"
  by (auto simp: expect_def split: list.splits)

fun jval :: "nat \<Rightarrow> bytes \<Rightarrow> (json \<times> bytes) option"
  and jelems :: "nat \<Rightarrow> bytes \<Rightarrow> (json list \<times> bytes) option"
  and jmembers :: "nat \<Rightarrow> bytes \<Rightarrow> ((string \<times> json) list \<times> bytes) option" where
  "jval 0 s = None"
| "jval (Suc n) s =
     (case expect CHR ''['' s of
        Some t \<Rightarrow>
          (case expect CHR '']'' t of
             Some r \<Rightarrow> Some (JArr [], r)
           | None \<Rightarrow> map_option (\<lambda>(vs, r). (JArr vs, r)) (jelems n t))
      | None \<Rightarrow>
          (case expect CHR ''{'' s of
             Some t \<Rightarrow>
               (case expect CHR ''}'' t of
                  Some r \<Rightarrow> Some (JObj [], r)
                | None \<Rightarrow> map_option (\<lambda>(ms, r). (JObj ms, r)) (jmembers n t))
           | None \<Rightarrow> lex_scalar (skip_ws s)))"
| "jelems 0 s = None"
| "jelems (Suc n) s =
     (case jval n s of None \<Rightarrow> None
      | Some (v, t) \<Rightarrow>
          (case expect CHR '']'' t of
             Some r \<Rightarrow> Some ([v], r)
           | None \<Rightarrow>
               (case expect CHR '','' t of
                  Some u \<Rightarrow> map_option (\<lambda>(vs, r). (v # vs, r)) (jelems n u)
                | None \<Rightarrow> None)))"
| "jmembers 0 s = None"
| "jmembers (Suc n) s =
     (case lex_string (skip_ws s) of None \<Rightarrow> None
      | Some (k, t) \<Rightarrow>
          (case expect CHR '':'' t of None \<Rightarrow> None
           | Some u \<Rightarrow>
               (case jval n u of None \<Rightarrow> None
                | Some (v, w) \<Rightarrow>
                    (case expect CHR ''}'' w of
                       Some r \<Rightarrow> Some ([(k, v)], r)
                     | None \<Rightarrow>
                         (case expect CHR '','' w of
                            Some x \<Rightarrow> map_option (\<lambda>(ms, r). ((k, v) # ms, r)) (jmembers n x)
                          | None \<Rightarrow> None)))))"

text \<open>One value and nothing after it but white space; twice the length is fuel enough.\<close>

definition json_prefix :: "bytes \<Rightarrow> (json \<times> bytes) option" where
  "json_prefix s = jval (2 * length s + 1) s"

definition json_parse :: "bytes \<Rightarrow> json option" where
  "json_parse s =
     (case json_prefix s of None \<Rightarrow> None | Some (v, r) \<Rightarrow> if skip_ws r = [] then Some v else None)"

lemma parser_sound:
  "jval n s = Some (v, r) \<Longrightarrow> json_value s v r"
  "jelems n s = Some (vs, r) \<Longrightarrow> json_elems s vs r"
  "jmembers n s = Some (ms, r) \<Longrightarrow> json_members s ms r"
proof (induction n s and n s and n s arbitrary: v r and vs r and ms r
    rule: jval_jelems_jmembers.induct)
  case (2 n s)
  then show ?case
    by (auto simp: expect_iff split: option.splits
        intro: scalar empty_array array empty_object object)
next
  case (4 n s)
  then obtain v t where v: "jval n s = Some (v, t)" by (auto split: option.splits)
  with 4 have val: "json_value s v t" by blast
  show ?case
  proof (cases "expect CHR '']'' t")
    case None
    with 4(3) v obtain u ws where "expect CHR '','' t = Some u" "jelems n u = Some (ws, r)" "vs = v # ws"
      by (auto split: option.splits)
    then show ?thesis using 4(2) [OF v refl None] val more_elems by (auto simp: expect_iff)
  next
    case (Some u)
    with 4(3) v have "vs = [v]" "u = r" by simp_all
    with Some val show ?thesis by (auto simp: expect_iff intro: last_elem)
  qed
next
  case (6 n s)
  then obtain k t u v w where k: "lex_string (skip_ws s) = Some (k, t)" "expect CHR '':'' t = Some u"
    "jval n u = Some (v, w)" by (auto split: option.splits)
  with 6(1) have val: "json_value u v w" by blast
  show ?case
  proof (cases "expect CHR ''}'' w")
    case None
    with 6(3) k obtain x ns where "expect CHR '','' w = Some x" "jmembers n x = Some (ns, r)"
      "ms = (k, v) # ns" by (auto split: option.splits)
    then show ?thesis using 6(2) [OF k(1) refl k(2) k(3) refl None] val k more_members
      by (auto simp: expect_iff)
  next
    case (Some x)
    with 6(3) k have "ms = [(k, v)]" "x = r" by simp_all
    with Some k val show ?thesis by (auto simp: expect_iff intro: last_member)
  qed
qed simp_all

lemma skip_ws_cons_shorter: "skip_ws s = c # r \<Longrightarrow> length r < length s"
  using skip_ws_shorter [of s] by simp

lemma grammar_shorter:
  "json_value s v r \<Longrightarrow> length r < length s"
  "json_elems s vs r \<Longrightarrow> length r < length s"
  "json_members s ms r \<Longrightarrow> length r < length s"
proof (induction rule: json_value_json_elems_json_members.inducts)
  case (scalar s v r)
  then show ?case using lex_scalar_shorter skip_ws_shorter [of s] by fastforce
next
  case (last_member s k t u v w r)
  then show ?case using lex_string_shorter skip_ws_shorter [of s] skip_ws_cons_shorter
    by (metis order.strict_trans order.strict_trans2)
next
  case (more_members s k t u v w x ms r)
  then show ?case using lex_string_shorter skip_ws_shorter [of s] skip_ws_cons_shorter
    by (metis order.strict_trans order.strict_trans2)
qed (auto dest!: skip_ws_cons_shorter)

text \<open>No text of a value starts with a closing bracket, so the empty containers are apart.\<close>

lemma lex_scalar_head:
  "lex_scalar (c # cs) = Some (v, r) \<Longrightarrow> c \<notin> {CHR ''['', CHR '']'', CHR ''{'', CHR ''}'', CHR '','', CHR '':''}"
proof
  assume l: "lex_scalar (c # cs) = Some (v, r)"
    and "c \<in> {CHR ''['', CHR '']'', CHR ''{'', CHR ''}'', CHR '','', CHR '':''}"
  then have "lex_scalar (c # cs) = None"
    by (elim insertE emptyE; hypsubst; simp add: lex_scalar_def lex_number_def int_part_def digits1_def is_digit_def)
  with l show False by simp
qed

lemma value_head:
  "json_value s v r \<Longrightarrow> \<exists>c t. skip_ws s = c # t \<and> c \<notin> {CHR '']'', CHR ''}'', CHR '','', CHR '':''}"
  "json_elems s vs r \<Longrightarrow> \<exists>c t. skip_ws s = c # t \<and> c \<notin> {CHR '']'', CHR ''}'', CHR '','', CHR '':''}"
  "json_members s ms r \<Longrightarrow> \<exists>t. skip_ws s = quote # t"
proof (induction rule: json_value_json_elems_json_members.inducts)
  case (scalar s v r)
  then obtain c t where "skip_ws s = c # t" by (cases "skip_ws s") (auto simp: lex_scalar_def)
  with scalar lex_scalar_head show ?case by fastforce
qed (auto simp: lex_string_def split: list.splits if_splits)

lemma parser_complete:
  "json_value s v r \<Longrightarrow> 2 * length s < n \<Longrightarrow> jval n s = Some (v, r)"
  "json_elems s vs r \<Longrightarrow> 2 * length s + 1 < n \<Longrightarrow> jelems n s = Some (vs, r)"
  "json_members s ms r \<Longrightarrow> 2 * length s + 1 < n \<Longrightarrow> jmembers n s = Some (ms, r)"
proof (induction arbitrary: n and n and n rule: json_value_json_elems_json_members.inducts)
  case (scalar s v r)
  then obtain m where n: "n = Suc m" by (cases n) auto
  have "expect CHR ''['' s = None" "expect CHR ''{'' s = None"
    using scalar(1) by (auto simp: expect_def split: list.splits dest: lex_scalar_head)
  with scalar n show ?case by simp
next
  case (empty_array s t r)
  then show ?case by (cases n) (auto simp: expect_def)
next
  case (array s t vs r)
  then obtain m where n: "n = Suc m" by (cases n) auto
  with array have "jelems m t = Some (vs, r)" using skip_ws_cons_shorter [of s] by fastforce
  moreover have "expect CHR '']'' t = None" using value_head(2) [OF array(2)] by (auto simp: expect_def)
  ultimately show ?case using n array(1) by (simp add: expect_def)
next
  case (empty_object s t r)
  then show ?case by (cases n) (auto simp: expect_def)
next
  case (object s t ms r)
  then obtain m where n: "n = Suc m" by (cases n) auto
  with object have "jmembers m t = Some (ms, r)" using skip_ws_cons_shorter [of s] by fastforce
  moreover have "expect CHR ''}'' t = None" using value_head(3) [OF object(2)] by (auto simp: expect_def)
  ultimately show ?case using n object(1) by (simp add: expect_def)
next
  case (last_elem s v t r)
  then show ?case by (cases n) (auto simp: expect_def)
next
  case (more_elems s v t u vs r)
  then obtain m where n: "n = Suc m" by (cases n) auto
  have "length u < length s"
    using grammar_shorter(1) [OF more_elems(1)] skip_ws_cons_shorter [OF more_elems(2)] by simp
  then show ?case using n more_elems by (auto simp: expect_def)
next
  case (last_member s k t u v w r)
  then obtain m where n: "n = Suc m" by (cases n) auto
  have "length u < length s" using last_member(1,2) lex_string_shorter skip_ws_shorter [of s]
    skip_ws_cons_shorter by (metis order.strict_trans order.strict_trans2)
  then show ?case using n last_member by (auto simp: expect_def)
next
  case (more_members s k t u v w x ms r)
  then obtain m where n: "n = Suc m" by (cases n) auto
  have u: "length u < length s" using more_members(1,2) lex_string_shorter skip_ws_shorter [of s]
    skip_ws_cons_shorter by (metis order.strict_trans order.strict_trans2)
  then have "length x < length s"
    using grammar_shorter(1) [OF more_members(3)] skip_ws_cons_shorter [OF more_members(4)] by simp
  with u show ?case using n more_members by (auto simp: expect_def)
qed

lemma json_prefix_iff: "json_prefix s = Some (v, r) \<longleftrightarrow> json_value s v r"
  unfolding json_prefix_def by (rule iffI, erule parser_sound, erule parser_complete, simp)

lemma json_value_unique: "json_value s v r \<Longrightarrow> json_value s v' r' \<Longrightarrow> v = v' \<and> r = r'"
  using json_prefix_iff by (metis Pair_inject option.inject)

lemma json_parse_iff: "json_parse s = Some v \<longleftrightarrow> json_text s v"
  unfolding json_parse_def json_text_def
  by (auto split: option.splits simp flip: json_prefix_iff)

section \<open>Text after a value does not change it\<close>

text \<open>
  A value that something follows, or that a bracket closes, is read the same whatever is
  appended to the input.
\<close>

lemma skip_ws_append: "skip_ws s = c # r \<Longrightarrow> skip_ws (s @ x) = c # r @ x"
  unfolding skip_ws_def by (subst dropWhile_append) (auto simp: dropWhile_eq_Nil_conv [symmetric] simp del: dropWhile_eq_Nil_conv)

lemma str_body_append: "str_body s = Some (b, r) \<Longrightarrow> str_body (s @ x) = Some (b, r @ x)"
proof (induction s arbitrary: b r rule: length_induct)
  case (1 s)
  then obtain c cs where Cons: "s = c # cs" by (cases s) (auto simp: str_body.simps)
  have "str_body (c # cs) = Some (b, r)" using 1(2) Cons by simp
  then consider (stop) "c = quote" "b = []" "cs = r"
    | (plain) b' where "c \<noteq> quote" "c \<noteq> backslash" "\<not> byte c < 32" "str_body cs = Some (b', r)" "b = c # b'"
    | (esc) d ds b' where "c = backslash" "cs = d # ds" "d \<noteq> CHR ''u''"
        "d \<in> {CHR ''b'', CHR ''f'', CHR ''n'', CHR ''r'', CHR ''t'', backslash, CHR ''/'', quote}"
        "str_body ds = Some (b', r)" "b = c # d # b'"
    | (uni) w y z v es b' where "c = backslash" "cs = CHR ''u'' # w # y # z # v # es" "u4 w y z v \<noteq> None"
        "str_body es = Some (b', r)" "b = c # CHR ''u'' # w # y # z # v # b'"
    by (subst (asm) str_body.simps(2)) (auto split: if_splits list.splits)
  then show ?case
  proof cases
    case stop
    then show ?thesis by (simp add: Cons str_body.simps)
  next
    case plain
    then have "str_body (cs @ x) = Some (b', r @ x)" using 1(1) Cons by simp
    with plain show ?thesis by (simp add: Cons str_body.simps(2) [of c])
  next
    case esc
    then have "str_body (ds @ x) = Some (b', r @ x)" using 1(1) Cons by simp
    with esc(1-3,6) esc(4) show ?thesis by (simp add: Cons str_body.simps(2) [of backslash])
  next
    case uni
    then have "str_body (es @ x) = Some (b', r @ x)" using 1(1) Cons by simp
    with uni show ?thesis by (simp add: Cons str_body.simps(2) [of backslash])
  qed
qed

lemma lex_string_append: "lex_string s = Some (t, r) \<Longrightarrow> lex_string (s @ x) = Some (t, r @ x)"
  by (auto simp: lex_string_def split: list.splits if_splits dest: str_body_append)

lemma digits1_append:
  assumes "digits1 s = Some (d, r)" and "r \<noteq> []"
  shows "digits1 (s @ x) = Some (d, r @ x)"
proof -
  have "dropWhile is_digit s \<noteq> []" using assms by (auto simp: digits1_def Let_def split: if_splits)
  then have "\<not> (\<forall>c \<in> set s. is_digit c)" by simp
  then show ?thesis using assms
    by (auto simp: digits1_def Let_def takeWhile_append dropWhile_append split: if_splits)
qed

lemma int_part_append: "int_part s = Some (d, r) \<Longrightarrow> r \<noteq> [] \<Longrightarrow> int_part (s @ x) = Some (d, r @ x)"
  by (auto simp: int_part_def split: list.splits if_splits dest: digits1_append)

lemma frac_part_append: "frac_part s = Some (d, r) \<Longrightarrow> r \<noteq> [] \<Longrightarrow> frac_part (s @ x) = Some (d, r @ x)"
  by (auto simp: frac_part_def split: list.splits if_splits dest: digits1_append)

lemma exp_part_append: "exp_part s = Some (d, r) \<Longrightarrow> r \<noteq> [] \<Longrightarrow> exp_part (s @ x) = Some (d, r @ x)"
  by (auto simp: exp_part_def split: list.splits if_splits dest: digits1_append)

lemma lex_number_append:
  assumes "lex_number s = Some (t, r)" and "r \<noteq> []"
  shows "lex_number (s @ x) = Some (t, r @ x)"
proof -
  let ?sg = "takeWhile (\<lambda>c. c = CHR ''-'') (take 1 s)"
  have "s \<noteq> []" using assms(1) by (auto simp: lex_number_def int_part_def)
  then have sg: "takeWhile (\<lambda>c. c = CHR ''-'') (take 1 (s @ x)) = ?sg" by (cases s) auto
  have d: "drop (length ?sg) (s @ x) = drop (length ?sg) s @ x" using \<open>s \<noteq> []\<close> by (cases s) auto
  obtain i r1 f r2 e where p: "int_part (drop (length ?sg) s) = Some (i, r1)"
    "frac_part r1 = Some (f, r2)" "exp_part r2 = Some (e, r)" "t = ?sg @ i @ f @ e"
    using assms(1) by (auto simp: lex_number_def Let_def split: option.splits)
  have "r2 \<noteq> []" "r1 \<noteq> []" using p(2,3) assms(2) by (auto simp: frac_part_def exp_part_def split: list.splits)
  with p assms(2) show ?thesis unfolding lex_number_def Let_def sg d
    by (simp add: int_part_append frac_part_append exp_part_append)
qed

lemma lex_scalar_append:
  assumes "lex_scalar s = Some (v, r)" and "r \<noteq> []"
  shows "lex_scalar (s @ x) = Some (v, r @ x)"
  using assms
  by (auto simp: lex_scalar_def lex_literal_def strip_prefix_iff split: list.splits if_splits
      dest: lex_string_append lex_number_append)

lemma lex_string_skip_append:
  assumes "lex_string (skip_ws s) = Some (k, t)"
  shows "lex_string (skip_ws (s @ x)) = Some (k, t @ x)"
proof -
  obtain c r where "skip_ws s = c # r" using assms by (cases "skip_ws s") (auto simp: lex_string_def)
  with assms lex_string_append [of "c # r"] show ?thesis by (simp add: skip_ws_append)
qed

lemma grammar_append:
  "json_value s v r \<Longrightarrow> r \<noteq> [] \<or> (\<exists>ms. v = JObj ms) \<or> (\<exists>vs. v = JArr vs) \<Longrightarrow> json_value (s @ x) v (r @ x)"
  "json_elems s vs r \<Longrightarrow> json_elems (s @ x) vs (r @ x)"
  "json_members s ms r \<Longrightarrow> json_members (s @ x) ms (r @ x)"
proof (induction rule: json_value_json_elems_json_members.inducts)
  case (scalar s v r)
  show ?case
  proof (cases "r = []")
    case True
    with scalar show ?thesis
      by (cases "skip_ws s")
         (auto simp: lex_scalar_def lex_literal_def split: if_splits)
  next
    case False
    obtain c t where "skip_ws s = c # t" using scalar(1) by (cases "skip_ws s") (auto simp: lex_scalar_def)
    then show ?thesis using lex_scalar_append [OF scalar(1) False]
      by (auto simp: skip_ws_append intro: json_value_json_elems_json_members.scalar)
  qed
next
  case (last_elem s v t r)
  have "t \<noteq> []" using last_elem(2) by (auto simp: skip_ws_def)
  with last_elem have "json_value (s @ x) v (t @ x)" by blast
  then show ?case using skip_ws_append [OF last_elem(2)] by (rule json_value_json_elems_json_members.last_elem)
next
  case (more_elems s v t u vs r)
  have "t \<noteq> []" using more_elems(2) by (auto simp: skip_ws_def)
  with more_elems have "json_value (s @ x) v (t @ x)" by blast
  then show ?case using skip_ws_append [OF more_elems(2)] more_elems(5)
    by (rule json_value_json_elems_json_members.more_elems)
next
  case (last_member s k t u v w r)
  have "w \<noteq> []" using last_member(4) by (auto simp: skip_ws_def)
  with last_member have v: "json_value (u @ x) v (w @ x)" by blast
  show ?case using lex_string_skip_append [OF last_member(1)] skip_ws_append [OF last_member(2)] v
      skip_ws_append [OF last_member(4)] by (rule json_value_json_elems_json_members.last_member)
next
  case (more_members s k t u v w y ms r)
  have "w \<noteq> []" using more_members(4) by (auto simp: skip_ws_def)
  with more_members have v: "json_value (u @ x) v (w @ x)" by blast
  show ?case using lex_string_skip_append [OF more_members(1)] skip_ws_append [OF more_members(2)] v
      skip_ws_append [OF more_members(4)] more_members(7)
    by (rule json_value_json_elems_json_members.more_members)
next
  case (empty_array s t r)
  then show ?case using skip_ws_append json_value_json_elems_json_members.empty_array by blast
next
  case (array s t vs r)
  then show ?case using skip_ws_append json_value_json_elems_json_members.array by blast
next
  case (empty_object s t r)
  then show ?case using skip_ws_append json_value_json_elems_json_members.empty_object by blast
next
  case (object s t ms r)
  then show ?case using skip_ws_append json_value_json_elems_json_members.object by blast
qed

section \<open>Trimming a document before reading it\<close>

text \<open>
  \<open>bytes.TrimSpace\<close> drops more than JSON white space, but a document that is a JSON text
  has nothing else to drop before its value: the object read after trimming is the object of
  the whole text.
\<close>

definition value_char :: "char \<Rightarrow> bool" where
  "value_char c =
     (c \<in> {CHR ''['', CHR ''{'', quote, CHR ''t'', CHR ''f'', CHR ''n'', CHR ''-''} \<or> is_digit c)"

lemma value_char_facts:
  "\<not> value_char c \<Longrightarrow>
     c \<noteq> CHR ''0'' \<and> c \<noteq> quote \<and> c \<noteq> CHR ''t'' \<and> c \<noteq> CHR ''f'' \<and> c \<noteq> CHR ''n'' \<and>
     c \<noteq> CHR ''-'' \<and> \<not> is_digit c"
  by (intro conjI notI; hypsubst?; simp add: value_char_def is_digit_def)

lemma lex_scalar_start: "lex_scalar (c # cs) = Some (v, r) \<Longrightarrow> value_char c"
proof (rule ccontr)
  assume l: "lex_scalar (c # cs) = Some (v, r)" and n: "\<not> value_char c"
  have "lex_number (c # cs) = None"
    using value_char_facts [OF n] by (simp add: lex_number_def int_part_def digits1_def)
  with l value_char_facts [OF n] show False by (simp add: lex_scalar_def)
qed

lemma json_value_start: "json_value s v r \<Longrightarrow> \<exists>c t. skip_ws s = c # t \<and> value_char c"
proof (erule json_value.cases)
  fix t v' r' assume "s = t" "lex_scalar (skip_ws t) = Some (v', r')"
  moreover from this obtain c u where "skip_ws t = c # u" by (cases "skip_ws t") (auto simp: lex_scalar_def)
  ultimately show ?thesis using lex_scalar_start by auto
qed (auto simp: value_char_def)

lemma json_value_skip:
  assumes "skip_ws s = skip_ws s'" and "json_value s v r"
  shows "json_value s' v r"
  using assms(2,1)
  by (cases s v r rule: json_value.cases)
     (metis scalar, metis empty_array, metis array, metis empty_object, metis object)

lemma is_ws_byte: "is_ws c \<longleftrightarrow> byte c \<in> {9, 10, 13, 32}"
  unfolding is_ws_def by (auto simp: byte_inject [symmetric])

lemma value_char_byte:
  "value_char c \<longleftrightarrow> byte c \<in> {91, 123, 34, 116, 102, 110, 45} \<or> 48 \<le> byte c \<and> byte c \<le> 57"
  unfolding value_char_def is_digit_def less_eq_char_def by (auto simp: byte_inject [symmetric])

lemma space_encoding_head:
  assumes "p \<in> set space_encodings"
  shows "(\<exists>c. p = [c] \<and> is_ws c) \<or> (\<exists>c r. p = c # r \<and> \<not> is_ws c \<and> \<not> value_char c)"
proof -
  have "(\<exists>n. p = [chr n] \<and> n \<in> {9, 10, 13, 32}) \<or>
      (\<exists>n r. p = chr n # r \<and> n \<in> {11, 12, 194, 225, 226, 227})"
    using assms unfolding space_encodings_def by auto
  then show ?thesis
  proof (elim disjE exE conjE)
    fix n assume "p = [chr n]" "n \<in> {9, 10, 13, 32}"
    then show ?thesis by (intro disjI1 exI [of _ "chr n"]) (auto simp: is_ws_byte)
  next
    fix n r assume "p = chr n # r" "n \<in> {11, 12, 194, 225, 226, 227}"
    then show ?thesis by (intro disjI2 exI [of _ "chr n"]) (auto simp: is_ws_byte value_char_byte)
  qed
qed

lemma leading_spaces:
  "set ls \<subseteq> set space_encodings \<Longrightarrow> json_value (concat ls @ t) v r \<Longrightarrow>
     skip_ws (concat ls @ t) = skip_ws t"
proof (induction ls)
  case Nil
  then show ?case by simp
next
  case (Cons p ls)
  then have "p \<in> set space_encodings" by simp
  then consider c where "p = [c]" "is_ws c" | c q where "p = c # q" "\<not> is_ws c" "\<not> value_char c"
    using space_encoding_head by blast
  then show ?case
  proof cases
    case 1
    then have eq: "skip_ws (concat (p # ls) @ t) = skip_ws (concat ls @ t)" by (simp add: skip_ws_def)
    have "json_value (concat ls @ t) v r" by (rule json_value_skip [OF eq Cons.prems(2)])
    with Cons.IH Cons.prems(1) eq show ?thesis by simp
  next
    case 2
    then show ?thesis using json_value_start [OF Cons.prems(2)] by (simp add: skip_ws_def)
  qed
qed

lemma trimmed_object:
  assumes "json_text s v" and "json_parse (trim_space s) = Some (JObj ms)"
  shows "v = JObj ms"
proof -
  obtain ls x where s: "s = concat ls @ trim_space s @ x" "set ls \<subseteq> set space_encodings"
    using trim_space_split by blast
  obtain r where v: "json_value s v r" using assms(1) by (auto simp: json_text_def)
  obtain r' where "json_value (trim_space s) (JObj ms) r'"
    using assms(2) by (auto simp: json_parse_iff json_text_def)
  then have "json_value (trim_space s @ x) (JObj ms) (r' @ x)" by (intro grammar_append) auto
  moreover have "skip_ws s = skip_ws (trim_space s @ x)" using leading_spaces s v by metis
  ultimately have "json_value s (JObj ms) (r' @ x)" using json_value_skip by metis
  with v json_value_unique show ?thesis by blast
qed

text \<open>\<open>json.Unmarshal\<close> reads one value and refuses containers nested past 10000.\<close>

fun within_nesting :: "nat \<Rightarrow> json \<Rightarrow> bool" where
  "within_nesting n (JArr vs) = (0 < n \<and> list_all (within_nesting (n - 1)) vs)"
| "within_nesting n (JObj ms) = (0 < n \<and> list_all (\<lambda>m. within_nesting (n - 1) (snd m)) ms)"
| "within_nesting n v = True"

definition max_nesting :: nat where
  "max_nesting = 10000"

text \<open>For evaluation the nesting is compared as an integer, in binary.\<close>

fun json_depth :: "json \<Rightarrow> nat" where
  "json_depth (JArr vs) = Suc (fold max (map json_depth vs) 0)"
| "json_depth (JObj ms) = Suc (fold max (map (\<lambda>m. json_depth (snd m)) ms) 0)"
| "json_depth v = 0"

lemma fold_max_le: "fold max xs a \<le> (n :: nat) \<longleftrightarrow> a \<le> n \<and> (\<forall>x \<in> set xs. x \<le> n)"
  by (induction xs arbitrary: a) auto

lemma within_nesting_depth: "within_nesting n v \<longleftrightarrow> json_depth v \<le> n"
proof (induction v arbitrary: n rule: json_depth.induct)
  case (1 vs)
  then show ?case by (cases n) (auto simp: fold_max_le list_all_iff)
next
  case (2 ms)
  then show ?case by (cases n) (fastforce simp: fold_max_le list_all_iff)+
qed simp_all

lemma max_nesting_depth [code_unfold]: "within_nesting max_nesting v \<longleftrightarrow> int (json_depth v) \<le> 10000"
  by (simp add: within_nesting_depth max_nesting_def)

definition json_unmarshal :: "bytes \<Rightarrow> json option" where
  "json_unmarshal s =
     (case json_parse s of
        None \<Rightarrow> None
      | Some v \<Rightarrow> if within_nesting max_nesting v then Some v else None)"

section \<open>Marshalling\<close>

text \<open>
  \<open>json.Marshal\<close> of a string, with the HTML escaping that is its default: quote and
  backslash, the control characters, \<open><\<close>, \<open>>\<close> and \<open>&\<close> are escaped, as are
  U+2028 and U+2029; a byte that starts no well-formed sequence becomes the escape of U+FFFD.
\<close>

definition hex_digit :: "nat \<Rightarrow> char" where
  "hex_digit n = (if n < 10 then chr (48 + n) else chr (87 + n))"

definition marshal_ascii :: "char \<Rightarrow> bytes" where
  "marshal_ascii c =
     (if c = quote \<or> c = backslash then [backslash, c]
      else if c = CHR 0x08 then [backslash, CHR ''b''] else if c = CHR 0x0C then [backslash, CHR ''f'']
      else if c = CHR 0x0A then [backslash, CHR ''n''] else if c = CHR 0x0D then [backslash, CHR ''r'']
      else if c = CHR 0x09 then [backslash, CHR ''t'']
      else if byte c < 32 \<or> c = CHR ''<'' \<or> c = CHR ''>'' \<or> c = CHR ''&''
      then backslash # ''u00'' @ [hex_digit (byte c div 16), hex_digit (byte c mod 16)]
      else [c])"

definition line_separators :: "bytes list" where
  "line_separators = [map chr [226, 128, 168], map chr [226, 128, 169]]"

function (sequential) marshal_chars :: "bytes \<Rightarrow> bytes" where
  "marshal_chars [] = []"
| "marshal_chars (c # cs) =
     (if byte c < 128 then marshal_ascii c @ marshal_chars cs
      else
        (let n = utf8_len (c # cs) in
         if n = 0 then backslash # ''ufffd'' @ marshal_chars cs
         else if take n (c # cs) \<in> set line_separators
         then backslash # ''u202'' @ [hex_digit (byte (last (take n (c # cs))) - 160)] @ marshal_chars (drop n (c # cs))
         else take n (c # cs) @ marshal_chars (drop n (c # cs))))"
  by pat_completeness auto
termination by (relation "measure length") auto

definition marshal_string :: "string \<Rightarrow> bytes" where
  "marshal_string s = quote # marshal_chars s @ [quote]"

fun json_marshal :: "json \<Rightarrow> bytes" where
  "json_marshal JNull = ''null''"
| "json_marshal (JBool b) = (if b then ''true'' else ''false'')"
| "json_marshal (JNum t) = t"
| "json_marshal (JStr s) = marshal_string s"
| "json_marshal (JArr vs) = ''['' @ join '','' (map json_marshal vs) @ '']''"
| "json_marshal (JObj ms) =
     ''{'' @ join '','' (map (\<lambda>m. marshal_string (fst m) @ '':'' @ json_marshal (snd m)) ms) @ ''}''"

end
