(* ===== verification/Pep_Request.thy ===== *)
theory Pep_Request
  imports Decision Go_Json
begin

text \<open>
  pep/request.go: one question to the policy decision point, its validity, the request id the
  client mints and the documents it sends.
\<close>

section \<open>Patterns and tables\<close>

definition MaxBatch :: nat where
  "MaxBatch = 100"

abbreviation upper :: "nat \<times> nat" where "upper \<equiv> crange CHR ''A'' CHR ''Z''"
abbreviation lower :: "nat \<times> nat" where "lower \<equiv> crange CHR ''a'' CHR ''z''"
abbreviation digit :: "nat \<times> nat" where "digit \<equiv> crange CHR ''0'' CHR ''9''"

definition principalReferenceRE :: re where
  "principalReferenceRE =
     r_reps (RCls [upper, lower, digit, cone CHR ''.'', cone CHR ''_'', cone CHR ''~'', cone CHR ''-'']) 16 1000"

definition otherKeyRE :: re where
  "otherKeyRE =
     RSeq (RCls [lower, digit])
       (r_reps (RCls [lower, digit, cone CHR ''.'', cone CHR ''_'', cone CHR '':'', cone CHR ''-'']) 0 255)"

definition actionPattern :: re where
  "actionPattern =
     (let word = RSeq (RCls [lower]) (r_star (RCls [lower, digit, cone CHR ''_''])) in
      RSeq word (r_plus (RSeq (lit CHR ''.'') word)))"

definition urlsafe :: "(nat \<times> nat) list" where
  "urlsafe = [upper, lower, digit, cone CHR ''_'', cone CHR ''-'']"

definition requestIDPattern :: re where
  "requestIDPattern = RSeq (lits ''req_'') (r_times (RCls urlsafe) 26)"

definition requestIDAlphabet :: string where
  "requestIDAlphabet = ''ABCDEFGHIJKLMNOPQRSTUVWXYZabcdefghijklmnopqrstuvwxyz0123456789_-''"

definition resourceTypes :: "string list" where
  "resourceTypes =
     [''organization'', ''repository'', ''membership'', ''service_account'', ''grant'', ''credential'',
      ''session'', ''signing_key'', ''subscription'', ''platform'']"

definition clientServices :: "string list" where
  "clientServices =
     [''dev-health-ops-api'', ''dev-health-ops-billing-edge'', ''dev-health-web'', ''dev-health-acr-api'',
      ''dev-health-acr-mcp'', ''dev-health-query-api'', ''dev-health-auth-service'']"

section \<open>Requests\<close>

record Request =
  PrincipalReference :: string
  Action :: string
  ResourceType :: string
  ResourceKey :: string
  OrganizationID :: string
  RequestID :: string

definition Request_valid :: "Request \<Rightarrow> bool" where
  "Request_valid r =
     (if \<not> matches principalReferenceRE (PrincipalReference r) \<or> \<not> matches actionPattern (Action r) \<or>
         \<not> contains resourceTypes (ResourceType r) then False
      else if ResourceType r = ''repository'' \<and> \<not> Repokey.Valid (ResourceKey r) then False
      else if ResourceType r \<noteq> ''repository'' \<and> \<not> matches otherKeyRE (ResourceKey r) then False
      else RequestID r = [] \<or> matches requestIDPattern (RequestID r))"

text \<open>\<open>raw\<close> is what \<open>crypto/rand.Read\<close> fills the 26-byte buffer with.\<close>

definition mintRequestID :: "8 word list \<Rightarrow> string" where
  "mintRequestID raw = ''req_'' @ map (\<lambda>b. requestIDAlphabet ! unat (Bit_Operations.and b 63)) raw"

section \<open>Documents\<close>

text \<open>
  The wire structures as the trees \<open>json.Marshal\<close> prints: members in the order of the
  struct fields, \<open>organization_id\<close> left out when empty.
\<close>

definition wireResource :: "Request \<Rightarrow> json" where
  "wireResource r =
     JObj ([(''type'', JStr (ResourceType r))] @
           (if OrganizationID r = [] then [] else [(''organization_id'', JStr (OrganizationID r))]) @
           [(''key'', JStr (ResourceKey r))])"

definition wireContext :: "string \<Rightarrow> string \<Rightarrow> json" where
  "wireContext rid service = JObj [(''request_id'', JStr rid), (''client_service'', JStr service)]"

definition wire :: "string \<Rightarrow> 8 word list \<Rightarrow> Request \<Rightarrow> json" where
  "wire service raw r =
     (let rid = (if RequestID r = [] then mintRequestID raw else RequestID r) in
      JObj [(''schema_version'', JStr ''authorization_request.v1''),
            (''principal_reference'', JStr (PrincipalReference r)),
            (''action'', JStr (Action r)),
            (''resource'', wireResource r),
            (''context'', wireContext rid service)])"

definition singleBody :: "string \<Rightarrow> 8 word list \<Rightarrow> Request \<Rightarrow> bytes" where
  "singleBody service raw r = json_marshal (wire service raw r)"

text \<open>One buffer of random bytes per request, in order.\<close>

definition batchBody :: "string \<Rightarrow> (nat \<Rightarrow> 8 word list) \<Rightarrow> Request list \<Rightarrow> bytes" where
  "batchBody service raws rs =
     json_marshal
       (JObj [(''schema_version'', JStr ''authorization_batch_request.v1''),
              (''requests'', JArr (map (\<lambda>i. wire service (raws i) (rs ! i)) [0..<length rs]))])"

section \<open>A minted id is a valid request id\<close>

lemma alphabet_length: "length requestIDAlphabet = 64"
  by (simp add: requestIDAlphabet_def)

lemma alphabet_urlsafe: "list_all (in_class urlsafe) requestIDAlphabet"
  by (simp add: requestIDAlphabet_def urlsafe_def in_class_def crange_def cone_def)

lemma masked_index: "unat (Bit_Operations.and (b :: 8 word) 63) < 64"
proof -
  have "Bit_Operations.and b 63 \<le> 63" by (rule word_and_le1)
  then show ?thesis by (simp add: word_le_nat_alt)
qed

lemma minted_chars:
  fixes raw :: "8 word list"
  shows "list_all (in_class urlsafe) (map (\<lambda>b. requestIDAlphabet ! unat (Bit_Operations.and b 63)) raw)"
  using alphabet_urlsafe masked_index by (simp add: list_all_length alphabet_length)

lemma requestIDPattern_iff:
  "matches requestIDPattern s \<longleftrightarrow>
     (\<exists>t. s = ''req_'' @ t \<and> length t = 26 \<and> list_all (in_class urlsafe) t)"
  unfolding matches_iff requestIDPattern_def lang_seq lang_rep_class lang_lits by (auto simp: in_reps_def)

text \<open>
  Whatever 26 bytes the random source gives, the request id the client mints is one that
  a valid request may carry.
\<close>

theorem minted_id_valid:
  assumes "length raw = 26"
  shows "matches requestIDPattern (mintRequestID raw)"
  unfolding requestIDPattern_iff mintRequestID_def using assms minted_chars [of raw] by (intro exI conjI) auto

theorem minted_id_valid_witness:
  "matches requestIDPattern (mintRequestID (replicate 26 255)) \<and> length (replicate 26 (255 :: 8 word)) = 26"
  using minted_id_valid [of "replicate 26 255"] by simp

end
