(* ===== verification/Go_Decoder.thy ===== *)
theory Go_Decoder
  imports Go_Json
begin

text \<open>
  The token interface of \<open>json.Decoder\<close>: its state is the unread input, the token state
  and the stack of enclosing token states. \<open>Token\<close> and \<open>More\<close> are the library's
  state machine. Two components walk a document with it to refuse repeated members
  (\<open>walk\<close> of pep/strict.go, \<open>scanValue\<close> of authverify/jwks.go); the locale states what
  the two loops have in common and proves once which documents such a walk accepts.
\<close>

section \<open>The token machine\<close>

datatype token_state =
    TopValue | ArrayStart | ArrayValue | ArrayComma
  | ObjectStart | ObjectKey | ObjectColon | ObjectValue | ObjectComma

record decoder =
  inp :: bytes
  tokenState :: token_state
  tokenStack :: "token_state list"

datatype token = Delim char | Tok json

datatype token_result = TokEOF | TokErr | Got token decoder

definition NewDecoder :: "bytes \<Rightarrow> decoder" where
  "NewDecoder s = \<lparr>inp = s, tokenState = TopValue, tokenStack = []\<rparr>"

definition value_allowed :: "token_state \<Rightarrow> bool" where
  "value_allowed st = (st \<in> {TopValue, ArrayStart, ArrayValue, ObjectValue})"

definition value_end :: "token_state \<Rightarrow> token_state" where
  "value_end st =
     (case st of ArrayStart \<Rightarrow> ArrayComma | ArrayValue \<Rightarrow> ArrayComma
      | ObjectValue \<Rightarrow> ObjectComma | _ \<Rightarrow> st)"

text \<open>
  A number read as \<open>float64\<close>: \<open>strconv.ParseFloat\<close> fails when the rounded value is
  infinite, that is at \<open>2^1024 - 2^970\<close> and above; it stops reading exponent digits once
  the exponent has reached 10000.
\<close>

definition float_bound :: int where
  "float_bound = 2 ^ 1024 - 2 ^ 970"

definition dec_value :: "string \<Rightarrow> int" where
  "dec_value ds = foldl (\<lambda>n c. 10 * n + int (digit_val c)) 0 ds"

definition exp_value :: "string \<Rightarrow> int" where
  "exp_value ds = foldl (\<lambda>e c. if e < 10000 then 10 * e + int (digit_val c) else e) 0 ds"

definition float_ok :: "string \<Rightarrow> bool" where
  "float_ok t =
     (let is_e = (\<lambda>c. c = CHR ''e'' \<or> c = CHR ''E'');
          mant = takeWhile (\<lambda>c. \<not> is_e c) t;
          ex = drop 1 (dropWhile (\<lambda>c. \<not> is_e c) t);
          frac = drop 1 (dropWhile (\<lambda>c. c \<noteq> CHR ''.'') mant);
          m = dec_value (filter is_digit mant);
          e = exp_value (filter is_digit ex);
          x = (if CHR ''-'' \<in> set ex then - e else e) - int (length frac)
      in if 0 \<le> x then m * 10 ^ nat x < float_bound else m < float_bound * 10 ^ nat (- x))"

text \<open>Decoding a scalar into an \<open>any\<close>.\<close>

definition decode_scalar :: "bytes \<Rightarrow> (json \<times> bytes) option" where
  "decode_scalar s =
     (case lex_scalar s of
        None \<Rightarrow> None
      | Some (v, r) \<Rightarrow>
          (case v of JNum t \<Rightarrow> if float_ok t then Some (v, r) else None | _ \<Rightarrow> Some (v, r)))"

function Token :: "decoder \<Rightarrow> token_result" where
  "Token d =
     (case skip_ws (inp d) of
        [] \<Rightarrow> TokEOF
      | c # r \<Rightarrow>
          if c = CHR ''['' then
            (if \<not> value_allowed (tokenState d) then TokErr
             else Got (Delim c) \<lparr>inp = r, tokenState = ArrayStart,
                                 tokenStack = tokenState d # tokenStack d\<rparr>)
          else if c = CHR '']'' then
            (if tokenState d \<noteq> ArrayStart \<and> tokenState d \<noteq> ArrayComma then TokErr
             else Got (Delim c) \<lparr>inp = r, tokenState = value_end (hd (tokenStack d)),
                                 tokenStack = tl (tokenStack d)\<rparr>)
          else if c = CHR ''{'' then
            (if \<not> value_allowed (tokenState d) then TokErr
             else Got (Delim c) \<lparr>inp = r, tokenState = ObjectStart,
                                 tokenStack = tokenState d # tokenStack d\<rparr>)
          else if c = CHR ''}'' then
            (if tokenState d \<noteq> ObjectStart \<and> tokenState d \<noteq> ObjectComma then TokErr
             else Got (Delim c) \<lparr>inp = r, tokenState = value_end (hd (tokenStack d)),
                                 tokenStack = tl (tokenStack d)\<rparr>)
          else if c = CHR '':'' then
            (if tokenState d \<noteq> ObjectColon then TokErr
             else Token (d\<lparr>inp := r, tokenState := ObjectValue\<rparr>))
          else if c = CHR '','' then
            (if tokenState d = ArrayComma then Token (d\<lparr>inp := r, tokenState := ArrayValue\<rparr>)
             else if tokenState d = ObjectComma then Token (d\<lparr>inp := r, tokenState := ObjectKey\<rparr>)
             else TokErr)
          else if c = quote \<and> (tokenState d = ObjectStart \<or> tokenState d = ObjectKey) then
            (case lex_string (c # r) of
               None \<Rightarrow> TokErr
             | Some (k, t) \<Rightarrow> Got (Tok (JStr k)) (d\<lparr>inp := t, tokenState := ObjectColon\<rparr>))
          else if \<not> value_allowed (tokenState d) then TokErr
          else
            (case decode_scalar (c # r) of
               None \<Rightarrow> TokErr
             | Some (v, t) \<Rightarrow> Got (Tok v) (d\<lparr>inp := t, tokenState := value_end (tokenState d)\<rparr>)))"
  by pat_completeness auto
termination
  by (relation "measure (length \<circ> inp)") (auto dest: skip_ws_cons_shorter)

definition More :: "decoder \<Rightarrow> bool" where
  "More d = (case skip_ws (inp d) of [] \<Rightarrow> False | c # r \<Rightarrow> c \<noteq> CHR '']'' \<and> c \<noteq> CHR ''}'')"

declare Token.simps [simp del]

text \<open>The closing delimiter after a loop over \<open>More\<close>: any token will do, an error will not.\<close>

definition close_token :: "decoder \<Rightarrow> decoder option" where
  "close_token d = (case Token d of Got _ d' \<Rightarrow> Some d' | _ \<Rightarrow> None)"

section \<open>What a token is, by state\<close>

text \<open>
  The states in which the walks ask for a value: at the top, at the start of an array, after
  an element, after a member name. \<open>value_at d = Some u\<close>: the separator such a state needs
  is there, and \<open>u\<close> follows it.
\<close>

definition value_at :: "decoder \<Rightarrow> bytes option" where
  "value_at d =
     (case tokenState d of
        TopValue \<Rightarrow> Some (inp d) | ArrayStart \<Rightarrow> Some (inp d)
      | ArrayComma \<Rightarrow> expect CHR '','' (inp d) | ObjectColon \<Rightarrow> expect CHR '':'' (inp d)
      | _ \<Rightarrow> None)"

definition after_value :: "token_state \<Rightarrow> token_state" where
  "after_value st = (case st of TopValue \<Rightarrow> TopValue | ObjectColon \<Rightarrow> ObjectComma | _ \<Rightarrow> ArrayComma)"

definition inner_state :: "token_state \<Rightarrow> token_state" where
  "inner_state st = (case st of ArrayComma \<Rightarrow> ArrayValue | ObjectColon \<Rightarrow> ObjectValue | _ \<Rightarrow> st)"

definition asks_value :: "decoder \<Rightarrow> bool" where
  "asks_value d =
     (tokenState d \<in> {TopValue, ArrayStart, ArrayComma, ObjectColon} \<and>
      (tokenState d \<in> {ArrayStart, ArrayComma} \<longrightarrow> More d))"

lemma value_end_inner:
  "st \<in> {TopValue, ArrayStart, ArrayComma, ObjectColon} \<Longrightarrow> value_end (inner_state st) = after_value st"
  by (auto simp: value_end_def inner_state_def after_value_def)

lemma Token_at:
  assumes "value_at d = Some u"
  shows "Token d = Token (d\<lparr>inp := u, tokenState := inner_state (tokenState d)\<rparr>)"
  using assms
  by (cases "tokenState d"; cases d)
     (simp_all add: value_at_def inner_state_def expect_iff Token.simps [of "\<lparr>inp = _, tokenState = _, tokenStack = _\<rparr>"])

lemma decode_scalar_lex: "decode_scalar s = Some (v, r) \<Longrightarrow> lex_scalar s = Some (v, r)"
  by (auto simp: decode_scalar_def split: option.splits json.splits if_splits)

lemma Token_open:
  assumes "value_at d = Some u" and "skip_ws u = c # r" and "c = CHR ''['' \<or> c = CHR ''{''"
  shows "Token d = Got (Delim c)
    \<lparr>inp = r, tokenState = if c = CHR ''['' then ArrayStart else ObjectStart,
     tokenStack = inner_state (tokenState d) # tokenStack d\<rparr>"
proof -
  have "value_allowed (inner_state (tokenState d))"
    using assms(1) by (auto simp: value_at_def value_allowed_def inner_state_def split: token_state.splits)
  with assms(2,3) show ?thesis
    by (elim disjE; subst Token_at [OF assms(1)]; subst Token.simps; simp)
qed

lemma Token_scalar:
  assumes "value_at d = Some u" and "decode_scalar (skip_ws u) = Some (v, r)"
  shows "Token d = Got (Tok v) (d\<lparr>inp := r, tokenState := after_value (tokenState d)\<rparr>)"
proof -
  have st: "tokenState d \<in> {TopValue, ArrayStart, ArrayComma, ObjectColon}"
    using assms(1) by (auto simp: value_at_def split: token_state.splits)
  then have allowed: "value_allowed (inner_state (tokenState d))"
    "inner_state (tokenState d) \<notin> {ObjectStart, ObjectKey}"
    by (auto simp: value_allowed_def inner_state_def)
  obtain c t where c: "skip_ws u = c # t" using assms(2)
    by (cases "skip_ws u") (auto simp: decode_scalar_def lex_scalar_def)
  with assms(2) have "c \<notin> {CHR ''['', CHR '']'', CHR ''{'', CHR ''}'', CHR '','', CHR '':''}"
    using decode_scalar_lex lex_scalar_head by metis
  with allowed assms(2) c value_end_inner [OF st] show ?thesis
    by (subst Token_at [OF assms(1)]; subst Token.simps; simp)
qed

text \<open>Inversion: where a value is asked for, a token is a scalar or opens a container.\<close>

lemma Token_asked_cases:
  assumes "asks_value d" and "Token d = Got t d'"
  obtains (tok) u v r where "value_at d = Some u" "decode_scalar (skip_ws u) = Some (v, r)" "t = Tok v"
      "d' = d\<lparr>inp := r, tokenState := after_value (tokenState d)\<rparr>"
  | (arr) u r where "value_at d = Some u" "skip_ws u = CHR ''['' # r" "t = Delim CHR ''[''"
      "d' = \<lparr>inp = r, tokenState = ArrayStart, tokenStack = inner_state (tokenState d) # tokenStack d\<rparr>"
  | (obj) u r where "value_at d = Some u" "skip_ws u = CHR ''{'' # r" "t = Delim CHR ''{''"
      "d' = \<lparr>inp = r, tokenState = ObjectStart, tokenStack = inner_state (tokenState d) # tokenStack d\<rparr>"
proof (cases "value_at d")
  case None
  with assms have False
    by (subst (asm) Token.simps)
       (auto simp: asks_value_def value_at_def More_def expect_def value_allowed_def
        split: list.splits if_splits)
  then show ?thesis ..
next
  case (Some u)
  let ?e = "d\<lparr>inp := u, tokenState := inner_state (tokenState d)\<rparr>"
  have st: "tokenState d \<in> {TopValue, ArrayStart, ArrayComma, ObjectColon}"
    and more: "tokenState d = ArrayStart \<Longrightarrow> More d"
    using assms(1) by (auto simp: asks_value_def)
  have t: "Token ?e = Got t d'" using Token_at [OF Some] assms(2) by simp
  then obtain c r where c: "skip_ws u = c # r" by (subst (asm) Token.simps) (auto split: list.splits)
  have no: "\<not> (c = CHR '']'' \<or> c = CHR ''}'' \<or> c = CHR '','' \<or> c = CHR '':'')"
    using t c st more Some
    by (subst (asm) Token.simps)
       (auto simp: inner_state_def More_def value_at_def split: if_splits)
  show ?thesis
  proof (cases "c = CHR ''['' \<or> c = CHR ''{''")
    case True
    then show ?thesis using Token_open [OF Some c True] assms(2) Some c arr obj by auto
  next
    case False
    then obtain v s where "decode_scalar (skip_ws u) = Some (v, s)"
      using t c no st by (subst (asm) Token.simps)
        (auto simp: inner_state_def split: if_splits option.splits)
    then show ?thesis using Token_scalar [OF Some] assms(2) Some tok by auto
  qed
qed

text \<open>The same for a member name, asked for at the start of an object or after a member.\<close>

definition name_at :: "decoder \<Rightarrow> bytes option" where
  "name_at d =
     (case tokenState d of
        ObjectStart \<Rightarrow> Some (inp d) | ObjectComma \<Rightarrow> expect CHR '','' (inp d) | _ \<Rightarrow> None)"

lemma Token_name:
  assumes "name_at d = Some u" and "lex_string (skip_ws u) = Some (k, r)"
  shows "Token d = Got (Tok (JStr k)) (d\<lparr>inp := r, tokenState := ObjectColon\<rparr>)"
proof -
  obtain t where q: "skip_ws u = quote # t" using assms(2)
    by (cases "skip_ws u") (auto simp: lex_string_def split: if_splits)
  consider "tokenState d = ObjectStart" "u = inp d"
    | "tokenState d = ObjectComma" "skip_ws (inp d) = CHR '','' # u"
    using assms(1) by (auto simp: name_at_def expect_iff split: token_state.splits)
  then show ?thesis
  proof cases
    case 1
    with q assms(2) show ?thesis by (subst Token.simps) simp
  next
    case 2
    with q assms(2) show ?thesis
      by (subst Token.simps, simp, subst Token.simps, simp)
  qed
qed

lemma Token_name_cases:
  assumes "tokenState d = ObjectStart \<or> tokenState d = ObjectComma" and "More d"
    and "Token d = Got t d'"
  obtains u k r where "name_at d = Some u" "lex_string (skip_ws u) = Some (k, r)" "t = Tok (JStr k)"
    "d' = d\<lparr>inp := r, tokenState := ObjectColon\<rparr>"
proof -
  have at: "\<exists>u. name_at d = Some u"
    using assms by (subst (asm) Token.simps)
      (auto simp: More_def name_at_def expect_def value_allowed_def split: list.splits if_splits)
  then obtain u where u: "name_at d = Some u" ..
  have "\<exists>k r. lex_string (skip_ws u) = Some (k, r)"
  proof (cases "tokenState d = ObjectStart")
    case True
    with u assms(2,3) show ?thesis
      by (subst (asm) Token.simps)
         (auto simp: More_def name_at_def value_allowed_def split: list.splits if_splits option.splits)
  next
    case False
    then have c: "tokenState d = ObjectComma" "skip_ws (inp d) = CHR '','' # u"
      using assms(1) u by (auto simp: name_at_def expect_iff)
    have "Token d = Token (d\<lparr>inp := u, tokenState := ObjectKey\<rparr>)"
      using c by (subst Token.simps) simp
    with assms(3) have "Token (d\<lparr>inp := u, tokenState := ObjectKey\<rparr>) = Got t d'" by simp
    then show ?thesis
      by (subst (asm) Token.simps)
         (auto simp: value_allowed_def split: list.splits if_splits option.splits)
  qed
  then obtain k r where "lex_string (skip_ws u) = Some (k, r)" by blast
  then show ?thesis using that [OF u] Token_name [OF u] assms(3) by auto
qed

text \<open>Closing an array or an object once \<open>More\<close> is false.\<close>

abbreviation closed_by :: "decoder \<Rightarrow> bytes \<Rightarrow> decoder" where
  "closed_by d r \<equiv>
     \<lparr>inp = r, tokenState = value_end (hd (tokenStack d)), tokenStack = tl (tokenStack d)\<rparr>"

lemma close_array:
  assumes "tokenState d = ArrayStart \<or> tokenState d = ArrayComma" and "\<not> More d"
  shows "close_token d = Some d' \<longleftrightarrow> (\<exists>r. skip_ws (inp d) = CHR '']'' # r \<and> d' = closed_by d r)"
proof -
  consider "skip_ws (inp d) = []" | r where "skip_ws (inp d) = CHR '']'' # r"
    | r where "skip_ws (inp d) = CHR ''}'' # r"
    using assms(2) by (auto simp: More_def split: list.splits)
  then show ?thesis using assms(1) unfolding close_token_def
    by cases (subst Token.simps; elim disjE; simp; blast)+
qed

lemma close_object:
  assumes "tokenState d = ObjectStart \<or> tokenState d = ObjectComma" and "\<not> More d"
  shows "close_token d = Some d' \<longleftrightarrow> (\<exists>r. skip_ws (inp d) = CHR ''}'' # r \<and> d' = closed_by d r)"
proof -
  consider "skip_ws (inp d) = []" | r where "skip_ws (inp d) = CHR '']'' # r"
    | r where "skip_ws (inp d) = CHR ''}'' # r"
    using assms(2) by (auto simp: More_def split: list.splits)
  then show ?thesis using assms(1) unfolding close_token_def
    by cases (subst Token.simps; elim disjE; simp; blast)+
qed

text \<open>
  \<open>decoder.Decode\<close> into a raw message, or into an interface value that keeps the text of
  numbers, where a value may come: the next value, whatever its
  numbers, within the nesting limit.
\<close>

definition Decode :: "decoder \<Rightarrow> (json \<times> decoder) option" where
  "Decode d =
     (case value_at d of
        None \<Rightarrow> None
      | Some u \<Rightarrow>
          (case json_prefix u of
             None \<Rightarrow> None
           | Some (v, r) \<Rightarrow>
               if within_nesting max_nesting v then Some (v, d\<lparr>inp := r, tokenState := after_value (tokenState d)\<rparr>)
               else None))"

lemma Token_EOF: "Token d = TokEOF \<Longrightarrow> tokenState d = TopValue \<Longrightarrow> skip_ws (inp d) = []"
  by (subst (asm) Token.simps)
     (auto simp: value_allowed_def split: list.splits if_splits option.splits)

lemma EOF_Token: "skip_ws (inp d) = [] \<Longrightarrow> Token d = TokEOF"
  by (subst Token.simps) simp

section \<open>Which documents a duplicate-refusing walk accepts\<close>

fun no_repeats :: "(string list \<Rightarrow> string \<Rightarrow> bool) \<Rightarrow> string list \<Rightarrow> string list \<Rightarrow> bool" where
  "no_repeats rep seen [] = True"
| "no_repeats rep seen (k # ks) = (\<not> rep seen k \<and> no_repeats rep (seen @ [k]) ks)"

text \<open>
  A tree is strict from depth \<open>k\<close> when no value in it is too deep, no object in it repeats a
  member, and every number in it is a \<open>float64\<close>.
\<close>

fun strict :: "(nat \<Rightarrow> bool) \<Rightarrow> (string list \<Rightarrow> string \<Rightarrow> bool) \<Rightarrow> nat \<Rightarrow> json \<Rightarrow> bool" where
  "strict deep rep k (JArr vs) = (\<not> deep k \<and> list_all (strict deep rep (Suc k)) vs)"
| "strict deep rep k (JObj ms) =
     (\<not> deep k \<and> no_repeats rep [] (map fst ms) \<and> list_all (\<lambda>m. strict deep rep (Suc k) (snd m)) ms)"
| "strict deep rep k (JNum t) = (\<not> deep k \<and> float_ok t)"
| "strict deep rep k v = (\<not> deep k)"

lemma strict_scalar:
  "lex_scalar s = Some (v, r) \<Longrightarrow>
     strict deep rep k v \<longleftrightarrow> \<not> deep k \<and> decode_scalar s = Some (v, r)"
  by (cases v)
     (auto simp: decode_scalar_def lex_scalar_def lex_literal_def split: list.splits if_splits)

lemma strict_deep: "strict deep rep k v \<Longrightarrow> \<not> deep k"
  by (cases v) auto

text \<open>What a walk has read when it goes from one decoder state to another.\<close>

definition reads_value ::
  "(nat \<Rightarrow> bool) \<Rightarrow> (string list \<Rightarrow> string \<Rightarrow> bool) \<Rightarrow> nat \<Rightarrow> decoder \<Rightarrow> decoder \<Rightarrow> bool" where
  "reads_value deep rep k d d' \<longleftrightarrow>
     (\<exists>u v r. value_at d = Some u \<and> json_value u v r \<and> strict deep rep k v \<and>
        d' = d\<lparr>inp := r, tokenState := after_value (tokenState d)\<rparr>)"

definition reads_elems ::
  "(nat \<Rightarrow> bool) \<Rightarrow> (string list \<Rightarrow> string \<Rightarrow> bool) \<Rightarrow> nat \<Rightarrow> decoder \<Rightarrow> decoder \<Rightarrow> bool" where
  "reads_elems deep rep k d d' \<longleftrightarrow>
     (\<exists>vs r. (skip_ws (inp d) = CHR '']'' # r \<and> vs = [] \<or> (\<exists>u. value_at d = Some u \<and> json_elems u vs r)) \<and>
        list_all (strict deep rep (Suc k)) vs \<and> d' = closed_by d r)"

definition reads_members ::
  "(nat \<Rightarrow> bool) \<Rightarrow> (string list \<Rightarrow> string \<Rightarrow> bool) \<Rightarrow> nat \<Rightarrow> string list \<Rightarrow> decoder \<Rightarrow> decoder \<Rightarrow> bool" where
  "reads_members deep rep k seen d d' \<longleftrightarrow>
     (\<exists>ms r. (skip_ws (inp d) = CHR ''}'' # r \<and> ms = [] \<or> (\<exists>u. name_at d = Some u \<and> json_members u ms r)) \<and>
        no_repeats rep seen (map fst ms) \<and> list_all (\<lambda>m. strict deep rep (Suc k) (snd m)) ms \<and>
        d' = closed_by d r)"

lemma decoder_update:
  "d\<lparr>inp := t, tokenState := x\<rparr> = \<lparr>inp = t, tokenState = x, tokenStack = tokenStack d\<rparr>"
  by (cases d) simp

lemma reads_scalar:
  assumes "\<not> deep k" and "value_at d = Some u" and "decode_scalar (skip_ws u) = Some (v, r)"
  shows "reads_value deep rep k d (d\<lparr>inp := r, tokenState := after_value (tokenState d)\<rparr>)"
  unfolding reads_value_def using assms scalar decode_scalar_lex strict_scalar by blast

lemma reads_array:
  assumes "\<not> deep k" and st: "tokenState d \<in> {TopValue, ArrayStart, ArrayComma, ObjectColon}"
    and "value_at d = Some u" and "skip_ws u = CHR ''['' # r"
    and e: "reads_elems deep rep k
      \<lparr>inp = r, tokenState = ArrayStart, tokenStack = inner_state (tokenState d) # tokenStack d\<rparr> d'"
  shows "reads_value deep rep k d d'"
proof -
  from e obtain vs t where t: "skip_ws r = CHR '']'' # t \<and> vs = [] \<or> json_elems r vs t"
    "list_all (strict deep rep (Suc k)) vs"
    "d' = d\<lparr>inp := t, tokenState := after_value (tokenState d)\<rparr>"
    by (auto simp: reads_elems_def value_at_def decoder_update value_end_inner [OF st])
  have "json_value u (JArr vs) t" using t(1) assms(4) empty_array array by blast
  with t assms(1,3) show ?thesis unfolding reads_value_def
    by (intro exI [of _ u] exI [of _ "JArr vs"] exI [of _ t]) simp
qed

lemma reads_object:
  assumes "\<not> deep k" and st: "tokenState d \<in> {TopValue, ArrayStart, ArrayComma, ObjectColon}"
    and "value_at d = Some u" and "skip_ws u = CHR ''{'' # r"
    and e: "reads_members deep rep k []
      \<lparr>inp = r, tokenState = ObjectStart, tokenStack = inner_state (tokenState d) # tokenStack d\<rparr> d'"
  shows "reads_value deep rep k d d'"
proof -
  from e obtain ms t where t: "skip_ws r = CHR ''}'' # t \<and> ms = [] \<or> json_members r ms t"
    "no_repeats rep [] (map fst ms)" "list_all (\<lambda>m. strict deep rep (Suc k) (snd m)) ms"
    "d' = d\<lparr>inp := t, tokenState := after_value (tokenState d)\<rparr>"
    by (auto simp: reads_members_def name_at_def decoder_update value_end_inner [OF st])
  have "json_value u (JObj ms) t" using t(1) assms(4) empty_object object by blast
  with t assms(1,3) show ?thesis unfolding reads_value_def
    by (intro exI [of _ u] exI [of _ "JObj ms"] exI [of _ t]) simp
qed

lemma reads_elems_Nil:
  assumes "tokenState d = ArrayStart \<or> tokenState d = ArrayComma" and "\<not> More d"
    and "close_token d = Some d'"
  shows "reads_elems deep rep k d d'"
  using assms close_array [OF assms(1,2)] unfolding reads_elems_def by fastforce

lemma reads_elems_Cons:
  assumes st: "tokenState d = ArrayStart \<or> tokenState d = ArrayComma"
    and v: "reads_value deep rep (Suc k) d d2" and e: "reads_elems deep rep k d2 d'"
  shows "reads_elems deep rep k d d'"
proof -
  from v obtain u v r where u: "value_at d = Some u" "json_value u v r" "strict deep rep (Suc k) v"
    "d2 = d\<lparr>inp := r, tokenState := ArrayComma\<rparr>"
    using st by (auto simp: reads_value_def after_value_def)
  with e obtain vs t where t: "skip_ws r = CHR '']'' # t \<and> vs = [] \<or>
      (\<exists>w. skip_ws r = CHR '','' # w \<and> json_elems w vs t)"
    "list_all (strict deep rep (Suc k)) vs" "d' = closed_by d t"
    by (auto simp: reads_elems_def value_at_def expect_iff)
  have "json_elems u (v # vs) t" using t(1) u(2) last_elem more_elems by blast
  with t u show ?thesis unfolding reads_elems_def by (intro exI [of _ "v # vs"] exI [of _ t]) simp
qed

lemma reads_members_Nil:
  assumes "tokenState d = ObjectStart \<or> tokenState d = ObjectComma" and "\<not> More d"
    and "close_token d = Some d'"
  shows "reads_members deep rep k seen d d'"
  using assms close_object [OF assms(1,2)] unfolding reads_members_def by fastforce

lemma reads_members_Cons:
  assumes n: "name_at d = Some u" "lex_string (skip_ws u) = Some (name, s)" "\<not> rep seen name"
    and v: "reads_value deep rep (Suc k) (d\<lparr>inp := s, tokenState := ObjectColon\<rparr>) d2"
    and e: "reads_members deep rep k (seen @ [name]) d2 d'"
  shows "reads_members deep rep k seen d d'"
proof -
  from v obtain w v r where w: "skip_ws s = CHR '':'' # w" "json_value w v r" "strict deep rep (Suc k) v"
    "d2 = d\<lparr>inp := r, tokenState := ObjectComma\<rparr>"
    by (auto simp: reads_value_def after_value_def value_at_def expect_iff)
  with e obtain ms t where t: "skip_ws r = CHR ''}'' # t \<and> ms = [] \<or>
      (\<exists>x. skip_ws r = CHR '','' # x \<and> json_members x ms t)"
    "no_repeats rep (seen @ [name]) (map fst ms)"
    "list_all (\<lambda>m. strict deep rep (Suc k) (snd m)) ms" "d' = closed_by d t"
    by (auto simp: reads_members_def name_at_def expect_iff)
  have "json_members u ((name, v) # ms) t" using t(1) w n last_member more_members by blast
  with t w n show ?thesis unfolding reads_members_def
    by (intro exI [of _ "(name, v) # ms"] exI [of _ t]) simp
qed

text \<open>
  The laws of such a walk: a value over the depth bound and a token error end it; a scalar is
  taken; an array and an object are read by a loop over \<open>More\<close> and a closing token, and a
  member name the walk has already seen ends it. The first argument is fuel.
\<close>

locale duplicate_walk =
  fixes scan :: "nat \<Rightarrow> nat \<Rightarrow> decoder \<Rightarrow> decoder option"
    and scan_elems :: "nat \<Rightarrow> nat \<Rightarrow> decoder \<Rightarrow> decoder option"
    and scan_members :: "nat \<Rightarrow> nat \<Rightarrow> string list \<Rightarrow> decoder \<Rightarrow> decoder option"
    and deep :: "nat \<Rightarrow> bool"
    and rep :: "string list \<Rightarrow> string \<Rightarrow> bool"
  assumes no_fuel: "scan 0 k d = None" "scan_elems 0 k d = None" "scan_members 0 k seen d = None"
    and too_deep: "deep k \<Longrightarrow> scan (Suc n) k d = None"
    and no_token: "Token d = TokErr \<or> Token d = TokEOF \<Longrightarrow> scan (Suc n) k d = None"
    and take_scalar: "\<not> deep k \<Longrightarrow> Token d = Got (Tok v) d' \<Longrightarrow> scan (Suc n) k d = Some d'"
    and take_array: "\<not> deep k \<Longrightarrow> Token d = Got (Delim CHR ''['') d' \<Longrightarrow>
      scan (Suc n) k d = Option.bind (scan_elems n k d') close_token"
    and take_object: "\<not> deep k \<Longrightarrow> Token d = Got (Delim CHR ''{'') d' \<Longrightarrow>
      scan (Suc n) k d = Option.bind (scan_members n k [] d') close_token"
    and elems_done: "\<not> More d \<Longrightarrow> scan_elems (Suc n) k d = Some d"
    and elems_more: "More d \<Longrightarrow>
      scan_elems (Suc n) k d = Option.bind (scan n (Suc k) d) (scan_elems n k)"
    and members_done: "\<not> More d \<Longrightarrow> scan_members (Suc n) k seen d = Some d"
    and members_more: "More d \<Longrightarrow> Token d = Got (Tok (JStr name)) d' \<Longrightarrow>
      scan_members (Suc n) k seen d =
        (if rep seen name then None
         else Option.bind (scan n (Suc k) d') (scan_members n k (seen @ [name])))"
    and members_bad: "More d \<Longrightarrow> Token d = TokErr \<or> Token d = TokEOF \<Longrightarrow>
      scan_members (Suc n) k seen d = None"
begin

lemma value_step:
  assumes s: "scan (Suc n) k d = Some d'" and a: "asks_value d"
    and elems: "\<And>k d e d'. scan_elems n k d = Some e \<Longrightarrow> tokenState d = ArrayStart \<Longrightarrow>
      close_token e = Some d' \<Longrightarrow> reads_elems deep rep k d d'"
    and members: "\<And>k d e d'. scan_members n k [] d = Some e \<Longrightarrow> tokenState d = ObjectStart \<Longrightarrow>
      close_token e = Some d' \<Longrightarrow> reads_members deep rep k [] d d'"
  shows "reads_value deep rep k d d'"
proof -
  have k: "\<not> deep k" using too_deep s by fastforce
  obtain t d1 where t: "Token d = Got t d1" using no_token s by (cases "Token d") fastforce+
  have st: "tokenState d \<in> {TopValue, ArrayStart, ArrayComma, ObjectColon}"
    using a by (simp add: asks_value_def)
  from a t show ?thesis
  proof (cases rule: Token_asked_cases)
    case (tok u v r)
    then have "d' = d1" using take_scalar [OF k] s t by simp
    with tok reads_scalar [where deep = deep and k = k, OF k] show ?thesis by simp
  next
    case (arr u r)
    with s t take_array [OF k] obtain e where "scan_elems n k d1 = Some e" "close_token e = Some d'"
      by (auto simp: bind_eq_Some_conv)
    with arr elems show ?thesis by (intro reads_array [where deep = deep and k = k, OF k st]) auto
  next
    case (obj u r)
    with s t take_object [OF k] obtain e where "scan_members n k [] d1 = Some e" "close_token e = Some d'"
      by (auto simp: bind_eq_Some_conv)
    with obj members show ?thesis by (intro reads_object [where deep = deep and k = k, OF k st]) auto
  qed
qed

lemma walk_sound:
  "(scan n k d = Some d' \<longrightarrow> asks_value d \<longrightarrow> reads_value deep rep k d d') \<and>
   (scan_elems n k d = Some e \<longrightarrow> tokenState d = ArrayStart \<or> tokenState d = ArrayComma \<longrightarrow>
      close_token e = Some d' \<longrightarrow> reads_elems deep rep k d d') \<and>
   (scan_members n k seen d = Some e \<longrightarrow> tokenState d = ObjectStart \<or> tokenState d = ObjectComma \<longrightarrow>
      close_token e = Some d' \<longrightarrow> reads_members deep rep k seen d d')"
proof (induction n arbitrary: k d e d' seen)
  case 0
  then show ?case by (simp add: no_fuel)
next
  case (Suc n)
  note IHv = Suc [THEN conjunct1, rule_format]
  note IHe = Suc [THEN conjunct2, THEN conjunct1, rule_format]
  note IHm = Suc [THEN conjunct2, THEN conjunct2, rule_format]
  have "reads_value deep rep k d d'" if "scan (Suc n) k d = Some d'" "asks_value d"
    using that IHe IHm by (intro value_step) blast+
  moreover have "reads_elems deep rep k d d'" if s: "scan_elems (Suc n) k d = Some e"
    and st: "tokenState d = ArrayStart \<or> tokenState d = ArrayComma" and c: "close_token e = Some d'"
  proof (cases "More d")
    case False
    then show ?thesis using elems_done s reads_elems_Nil [OF st False] c by simp
  next
    case True
    with s obtain d2 where d2: "scan n (Suc k) d = Some d2" "scan_elems n k d2 = Some e"
      by (auto simp: elems_more bind_eq_Some_conv)
    have "asks_value d" using st True by (auto simp: asks_value_def)
    with d2(1) IHv have v: "reads_value deep rep (Suc k) d d2" by blast
    then have "tokenState d2 = ArrayComma" using st by (auto simp: reads_value_def after_value_def)
    then show ?thesis using reads_elems_Cons [OF st v] IHe [OF d2(2) _ c] by blast
  qed
  moreover have "reads_members deep rep k seen d d'" if s: "scan_members (Suc n) k seen d = Some e"
    and st: "tokenState d = ObjectStart \<or> tokenState d = ObjectComma" and c: "close_token e = Some d'"
  proof (cases "More d")
    case False
    then show ?thesis using members_done s reads_members_Nil [OF st False] c by simp
  next
    case True
    obtain t d1 where t: "Token d = Got t d1" using members_bad [OF True] s by (cases "Token d") fastforce+
    obtain u name r where u: "name_at d = Some u" "lex_string (skip_ws u) = Some (name, r)"
      "t = Tok (JStr name)" "d1 = d\<lparr>inp := r, tokenState := ObjectColon\<rparr>"
      by (rule Token_name_cases [OF st True t])
    with s members_more [OF True] t obtain d2 where d2: "\<not> rep seen name" "scan n (Suc k) d1 = Some d2"
      "scan_members n k (seen @ [name]) d2 = Some e"
      by (auto simp: bind_eq_Some_conv split: if_splits)
    have "asks_value d1" using u by (auto simp: asks_value_def)
    with d2(2) IHv have v: "reads_value deep rep (Suc k) d1 d2" by blast
    then have "tokenState d2 = ObjectComma" using u(4) by (auto simp: reads_value_def after_value_def)
    then have "reads_members deep rep k (seen @ [name]) d2 d'" using IHm [OF d2(3) _ c] by blast
    with reads_members_Cons [where rep = rep and seen = seen, OF u(1,2) d2(1)] v u(4) show ?thesis by blast
  qed
  ultimately show ?case by blast
qed

text \<open>Progress: on the text of a strict value each loop of the walk takes its next step.\<close>

lemma value_More:
  assumes "value_at d = Some u" and "json_value u v r"
  shows "More d"
  using assms(1) value_head(1) [OF assms(2)]
  by (auto simp: value_at_def More_def expect_iff split: token_state.splits)

lemma name_More:
  assumes "name_at d = Some u" and "lex_string (skip_ws u) = Some (k, r)"
  shows "More d"
  using assms
  by (auto simp: name_at_def More_def expect_iff lex_string_def split: token_state.splits list.splits if_splits)

lemma not_More: "skip_ws (inp d) = CHR '']'' # r \<or> skip_ws (inp d) = CHR ''}'' # r \<Longrightarrow> \<not> More d"
  by (auto simp: More_def)

lemma elems_close:
  assumes "tokenState d = ArrayComma" and "skip_ws (inp d) = CHR '']'' # r" and "0 < n"
  shows "Option.bind (scan_elems n k d) close_token = Some (closed_by d r)"
  using assms close_array [of d] elems_done [of d] not_More [of d r] by (cases n) auto

lemma members_close:
  assumes "tokenState d = ObjectComma" and "skip_ws (inp d) = CHR ''}'' # r" and "0 < n"
  shows "Option.bind (scan_members n k seen d) close_token = Some (closed_by d r)"
  using assms close_object [of d] members_done [of d] not_More [of d r] by (cases n) auto

lemma empty_walk:
  "skip_ws (inp d) = CHR '']'' # r \<Longrightarrow> tokenState d = ArrayStart \<Longrightarrow> 0 < n \<Longrightarrow>
     Option.bind (scan_elems n k d) close_token = Some (closed_by d r)"
  "skip_ws (inp d) = CHR ''}'' # r \<Longrightarrow> tokenState d = ObjectStart \<Longrightarrow> 0 < n \<Longrightarrow>
     Option.bind (scan_members n k seen d) close_token = Some (closed_by d r)"
  using close_array [of d] close_object [of d] elems_done [of d] members_done [of d] not_More [of d r]
  by (cases n; auto)+

lemma array_walk:
  assumes "\<not> deep k" and "value_at d = Some u" and "skip_ws u = CHR ''['' # t"
    and "\<And>d. inp d = t \<Longrightarrow> tokenState d = ArrayStart \<Longrightarrow>
      Option.bind (scan_elems n k d) close_token = Some (closed_by d r)"
  shows "scan (Suc n) k d = Some (d\<lparr>inp := r, tokenState := after_value (tokenState d)\<rparr>)"
proof -
  have st: "tokenState d \<in> {TopValue, ArrayStart, ArrayComma, ObjectColon}"
    using assms(2) by (auto simp: value_at_def split: token_state.splits)
  show ?thesis using Token_open [OF assms(2,3)] take_array [OF assms(1)] assms(4)
    by (simp add: decoder_update value_end_inner [OF st])
qed

lemma object_walk:
  assumes "\<not> deep k" and "value_at d = Some u" and "skip_ws u = CHR ''{'' # t"
    and "\<And>d. inp d = t \<Longrightarrow> tokenState d = ObjectStart \<Longrightarrow>
      Option.bind (scan_members n k [] d) close_token = Some (closed_by d r)"
  shows "scan (Suc n) k d = Some (d\<lparr>inp := r, tokenState := after_value (tokenState d)\<rparr>)"
proof -
  have st: "tokenState d \<in> {TopValue, ArrayStart, ArrayComma, ObjectColon}"
    using assms(2) by (auto simp: value_at_def split: token_state.splits)
  show ?thesis using Token_open [OF assms(2,3)] take_object [OF assms(1)] assms(4)
    by (simp add: decoder_update value_end_inner [OF st])
qed

lemma elem_walk:
  assumes "json_value u v t" and "value_at d = Some u"
    and "tokenState d = ArrayStart \<or> tokenState d = ArrayComma"
    and "scan n (Suc k) d = Some (d\<lparr>inp := t, tokenState := after_value (tokenState d)\<rparr>)"
  shows "scan_elems (Suc n) k d = scan_elems n k (d\<lparr>inp := t, tokenState := ArrayComma\<rparr>)"
  using assms elems_more [OF value_More [OF assms(2,1)]] by (auto simp: after_value_def)

lemma member_walk:
  assumes "name_at d = Some s" and "lex_string (skip_ws s) = Some (name, t)" and "\<not> rep seen name"
    and "skip_ws t = CHR '':'' # u"
    and "\<And>d. value_at d = Some u \<Longrightarrow>
      scan n (Suc k) d = Some (d\<lparr>inp := w, tokenState := after_value (tokenState d)\<rparr>)"
  shows "scan_members (Suc n) k seen d =
    scan_members n k (seen @ [name]) (d\<lparr>inp := w, tokenState := ObjectComma\<rparr>)"
  using assms(3,4) assms(5) [of "d\<lparr>inp := t, tokenState := ObjectColon\<rparr>"]
    members_more [OF name_More [OF assms(1,2)] Token_name [OF assms(1,2)]]
  by (simp add: value_at_def expect_iff after_value_def)

lemma walk_complete:
  "json_value u v r \<Longrightarrow> \<forall>n k d. value_at d = Some u \<longrightarrow> strict deep rep k v \<longrightarrow> 2 * length u < n \<longrightarrow>
     scan n k d = Some (d\<lparr>inp := r, tokenState := after_value (tokenState d)\<rparr>)"
  "json_elems u vs r \<Longrightarrow> \<forall>n k d. value_at d = Some u \<longrightarrow>
     tokenState d = ArrayStart \<or> tokenState d = ArrayComma \<longrightarrow>
     list_all (strict deep rep (Suc k)) vs \<longrightarrow> 2 * length u + 1 < n \<longrightarrow>
     Option.bind (scan_elems n k d) close_token = Some (closed_by d r)"
  "json_members u ms r \<Longrightarrow> \<forall>n k d seen. name_at d = Some u \<longrightarrow> no_repeats rep seen (map fst ms) \<longrightarrow>
     list_all (\<lambda>m. strict deep rep (Suc k) (snd m)) ms \<longrightarrow> 2 * length u + 1 < n \<longrightarrow>
     Option.bind (scan_members n k seen d) close_token = Some (closed_by d r)"
proof (induction rule: json_value_json_elems_json_members.inducts)
  case (scalar s v r)
  show ?case
  proof (intro allI impI)
    fix n k d assume "value_at d = Some s" "strict deep rep k v" "2 * length s < n"
    then show "scan n k d = Some (d\<lparr>inp := r, tokenState := after_value (tokenState d)\<rparr>)"
      using scalar strict_scalar [OF scalar, of deep rep k] Token_scalar take_scalar by (cases n) auto
  qed
next
  case (empty_array s t r)
  show ?case
  proof (intro allI impI)
    fix n k d assume a: "value_at d = Some s" "strict deep rep k (JArr [])" "2 * length s < n"
    with skip_ws_cons_shorter [OF empty_array(1)] obtain m where "n = Suc (Suc m)"
      by (cases n; cases "n - 1") auto
    then show "scan n k d = Some (d\<lparr>inp := r, tokenState := after_value (tokenState d)\<rparr>)"
      using a empty_array empty_walk(1) by (auto intro!: array_walk)
  qed
next
  case (array s t vs r)
  show ?case
  proof (intro allI impI)
    fix n k d assume a: "value_at d = Some s" "strict deep rep k (JArr vs)" "2 * length s < n"
    then obtain m where "n = Suc m" by (cases n) auto
    then show "scan n k d = Some (d\<lparr>inp := r, tokenState := after_value (tokenState d)\<rparr>)"
      using a array skip_ws_cons_shorter [OF array(1)]
      by (auto intro!: array_walk simp: value_at_def)
  qed
next
  case (empty_object s t r)
  show ?case
  proof (intro allI impI)
    fix n k d assume a: "value_at d = Some s" "strict deep rep k (JObj [])" "2 * length s < n"
    with skip_ws_cons_shorter [OF empty_object(1)] obtain m where "n = Suc (Suc m)"
      by (cases n; cases "n - 1") auto
    then show "scan n k d = Some (d\<lparr>inp := r, tokenState := after_value (tokenState d)\<rparr>)"
      using a empty_object empty_walk(2) by (auto intro!: object_walk)
  qed
next
  case (object s t ms r)
  show ?case
  proof (intro allI impI)
    fix n k d assume a: "value_at d = Some s" "strict deep rep k (JObj ms)" "2 * length s < n"
    then obtain m where "n = Suc m" by (cases n) auto
    then show "scan n k d = Some (d\<lparr>inp := r, tokenState := after_value (tokenState d)\<rparr>)"
      using a object skip_ws_cons_shorter [OF object(1)]
      by (auto intro!: object_walk simp: name_at_def)
  qed
next
  case (last_elem s v t r)
  show ?case
  proof (intro allI impI)
    fix n k d assume a: "value_at d = Some s" "tokenState d = ArrayStart \<or> tokenState d = ArrayComma"
      "list_all (strict deep rep (Suc k)) [v]" "2 * length s + 1 < n"
    then obtain m where m: "n = Suc m" "0 < m" "2 * length s < m" by (cases n) auto
    with a last_elem have "scan_elems n k d = scan_elems m k (d\<lparr>inp := t, tokenState := ArrayComma\<rparr>)"
      by (auto intro!: elem_walk)
    with elems_close last_elem(2) m(2) show "Option.bind (scan_elems n k d) close_token = Some (closed_by d r)"
      by simp
  qed
next
  case (more_elems s v t u vs r)
  have u: "length u < length s"
    using grammar_shorter(1) [OF more_elems(1)] skip_ws_cons_shorter [OF more_elems(2)] by simp
  show ?case
  proof (intro allI impI)
    fix n k d assume a: "value_at d = Some s" "tokenState d = ArrayStart \<or> tokenState d = ArrayComma"
      "list_all (strict deep rep (Suc k)) (v # vs)" "2 * length s + 1 < n"
    then obtain m where m: "n = Suc m" "2 * length s < m" by (cases n) auto
    with a more_elems have "scan_elems n k d = scan_elems m k (d\<lparr>inp := t, tokenState := ArrayComma\<rparr>)"
      by (auto intro!: elem_walk)
    moreover have "2 * length u + 1 < m" using m u by simp
    ultimately show "Option.bind (scan_elems n k d) close_token = Some (closed_by d r)"
      using a more_elems(2,5) by (simp add: value_at_def expect_iff)
  qed
next
  case (last_member s name t u v w r)
  have u: "length u < length s" using last_member(1,2) lex_string_shorter skip_ws_shorter [of s]
    skip_ws_cons_shorter by (metis order.strict_trans order.strict_trans2)
  show ?case
  proof (intro allI impI)
    fix n k d seen assume a: "name_at d = Some s" "no_repeats rep seen (map fst [(name, v)])"
      "list_all (\<lambda>m. strict deep rep (Suc k) (snd m)) [(name, v)]" "2 * length s + 1 < n"
    then obtain m where m: "n = Suc m" "0 < m" "2 * length u < m" using u by (cases n) auto
    with a last_member have "scan_members n k seen d =
        scan_members m k (seen @ [name]) (d\<lparr>inp := w, tokenState := ObjectComma\<rparr>)"
      by (auto intro!: member_walk)
    with members_close last_member(4) m(2)
    show "Option.bind (scan_members n k seen d) close_token = Some (closed_by d r)" by simp
  qed
next
  case (more_members s name t u v w x ms r)
  have u: "length u < length s" using more_members(1,2) lex_string_shorter skip_ws_shorter [of s]
    skip_ws_cons_shorter by (metis order.strict_trans order.strict_trans2)
  then have x: "length x < length s"
    using grammar_shorter(1) [OF more_members(3)] skip_ws_cons_shorter [OF more_members(4)] by simp
  show ?case
  proof (intro allI impI)
    fix n k d seen assume a: "name_at d = Some s" "no_repeats rep seen (map fst ((name, v) # ms))"
      "list_all (\<lambda>m. strict deep rep (Suc k) (snd m)) ((name, v) # ms)" "2 * length s + 1 < n"
    then obtain m where m: "n = Suc m" "2 * length u < m" "2 * length x + 1 < m" using u x by (cases n) auto
    with a more_members have "scan_members n k seen d =
        scan_members m k (seen @ [name]) (d\<lparr>inp := w, tokenState := ObjectComma\<rparr>)"
      by (auto intro!: member_walk)
    with a m more_members(4,7) show "Option.bind (scan_members n k seen d) close_token = Some (closed_by d r)"
      by (simp add: name_at_def expect_iff)
  qed
qed

text \<open>
  A document is accepted, with nothing but white space after it, exactly when it is a text of
  a strict tree.
\<close>

lemma accepts_iff:
  assumes "2 * length s < n"
  shows "(\<exists>d. scan n 0 (NewDecoder s) = Some d \<and> Token d = TokEOF) \<longleftrightarrow>
    (\<exists>v. json_text s v \<and> strict deep rep 0 v)"
proof
  assume "\<exists>d. scan n 0 (NewDecoder s) = Some d \<and> Token d = TokEOF"
  then obtain d where d: "scan n 0 (NewDecoder s) = Some d" "Token d = TokEOF" by blast
  have "asks_value (NewDecoder s)" by (simp add: asks_value_def NewDecoder_def)
  with d(1) walk_sound have "reads_value deep rep 0 (NewDecoder s) d" by blast
  then obtain v where "json_value s v (inp d)" "strict deep rep 0 v" "tokenState d = TopValue"
    by (auto simp: reads_value_def NewDecoder_def value_at_def after_value_def)
  then show "\<exists>v. json_text s v \<and> strict deep rep 0 v" using Token_EOF d(2) json_text_def by blast
next
  assume "\<exists>v. json_text s v \<and> strict deep rep 0 v"
  then obtain v r where v: "json_value s v r" "skip_ws r = []" "strict deep rep 0 v"
    by (auto simp: json_text_def)
  have "value_at (NewDecoder s) = Some s" by (simp add: NewDecoder_def value_at_def)
  with walk_complete(1) [OF v(1)] v(3) assms have "scan n 0 (NewDecoder s) = Some ((NewDecoder s)\<lparr>inp := r,
    tokenState := after_value (tokenState (NewDecoder s))\<rparr>)" by blast
  then show "\<exists>d. scan n 0 (NewDecoder s) = Some d \<and> Token d = TokEOF" using v(2) EOF_Token by simp
qed

end

end
