(* ===== verification/Go_Time.thy ===== *)
theory Go_Time
  imports Go_Decoder
begin

text \<open>
  What the sources use of \<open>strconv.ParseInt\<close> and \<open>time.Parse(time.RFC3339Nano, s)\<close>.
  Both are called on text a pattern has already admitted, so the fields of a timestamp are
  at fixed positions; the parser still refuses a day the month does not have.
\<close>

section \<open>Decimal integers\<close>

text \<open>\<open>strconv.ParseInt(s, 10, 64)\<close> on a non-empty string of digits.\<close>

definition ParseInt64 :: "string \<Rightarrow> int option" where
  "ParseInt64 ds = (let n = dec_value ds in if n < 2 ^ 63 then Some n else None)"

text \<open>\<open>strconv.ParseInt(s, 10, 64)\<close>: an optional sign and digits, in the range of \<open>int64\<close>.\<close>

definition ParseInt10 :: "string \<Rightarrow> int option" where
  "ParseInt10 s =
     (let neg = (s \<noteq> [] \<and> hd s = CHR ''-'');
          ds = (if s \<noteq> [] \<and> (hd s = CHR ''-'' \<or> hd s = CHR ''+'') then tl s else s)
      in if ds = [] \<or> \<not> list_all is_digit ds then None
         else
           (let n = dec_value ds in
            if \<not> neg \<and> n \<ge> 2 ^ 63 then None
            else if neg \<and> n > 2 ^ 63 then None
            else Some (if neg then - n else n)))"

text \<open>\<open>strconv.Itoa\<close>.\<close>

fun decimal :: "nat \<Rightarrow> string" where
  "decimal n = (if n < 10 then [chr (48 + n)] else decimal (n div 10) @ [chr (48 + n mod 10)])"

declare decimal.simps [simp del]

definition Itoa :: "int \<Rightarrow> string" where
  "Itoa n = (if n < 0 then CHR ''-'' # decimal (nat (- n)) else decimal (nat n))"

lemma dec_value_snoc: "dec_value (ds @ [c]) = 10 * dec_value ds + int (digit_val c)"
  by (simp add: dec_value_def)

lemma dec_value_append: "dec_value (xs @ ys) = dec_value xs * 10 ^ length ys + dec_value ys"
proof (induction ys rule: rev_induct)
  case Nil
  then show ?case by (simp add: dec_value_def)
next
  case (snoc c ys)
  have "dec_value (xs @ ys @ [c]) = 10 * dec_value (xs @ ys) + int (digit_val c)"
    using dec_value_snoc [of "xs @ ys" c] by simp
  then show ?case using snoc by (simp add: dec_value_snoc algebra_simps)
qed

lemma dec_value_nonneg: "0 \<le> dec_value ds"
  by (induction ds rule: rev_induct) (simp_all add: dec_value_snoc, simp add: dec_value_def)

lemma digit_val_le: "is_digit c \<Longrightarrow> digit_val c \<le> 9"
  by (auto simp: is_digit_def digit_val_def less_eq_char_def)

lemma dec_value_bound: "list_all is_digit ds \<Longrightarrow> dec_value ds < 10 ^ length ds"
proof (induction ds rule: rev_induct)
  case Nil
  then show ?case by (simp add: dec_value_def)
next
  case (snoc c ds)
  then have "dec_value ds < 10 ^ length ds" "digit_val c \<le> 9" using digit_val_le by auto
  then show ?case by (simp add: dec_value_snoc)
qed

section \<open>Calendar dates\<close>

definition leap_year :: "int \<Rightarrow> bool" where
  "leap_year y = (y mod 4 = 0 \<and> (y mod 100 \<noteq> 0 \<or> y mod 400 = 0))"

definition days_in_month :: "int \<Rightarrow> int \<Rightarrow> int" where
  "days_in_month y m =
     (if m = 2 then (if leap_year y then 29 else 28)
      else if m \<in> {4, 6, 9, 11} then 30 else 31)"

definition days_before_year :: "int \<Rightarrow> int" where
  "days_before_year y = 365 * (y - 1) + (y - 1) div 4 - (y - 1) div 100 + (y - 1) div 400"

definition days_before_month :: "int \<Rightarrow> int \<Rightarrow> int" where
  "days_before_month y m = sum_list (map (\<lambda>i. days_in_month y (int i)) [1..<nat m])"

text \<open>Days since January 1, 1970, of a date of the proleptic Gregorian calendar.\<close>

definition civil_days :: "int \<Rightarrow> int \<Rightarrow> int \<Rightarrow> int" where
  "civil_days y m d = days_before_year y + days_before_month y m + (d - 1) - 719162"

definition Date_UTC :: "int \<Rightarrow> int \<Rightarrow> int \<Rightarrow> int \<Rightarrow> int \<Rightarrow> int \<Rightarrow> int \<Rightarrow> instant" where
  "Date_UTC y mo d h mi s ns =
     (((civil_days y mo d * 24 + h) * 60 + mi) * 60 + s) * second + ns"

text \<open>The year-1 origin is the zero \<open>time.Time\<close>.\<close>

lemma Date_UTC_zero: "Date_UTC 1 1 1 0 0 0 0 = zero_time"
  by (simp add: Date_UTC_def civil_days_def days_before_year_def days_before_month_def zero_time_def)

definition field :: "nat \<Rightarrow> nat \<Rightarrow> string \<Rightarrow> int" where
  "field i n s = dec_value (take n (drop i s))"

text \<open>The fraction of a second as nanoseconds: at most nine digits after the dot.\<close>

definition frac_digits :: "string \<Rightarrow> string" where
  "frac_digits s =
     (case drop 19 s of [] \<Rightarrow> [] | c # r \<Rightarrow> if c = CHR ''.'' then takeWhile is_digit r else [])"

definition frac_nanos :: "string \<Rightarrow> int" where
  "frac_nanos ds = dec_value ds * 10 ^ (9 - length ds)"

text \<open>The offset of the zone in seconds: \<open>Z\<close>, or a sign, hours and minutes.\<close>

definition zone_offset :: "string \<Rightarrow> int" where
  "zone_offset z =
     (if z = ''Z'' then 0
      else (if take 1 z = ''-'' then -1 else 1) * (field 1 2 z * 3600 + field 4 2 z * 60))"

definition parse_rfc3339 :: "string \<Rightarrow> instant option" where
  "parse_rfc3339 s =
     (let y = field 0 4 s; mo = field 5 2 s; d = field 8 2 s;
          h = field 11 2 s; mi = field 14 2 s; sec = field 17 2 s;
          fr = frac_digits s;
          z = drop (19 + (if fr = [] then 0 else 1 + length fr)) s
      in if mo < 1 \<or> 12 < mo \<or> d < 1 \<or> days_in_month y mo < d \<or> 24 \<le> h \<or> 60 \<le> mi \<or> 60 \<le> sec
         then None
         else Some (Date_UTC y mo d h mi sec (frac_nanos fr) - zone_offset z * second))"

lemma frac_nanos_bound:
  assumes "list_all is_digit ds" and "length ds \<le> 9"
  shows "0 \<le> frac_nanos ds \<and> frac_nanos ds < second"
proof -
  have "dec_value ds * 10 ^ (9 - length ds) < 10 ^ length ds * 10 ^ (9 - length ds)"
    using dec_value_bound [OF assms(1)] by simp
  also have "\<dots> = 10 ^ 9" using assms(2) by (simp flip: power_add)
  finally show ?thesis using dec_value_nonneg by (simp add: frac_nanos_def second_def)
qed

end
