(* ===== verification/Pep_Strict.thy ===== *)
theory Pep_Strict
  imports Go_Time Regex
begin

text \<open>
  pep/strict.go: the refusal of ambiguous JSON documents, integer tokens and expiry
  timestamps. \<open>walk\<close> is the recursive token walk with its two loops; its fuel is twice
  the length of the document, which is enough by the law of the walk.
\<close>

section \<open>Repeated members\<close>

definition maxDepth :: nat where
  "maxDepth = 16"

text \<open>\<open>None\<close> is \<open>errStrict\<close>. \<open>seen\<close> holds the names of the enclosing object.\<close>

fun walk :: "nat \<Rightarrow> nat \<Rightarrow> decoder \<Rightarrow> decoder option"
  and walk_array :: "nat \<Rightarrow> nat \<Rightarrow> decoder \<Rightarrow> decoder option"
  and walk_object :: "nat \<Rightarrow> nat \<Rightarrow> string list \<Rightarrow> decoder \<Rightarrow> decoder option" where
  "walk 0 depth dec = None"
| "walk (Suc n) depth dec =
     (if depth > maxDepth then None
      else
        (case Token dec of
           Got (Delim c) dec' \<Rightarrow>
             (if c = CHR ''{'' then Option.bind (walk_object n depth [] dec') close_token
              else if c = CHR ''['' then Option.bind (walk_array n depth dec') close_token
              else close_token dec')
         | Got (Tok v) dec' \<Rightarrow> Some dec'
         | _ \<Rightarrow> None))"
| "walk_array 0 depth dec = None"
| "walk_array (Suc n) depth dec =
     (if More dec
      then (case walk n (depth + 1) dec of None \<Rightarrow> None | Some dec' \<Rightarrow> walk_array n depth dec')
      else Some dec)"
| "walk_object 0 depth seen dec = None"
| "walk_object (Suc n) depth seen dec =
     (if More dec
      then
        (case Token dec of
           Got (Tok (JStr key)) dec' \<Rightarrow>
             (if key \<in> set seen then None
              else (case walk n (depth + 1) dec' of
                      None \<Rightarrow> None
                    | Some dec'' \<Rightarrow> walk_object n depth (seen @ [key]) dec''))
         | _ \<Rightarrow> None)
      else Some dec)"

definition rejectDuplicates :: "bytes \<Rightarrow> bool" where
  "rejectDuplicates body =
     (case walk (2 * length body + 1) 0 (NewDecoder body) of
        None \<Rightarrow> True
      | Some dec \<Rightarrow> Token dec \<noteq> TokEOF)"

section \<open>Integer tokens\<close>

definition integerToken :: re where
  "integerToken =
     RAlt (lit CHR ''0'')
       (RSeq (RCls [crange CHR ''1'' CHR ''9'']) (r_star (RCls [crange CHR ''0'' CHR ''9''])))"

definition parseRevision :: "bytes \<Rightarrow> u64 option" where
  "parseRevision raw =
     (if \<not> matches integerToken raw then None
      else (case ParseInt64 raw of None \<Rightarrow> None | Some n \<Rightarrow> Some (word_of_int n)))"

section \<open>Expiry\<close>

abbreviation cls :: "char \<Rightarrow> char \<Rightarrow> re" where
  "cls a b \<equiv> RCls [crange a b]"

definition year_re :: re where
  "year_re =
     (let d = cls CHR ''0'' CHR ''9''; e = cls CHR ''1'' CHR ''9'' in
      alts [seqs [r_times d 3, e], seqs [r_times d 2, e, d], seqs [d, e, r_times d 2],
            seqs [e, r_times d 3]])"

definition hour_re :: re where
  "hour_re =
     alts [seqs [cls CHR ''0'' CHR ''1'', cls CHR ''0'' CHR ''9''],
           seqs [lit CHR ''2'', cls CHR ''0'' CHR ''3'']]"

definition expiresAtPattern :: re where
  "expiresAtPattern =
     (let d = cls CHR ''0'' CHR ''9''; sixty = seqs [cls CHR ''0'' CHR ''5'', d] in
      seqs
       [year_re, lit CHR ''-'',
        alts [seqs [lit CHR ''0'', cls CHR ''1'' CHR ''9''], seqs [lit CHR ''1'', cls CHR ''0'' CHR ''2'']],
        lit CHR ''-'',
        alts [seqs [lit CHR ''0'', cls CHR ''1'' CHR ''9''], seqs [cls CHR ''1'' CHR ''2'', d],
              seqs [lit CHR ''3'', cls CHR ''0'' CHR ''1'']],
        lit CHR ''T'', hour_re, lit CHR '':'', sixty, lit CHR '':'', sixty,
        r_opt (RSeq (lit CHR ''.'') (r_reps d 1 6)),
        alts [lit CHR ''Z'',
              seqs [RCls [cone CHR ''+'', cone CHR ''-''],
                    alts [seqs [lit CHR ''0'', d], seqs [lit CHR ''1'', d],
                          seqs [lit CHR ''2'', cls CHR ''0'' CHR ''3'']],
                    lit CHR '':'', sixty]]])"

definition minInstant :: instant where
  "minInstant = Date_UTC 1 1 1 0 0 0 0"

definition maxInstant :: instant where
  "maxInstant = Date_UTC 9999 12 31 23 59 59 999999999"

definition parseExpiry :: "string \<Rightarrow> instant option" where
  "parseExpiry s =
     (if \<not> matches expiresAtPattern s then None
      else
        (case parse_rfc3339 s of
           None \<Rightarrow> None
         | Some t \<Rightarrow> if t < minInstant \<or> maxInstant < t then None else Some t))"

section \<open>What the walk accepts\<close>

interpretation pep_walk: duplicate_walk walk walk_array walk_object
  "\<lambda>depth. depth > maxDepth" "\<lambda>seen key. key \<in> set seen"
  by unfold_locales (auto split: option.splits bind_splits)

definition pep_strict :: "json \<Rightarrow> bool" where
  "pep_strict v = strict (\<lambda>depth. depth > maxDepth) (\<lambda>seen key. key \<in> set seen) 0 v"

lemma accepted_iff: "\<not> rejectDuplicates body \<longleftrightarrow> (\<exists>v. json_text body v \<and> pep_strict v)"
proof -
  have "\<not> rejectDuplicates body \<longleftrightarrow>
      (\<exists>d. walk (2 * length body + 1) 0 (NewDecoder body) = Some d \<and> Token d = TokEOF)"
    by (auto simp: rejectDuplicates_def split: option.splits)
  then show ?thesis using pep_walk.accepts_iff [of body "2 * length body + 1"] by (simp add: pep_strict_def)
qed

text \<open>
  The tree-level reading of that condition: every object has distinct member names, every
  number is a finite \<open>float64\<close>, and no value is nested more than \<open>maxDepth\<close> deep.
\<close>

fun unambiguous :: "json \<Rightarrow> bool" where
  "unambiguous (JArr vs) = list_all unambiguous vs"
| "unambiguous (JObj ms) = (distinct (map fst ms) \<and> list_all (\<lambda>m. unambiguous (snd m)) ms)"
| "unambiguous (JNum t) = float_ok t"
| "unambiguous v = True"

fun nested_within :: "nat \<Rightarrow> json \<Rightarrow> bool" where
  "nested_within n (JArr vs) = list_all (\<lambda>v. 0 < n \<and> nested_within (n - 1) v) vs"
| "nested_within n (JObj ms) = list_all (\<lambda>m. 0 < n \<and> nested_within (n - 1) (snd m)) ms"
| "nested_within n v = True"

lemma no_repeats_distinct:
  "no_repeats (\<lambda>seen key. key \<in> set seen) seen ks \<longleftrightarrow> distinct ks \<and> set ks \<inter> set seen = {}"
  by (induction ks arbitrary: seen) auto

lemma strict_unambiguous:
  "strict (\<lambda>depth. depth > m) (\<lambda>seen key. key \<in> set seen) k v \<longleftrightarrow>
     k \<le> m \<and> unambiguous v \<and> nested_within (m - k) v"
proof (induction "\<lambda>depth. depth > m" "\<lambda>(seen :: string list) key. key \<in> set seen" k v rule: strict.induct)
  case (1 k vs)
  show ?case
  proof (cases "k < m")
    case True
    then show ?thesis using 1 by (auto simp: list_all_iff)
  next
    case False
    then show ?thesis using 1 by (cases vs) (auto simp: list_all_iff)
  qed
next
  case (2 k ms)
  show ?case
  proof (cases "k < m")
    case True
    then show ?thesis using 2 by (auto simp: list_all_iff no_repeats_distinct)
  next
    case False
    then show ?thesis using 2 by (cases ms) (auto simp: list_all_iff no_repeats_distinct)
  qed
qed auto

lemma pep_strict_iff: "pep_strict v \<longleftrightarrow> unambiguous v \<and> nested_within maxDepth v"
  by (simp add: pep_strict_def strict_unambiguous)

section \<open>Integer tokens are the canonical decimals below \<open>2^63\<close>\<close>

lemma is_digit_chr: "n < 10 \<Longrightarrow> is_digit (chr (48 + n)) \<and> digit_val (chr (48 + n)) = n"
  by (simp add: is_digit_def digit_val_def less_eq_char_def)

lemma dec_value_decimal: "dec_value (decimal n) = int n"
proof (induction n rule: decimal.induct)
  case (1 n)
  then show ?case
    by (subst decimal.simps) (auto simp: dec_value_snoc is_digit_chr dec_value_def zdiv_int zmod_int)
qed

lemma decimal_digits: "list_all is_digit (decimal n)"
proof (induction n rule: decimal.induct)
  case (1 n)
  then show ?case by (subst decimal.simps) (auto simp: is_digit_chr)
qed

definition canonical :: "string \<Rightarrow> bool" where
  "canonical s = (s \<noteq> [] \<and> list_all is_digit s \<and> (length s = 1 \<or> hd s \<noteq> CHR ''0''))"

lemma chr_digit: "is_digit c \<Longrightarrow> chr (48 + digit_val c) = c"
  by (auto simp: is_digit_def digit_val_def less_eq_char_def)

lemma digit_val_0: "is_digit c \<Longrightarrow> digit_val c = 0 \<longleftrightarrow> c = CHR ''0''"
  using byte_inject [of c "CHR ''0''"] by (auto simp: is_digit_def digit_val_def less_eq_char_def)

lemma canonical_pos: "canonical s \<Longrightarrow> hd s \<noteq> CHR ''0'' \<Longrightarrow> 0 < dec_value s"
proof (induction s rule: rev_induct)
  case Nil
  then show ?case by (simp add: canonical_def)
next
  case (snoc c s)
  show ?case
  proof (cases "s = []")
    case True
    then show ?thesis using snoc.prems digit_val_0 [of c] by (simp add: canonical_def dec_value_def)
  next
    case False
    then have "0 < dec_value s" using snoc by (auto simp: canonical_def)
    then show ?thesis by (simp add: dec_value_snoc)
  qed
qed

lemma decimal_dec_value: "canonical s \<Longrightarrow> decimal (nat (dec_value s)) = s"
proof (induction s rule: rev_induct)
  case Nil
  then show ?case by (simp add: canonical_def)
next
  case (snoc c s)
  have c: "is_digit c" "digit_val c \<le> 9" using snoc.prems digit_val_le by (auto simp: canonical_def)
  show ?case
  proof (cases "s = []")
    case True
    then show ?thesis using c by (subst decimal.simps) (simp add: dec_value_def chr_digit)
  next
    case False
    then have "canonical s" "hd s \<noteq> CHR ''0''" using snoc.prems by (auto simp: canonical_def)
    then have s: "0 < dec_value s" "decimal (nat (dec_value s)) = s" using canonical_pos snoc.IH by auto
    have n: "nat (dec_value (s @ [c])) = 10 * nat (dec_value s) + digit_val c"
      using s(1) by (simp add: dec_value_snoc nat_add_distrib nat_mult_distrib)
    show ?thesis using c s unfolding n by (subst decimal.simps) (auto simp: chr_digit)
  qed
qed

lemma decimal_canonical: "canonical (decimal n)"
proof (induction n rule: decimal.induct)
  case (1 n)
  show ?case
  proof (cases "n < 10")
    case True
    then show ?thesis by (subst decimal.simps) (simp add: canonical_def is_digit_chr)
  next
    case False
    then have "canonical (decimal (n div 10))" using 1 by simp
    moreover have "hd (decimal (n div 10)) \<noteq> CHR ''0''"
    proof
      assume h: "hd (decimal (n div 10)) = CHR ''0''"
      with \<open>canonical (decimal (n div 10))\<close> have "decimal (n div 10) = ''0''"
        by (cases "decimal (n div 10)") (auto simp: canonical_def)
      then have "n div 10 = 0" using dec_value_decimal [of "n div 10"] by (simp add: dec_value_def digit_val_def)
      with False show False by simp
    qed
    ultimately show ?thesis using False
      by (subst decimal.simps) (auto simp: canonical_def is_digit_chr)
  qed
qed

lemma in_class_digit: "in_class [crange CHR ''0'' CHR ''9''] c \<longleftrightarrow> is_digit c"
  by (simp add: in_class_def crange_def is_digit_def less_eq_char_def)

lemma in_class_nonzero: "in_class [crange CHR ''1'' CHR ''9''] c \<longleftrightarrow> is_digit c \<and> c \<noteq> CHR ''0''"
  using byte_inject [of c "CHR ''0''"]
  by (auto simp: in_class_def crange_def is_digit_def less_eq_char_def)

lemma integerToken_iff: "matches integerToken s \<longleftrightarrow> canonical s"
proof -
  have "matches integerToken s \<longleftrightarrow>
      s = ''0'' \<or> (\<exists>c t. s = c # t \<and> is_digit c \<and> c \<noteq> CHR ''0'' \<and> list_all is_digit t)"
    unfolding matches_iff integerToken_def lang_alt lang_seq_class lang_rep_class
    by (auto simp: in_reps_def in_class_nonzero in_class_digit [abs_def])
  also have "\<dots> \<longleftrightarrow> canonical s"
    by (cases s) (auto simp: canonical_def is_digit_def)
  finally show ?thesis .
qed

lemma parseRevision_iff:
  "parseRevision raw = Some n \<longleftrightarrow> (\<exists>m. m < 2 ^ 63 \<and> raw = decimal m \<and> n = of_nat m)"
proof
  assume "parseRevision raw = Some n"
  then have c: "canonical raw" and b: "dec_value raw < 2 ^ 63" and n: "n = word_of_int (dec_value raw)"
    by (auto simp: parseRevision_def ParseInt64_def integerToken_iff Let_def split: if_splits)
  then show "\<exists>m. m < 2 ^ 63 \<and> raw = decimal m \<and> n = of_nat m"
    using dec_value_nonneg [of raw]
    by (intro exI [of _ "nat (dec_value raw)"]) (simp add: decimal_dec_value nat_less_iff)
next
  assume "\<exists>m. m < 2 ^ 63 \<and> raw = decimal m \<and> n = of_nat m"
  then show "parseRevision raw = Some n"
    by (auto simp: parseRevision_def ParseInt64_def integerToken_iff decimal_canonical
        dec_value_decimal Let_def)
qed

section \<open>Properties\<close>

text \<open>
  C21. The token walk accepts exactly the bytes that are one JSON text, with only white space
  after it, whose tree has no object with two members of one (unescaped) name at any depth, no
  number outside the range of a \<open>float64\<close> and no value nested more than sixteen deep.
\<close>

theorem rejectDuplicates_exact:
  "\<not> rejectDuplicates body \<longleftrightarrow>
     (\<exists>v. json_text body v \<and> unambiguous v \<and> nested_within maxDepth v)"
  by (simp add: accepted_iff pep_strict_iff)

text \<open>
  C22. An integer token is read back exactly: a text gives a revision if and only if it is the
  canonical decimal of a number below \<open>2^63\<close>, and the revision is that number. So \<open>42.0\<close>,
  \<open>4.2e1\<close>, \<open>042\<close> and \<open>-1\<close> are refused, and no two texts give one revision.
\<close>

theorem parseRevision_exact:
  "(parseRevision raw = Some n \<longleftrightarrow> (\<exists>m. m < 2 ^ 63 \<and> raw = decimal m \<and> n = of_nat m)) \<and>
   dec_value (decimal m') = int m'"
  using parseRevision_iff dec_value_decimal by blast

end
