(* ===== verification/Pep_Wire.thy ===== *)
theory Pep_Wire
  imports Pep_Request Pep_Strict
begin

text \<open>
  pep/wire.go: reading a decision document and a batch response. A member of a decoded object
  is a \<open>json option\<close>: \<open>None\<close> is the nil \<open>json.RawMessage\<close> of an absent member.
\<close>

section \<open>Typed members\<close>

type_synonym object = "(string \<times> json) list"

definition decisionSchema :: string where
  "decisionSchema = ''authorization_decision.v1''"
definition batchSchema :: string where
  "batchSchema = ''authorization_batch_response.v1''"
definition maxRepositoryAllowlist :: nat where
  "maxRepositoryAllowlist = 256"

definition decisionIDPattern :: re where
  "decisionIDPattern = RSeq (lits ''dec_'') (r_times (RCls urlsafe) 26)"
definition principalIDPattern :: re where
  "principalIDPattern = RSeq (lits ''prn_'') (r_plus (RCls urlsafe))"

definition obligationNames :: "string list" where
  "obligationNames =
     [''tenant_scope'', ''repository_allowlist'', ''repository_scope'', ''redaction'',
      ''minimum_assurance'', ''step_up'']"
definition redactionClasses :: "string list" where
  "redactionClasses = [''personal_identifiers'', ''contact_details'', ''free_text'']"
definition assuranceLevels :: "string list" where
  "assuranceLevels = [''aal1'', ''aal2'', ''aal3'']"

definition asObject :: "json option \<Rightarrow> object option" where
  "asObject raw = (case raw of Some (JObj ms) \<Rightarrow> Some ms | _ \<Rightarrow> None)"

definition asArray :: "json option \<Rightarrow> json list option" where
  "asArray raw = (case raw of Some (JArr vs) \<Rightarrow> Some vs | _ \<Rightarrow> None)"

definition asString :: "json option \<Rightarrow> string option" where
  "asString raw = (case raw of Some (JStr s) \<Rightarrow> Some s | _ \<Rightarrow> None)"

definition asBool :: "json option \<Rightarrow> bool option" where
  "asBool raw = (case raw of Some (JBool b) \<Rightarrow> Some b | _ \<Rightarrow> None)"

text \<open>\<open>asObject\<close> on the bytes of a whole document, trimmed as the code trims them.\<close>

definition bodyObject :: "bytes \<Rightarrow> object option" where
  "bodyObject doc =
     (let trimmed = trim_space doc in
      if trimmed = [] \<or> hd trimmed \<noteq> CHR ''{'' then None
      else asObject (json_unmarshal trimmed))"

text \<open>
  \<open>parseRevision\<close> of a member's trimmed text: the text of a number, and a text the
  integer pattern refuses for every other value.
\<close>

definition memberRevision :: "json option \<Rightarrow> u64 option" where
  "memberRevision raw = (case raw of Some (JNum t) \<Rightarrow> parseRevision t | _ \<Rightarrow> None)"

definition keysWithin :: "object \<Rightarrow> string list \<Rightarrow> string list \<Rightarrow> bool" where
  "keysWithin ob required optional =
     (list_all (\<lambda>k. obj_get ob k \<noteq> None) required \<and>
      list_all (\<lambda>(k, v). contains required k \<or> contains optional k) ob)"

section \<open>Obligations\<close>

fun decodeAllowlist :: "string list \<Rightarrow> json list \<Rightarrow> string list option" where
  "decodeAllowlist acc [] = Some acc"
| "decodeAllowlist acc (item # items) =
     (case asString (Some item) of
        None \<Rightarrow> None
      | Some s \<Rightarrow>
          if \<not> Repokey.Valid s \<or> contains acc s then None
          else decodeAllowlist (acc @ [s]) items)"

fun decodeRedaction :: "string list \<Rightarrow> json list \<Rightarrow> Error + string list" where
  "decodeRedaction seen [] = Inr seen"
| "decodeRedaction seen (item # items) =
     (case asString (Some item) of
        None \<Rightarrow> Inl (fail Malformed)
      | Some s \<Rightarrow>
          if contains seen s then Inl (fail Malformed)
          else if \<not> contains redactionClasses s then Inl (fail UnknownObligation)
          else decodeRedaction (seen @ [s]) items)"

text \<open>The blocks of \<open>decodeObligations\<close>, one per obligation, each updating the specification.\<close>

definition decodeTenant :: "object \<Rightarrow> ObligationSpec \<Rightarrow> Error + ObligationSpec" where
  "decodeTenant ob spec =
     (case obj_get ob ''tenant_scope'' of
        None \<Rightarrow> Inr spec
      | Some v \<Rightarrow>
          (case asString (Some v) of
             None \<Rightarrow> Inl (fail Malformed)
           | Some s \<Rightarrow> if s = [] then Inl (fail Malformed) else Inr (spec\<lparr>spec_Tenant := s\<rparr>)))"

definition decodeRepositories :: "object \<Rightarrow> ObligationSpec \<Rightarrow> Error + ObligationSpec" where
  "decodeRepositories ob spec =
     (case (obj_get ob ''repository_scope'', obj_get ob ''repository_allowlist'') of
        (Some v, Some w) \<Rightarrow> Inl (fail Malformed)
      | (Some v, None) \<Rightarrow>
          (case asString (Some v) of
             None \<Rightarrow> Inl (fail Malformed)
           | Some s \<Rightarrow>
               if s \<noteq> ScopeOrganization then Inl (fail UnknownObligation)
               else Inr (spec\<lparr>spec_Scope := ScopeOrganization\<rparr>))
      | (None, Some w) \<Rightarrow>
          (case asArray (Some w) of
             None \<Rightarrow> Inl (fail Malformed)
           | Some items \<Rightarrow>
               if length items > maxRepositoryAllowlist then Inl (fail Malformed)
               else
                 (case decodeAllowlist [] items of
                    None \<Rightarrow> Inl (fail Malformed)
                  | Some l \<Rightarrow> Inr (spec\<lparr>spec_Allowlist := Some l\<rparr>)))
      | (None, None) \<Rightarrow> Inr spec)"

definition decodeRedactions :: "object \<Rightarrow> ObligationSpec \<Rightarrow> Error + ObligationSpec" where
  "decodeRedactions ob spec =
     (case obj_get ob ''redaction'' of
        None \<Rightarrow> Inr spec
      | Some v \<Rightarrow>
          (case asArray (Some v) of
             None \<Rightarrow> Inl (fail Malformed)
           | Some items \<Rightarrow>
               (case decodeRedaction [] items of
                  Inl e \<Rightarrow> Inl e
                | Inr l \<Rightarrow> Inr (spec\<lparr>spec_Redaction := l\<rparr>))))"

definition decodeAssurance :: "object \<Rightarrow> ObligationSpec \<Rightarrow> Error + ObligationSpec" where
  "decodeAssurance ob spec =
     (case obj_get ob ''minimum_assurance'' of
        None \<Rightarrow> Inr spec
      | Some v \<Rightarrow>
          (case asString (Some v) of
             None \<Rightarrow> Inl (fail Malformed)
           | Some s \<Rightarrow>
               if \<not> contains assuranceLevels s then Inl (fail UnknownObligation)
               else Inr (spec\<lparr>spec_Assurance := s\<rparr>)))"

definition decodeStepUp :: "object \<Rightarrow> ObligationSpec \<Rightarrow> Error + ObligationSpec" where
  "decodeStepUp ob spec =
     (case obj_get ob ''step_up'' of
        None \<Rightarrow> Inr spec
      | Some v \<Rightarrow>
          (case asBool (Some v) of
             None \<Rightarrow> Inl (fail Malformed)
           | Some b \<Rightarrow> Inr (spec\<lparr>spec_StepUp := b\<rparr>)))"

definition decodeObligations :: "json \<Rightarrow> Error + Obligations" where
  "decodeObligations raw =
     (case asObject (Some raw) of
        None \<Rightarrow> Inl (fail Malformed)
      | Some ob \<Rightarrow>
          if \<not> list_all (\<lambda>(k, v). contains obligationNames k) ob then Inl (fail UnknownObligation)
          else
            and_then (decodeTenant ob zero_ObligationSpec) (\<lambda>spec.
            and_then (decodeRepositories ob spec) (\<lambda>spec.
            and_then (decodeRedactions ob spec) (\<lambda>spec.
            and_then (decodeAssurance ob spec) (\<lambda>spec.
            and_then (decodeStepUp ob spec) (\<lambda>spec.
            Inr (NewObligations spec)))))))"

section \<open>One decision\<close>

definition decisionMembers :: "string list" where
  "decisionMembers =
     [''schema_version'', ''decision_id'', ''allowed'', ''reason_code'', ''principal_id'',
      ''organization_id'', ''policy_revision'', ''expires_at'']"

text \<open>The organization member: null, or a non-empty string.\<close>

definition decodeOrganization :: "json option \<Rightarrow> (string \<times> bool) option" where
  "decodeOrganization raw =
     (if raw = Some JNull then Some ([], False)
      else (case asString raw of None \<Rightarrow> None | Some s \<Rightarrow> if s = [] then None else Some (s, True)))"

text \<open>A check that denies as malformed, and a member that has to decode.\<close>

definition checked :: "bool \<Rightarrow> Error + unit" where
  "checked b = (if b then Inr () else Inl (fail Malformed))"

definition present :: "'a option \<Rightarrow> Error + 'a" where
  "present m = (case m of None \<Rightarrow> Inl (fail Malformed) | Some a \<Rightarrow> Inr a)"

definition wireObligations :: "object \<Rightarrow> bool \<Rightarrow> Error + Obligations" where
  "wireObligations ob al =
     (case obj_get ob ''obligations'' of
        Some raw \<Rightarrow> if \<not> al then Inl (fail Malformed) else decodeObligations raw
      | None \<Rightarrow> Inr (if al then NewObligations zero_ObligationSpec else zero_Obligations))"

definition checkDecision :: "object \<Rightarrow> Request \<Rightarrow> instant \<Rightarrow> Error + Wire" where
  "checkDecision ob req now =
       (and_then (checked (keysWithin ob decisionMembers [''obligations''])) (\<lambda>_.
        and_then (checked (asString (obj_get ob ''schema_version'') = Some decisionSchema)) (\<lambda>_.
        and_then (present (asString (obj_get ob ''decision_id''))) (\<lambda>did.
        and_then (checked (matches decisionIDPattern did)) (\<lambda>_.
        and_then (present (asBool (obj_get ob ''allowed''))) (\<lambda>al.
        and_then (present (asString (obj_get ob ''reason_code''))) (\<lambda>code.
        and_then (present (wireReason code)) (\<lambda>r.
        and_then (checked (al = allowReasons r)) (\<lambda>_.
        and_then (present (asString (obj_get ob ''principal_id''))) (\<lambda>pid.
        and_then (checked (matches principalIDPattern pid)) (\<lambda>_.
        and_then (present (decodeOrganization (obj_get ob ''organization_id''))) (\<lambda>(org, has).
        and_then (present (memberRevision (obj_get ob ''policy_revision''))) (\<lambda>revision.
        and_then (present (asString (obj_get ob ''expires_at''))) (\<lambda>expires.
        and_then (present (parseExpiry expires)) (\<lambda>exp.
        and_then (wireObligations ob al) (\<lambda>obs.
        if has \<noteq> (OrganizationID req \<noteq> []) \<or> (has \<and> org \<noteq> OrganizationID req)
        then Inl (fail Mismatch)
        else Inr
          \<lparr>w_Allowed = al, w_Reason = r, w_DecisionID = did, w_PrincipalID = pid,
           w_Organization = org, w_HasOrg = has, w_PolicyRevision = revision, w_ExpiresAt = exp,
           w_Cacheable = (now < exp), w_Obligations = obs\<rparr>))))))))))))))))"

definition decodeDecision :: "object \<Rightarrow> Request \<Rightarrow> instant \<Rightarrow> Decision" where
  "decodeDecision ob req now =
     (case checkDecision ob req now of Inl e \<Rightarrow> deny e | Inr w \<Rightarrow> FromWire w)"

definition parseDecision :: "bytes \<Rightarrow> Request \<Rightarrow> instant \<Rightarrow> Decision" where
  "parseDecision doc req now =
     (if rejectDuplicates doc then deny (fail Malformed)
      else
        (case bodyObject doc of
           None \<Rightarrow> deny (fail Malformed)
         | Some ob \<Rightarrow> decodeDecision ob req now))"

section \<open>A batch\<close>

definition denyAll :: "Error \<Rightarrow> nat \<Rightarrow> Decision list" where
  "denyAll e n = replicate n (deny e)"

text \<open>The loop over the items: the decoded entries and their indexes, or a refusal.\<close>

fun batchEntries :: "json list \<Rightarrow> (object \<times> u64) list option" where
  "batchEntries [] = Some []"
| "batchEntries (item # items) =
     (case asObject (Some item) of None \<Rightarrow> None | Some entry \<Rightarrow>
      if \<not> keysWithin entry [''index'', ''decision''] [] then None
      else (case memberRevision (obj_get entry ''index'') of None \<Rightarrow> None | Some index \<Rightarrow>
      if index \<ge> of_nat MaxBatch then None
      else (case asObject (obj_get entry ''decision'') of None \<Rightarrow> None | Some inner \<Rightarrow>
      map_option ((#) (inner, index)) (batchEntries items))))"

text \<open>The last loop: the decisions, or the error of the first one that is a local deny.\<close>

fun decodeEntries :: "object list \<Rightarrow> Request list \<Rightarrow> instant \<Rightarrow> Error + Decision list" where
  "decodeEntries (inner # inners) (req # reqs) now =
     (let d = decodeDecision inner req now in
      if Decision_Local d
      then Inl (case Err d of Some (PepError e) \<Rightarrow> e | _ \<Rightarrow> fail Malformed)
      else and_then (decodeEntries inners reqs now) (\<lambda>ds. Inr (d # ds)))"
| "decodeEntries _ _ now = Inr []"

definition checkBatch :: "bytes \<Rightarrow> Request list \<Rightarrow> instant \<Rightarrow> Error + Decision list" where
  "checkBatch doc reqs now =
     and_then (checked (\<not> rejectDuplicates doc)) (\<lambda>_.
     and_then (present (bodyObject doc)) (\<lambda>ob.
     and_then (checked (keysWithin ob [''schema_version'', ''decisions''] [])) (\<lambda>_.
     and_then (checked (asString (obj_get ob ''schema_version'') = Some batchSchema)) (\<lambda>_.
     and_then (present (asArray (obj_get ob ''decisions''))) (\<lambda>items.
     and_then (checked (items \<noteq> [] \<and> length items \<le> MaxBatch)) (\<lambda>_.
     and_then (present (batchEntries items)) (\<lambda>entries.
     if length items \<noteq> length reqs then Inl (fail Mismatch)
     else if map (unat \<circ> snd) entries \<noteq> [0..<length entries] then Inl (fail Mismatch)
     else decodeEntries (map fst entries) reqs now)))))))"

definition parseBatch :: "bytes \<Rightarrow> Request list \<Rightarrow> instant \<Rightarrow> Decision list" where
  "parseBatch doc reqs now =
     (case checkBatch doc reqs now of Inl e \<Rightarrow> denyAll e (length reqs) | Inr ds \<Rightarrow> ds)"

section \<open>The object that is read is the one that was checked\<close>

lemma bodyObject_tree:
  assumes "\<not> rejectDuplicates doc" and "bodyObject doc = Some ob"
  shows "json_text doc (JObj ob) \<and> unambiguous (JObj ob) \<and> nested_within maxDepth (JObj ob)"
proof -
  obtain v where v: "json_text doc v" "unambiguous v" "nested_within maxDepth v"
    using assms(1) by (auto simp: accepted_iff pep_strict_iff)
  have "json_parse (trim_space doc) = Some (JObj ob)" using assms(2)
    by (auto simp: bodyObject_def asObject_def json_unmarshal_def Let_def
        split: if_splits option.splits json.splits)
  with v trimmed_object show ?thesis by blast
qed

section \<open>Reasons are never confused\<close>

lemma wireReason_Some:
  "wireReason s = Some r \<longleftrightarrow> r = s \<and> (s \<in> set wireReasons \<or> s \<in> set acceptAheadReasons)"
  by (auto simp: wireReason_def list_ex_iff)

lemma wireReasons_not_local: "list_all (\<lambda>r. \<not> Reason_Local r \<and> r \<noteq> []) (wireReasons @ acceptAheadReasons)"
  by (simp add: wireReasons_def acceptAheadReasons_def denyReasons_def allow_reason_defs Reason_Local_def)

lemma localReasons_local: "list_all (\<lambda>r. Reason_Local r \<and> \<not> allowReasons r) localReasons"
  by (simp add: localReasons_def local_reason_defs Reason_Local_def allowReasons_def allow_reason_defs)

lemma wireReason_not_local: "wireReason s = Some r \<Longrightarrow> \<not> Reason_Local r \<and> r \<noteq> []"
  using wireReasons_not_local
  by (auto simp: wireReason_def list_ex_iff list_all_iff split: if_splits)

lemma allowReasons_eq: "allowReasons = allowReason"
  by (auto simp: allowReasons_def allowReason_def)

lemma deny_fields [simp]:
  "allowed (deny e) = False" "reason (deny e) = e_reason e" "cacheable (deny e) = False"
  "err (deny e) = Some (PepError e)" "policyRevision (deny e) = 0" "obligations (deny e) = zero_Obligations"
  by (simp_all add: deny_def Local_def zero_Decision_def)

lemma fail_reason [simp]: "e_reason (fail r) = r"
  by (simp add: fail_def)

lemma deny_local: "Reason_Local (e_reason e) \<Longrightarrow> Decision_Local (deny e)"
  by (auto simp: Decision_Local_def Decision_Reason_def Reason_Local_def)

lemma reasons_local [simp]:
  "Reason_Local Malformed" "Reason_Local Mismatch" "Reason_Local UnknownObligation"
  "Reason_Local LocalInvalid" "Reason_Local NotConfigured" "Reason_Local NoDecision"
  "Reason_Local Unreachable" "Reason_Local Timeout" "Reason_Local Canceled" "Reason_Local Unavailable"
  "Reason_Local RateLimited" "Reason_Local Refused" "Reason_Local TooLarge"
  by (simp_all add: Reason_Local_def local_reason_defs)

section \<open>Well-formed decisions\<close>

text \<open>
  What a caller relies on: an allow has an allow reason and granted obligations; a deny has no
  obligations; a local deny is never an allow, never cacheable and has no revision, and
  carries the typed error with its reason.
\<close>

definition wf_decision :: "Decision \<Rightarrow> bool" where
  "wf_decision d =
     ((allowed d \<longrightarrow> allowReason (reason d) \<and> granted (obligations d)) \<and>
      (\<not> allowed d \<longrightarrow> obligations d = zero_Obligations) \<and>
      (Decision_Local d \<longrightarrow>
         \<not> allowed d \<and> \<not> cacheable d \<and> policyRevision d = 0 \<and>
         (\<exists>e. Err d = Some (PepError e) \<and> e_reason e = Decision_Reason d)))"

lemma allowReason_not_local: "allowReason r \<Longrightarrow> \<not> Reason_Local r \<and> r \<noteq> []"
  by (auto simp: allowReason_def Reason_Local_def allow_reason_defs)

lemma deny_wf: "Reason_Local (e_reason e) \<Longrightarrow> wf_decision (deny e)"
  by (auto simp: wf_decision_def Err_def Decision_Reason_def Reason_Local_def)

lemma FromWire_wf:
  assumes "w_Allowed w = allowReason (w_Reason w)" and "\<not> Reason_Local (w_Reason w)" and "w_Reason w \<noteq> []"
    and "w_Allowed w \<Longrightarrow> granted (w_Obligations w)"
  shows "wf_decision (FromWire w) \<and> \<not> Decision_Local (FromWire w)"
  using assms
  by (auto simp: FromWire_def wf_decision_def Let_def zero_Decision_def Decision_Local_def Decision_Reason_def)

lemma NewObligations_granted [simp]: "granted (NewObligations spec)"
  by (auto simp: NewObligations_def Let_def split: option.splits)

lemma decodeObligations_granted: "decodeObligations raw = Inr ob \<Longrightarrow> granted ob"
  by (auto simp: decodeObligations_def and_then_Inr split: option.splits if_splits)

lemma decodeRedaction_reason:
  "decodeRedaction seen items = Inl e \<Longrightarrow> e_reason e = Malformed \<or> e_reason e = UnknownObligation"
  by (induction seen items rule: decodeRedaction.induct) (auto split: option.splits if_splits)

definition refusal :: "Error \<Rightarrow> bool" where
  "refusal e = (e_reason e = Malformed \<or> e_reason e = UnknownObligation)"

lemma block_refusal:
  "decodeTenant ob spec = Inl e \<Longrightarrow> refusal e"
  "decodeRepositories ob spec = Inl e \<Longrightarrow> refusal e"
  "decodeRedactions ob spec = Inl e \<Longrightarrow> refusal e"
  "decodeAssurance ob spec = Inl e \<Longrightarrow> refusal e"
  "decodeStepUp ob spec = Inl e \<Longrightarrow> refusal e"
      apply (auto simp: refusal_def decodeTenant_def split: option.splits if_splits)[1]
     apply (auto simp: refusal_def decodeRepositories_def split: option.splits if_splits)[1]
    apply (auto simp: refusal_def decodeRedactions_def split: option.splits sum.splits dest: decodeRedaction_reason)[1]
   apply (auto simp: refusal_def decodeAssurance_def split: option.splits if_splits)[1]
  apply (auto simp: refusal_def decodeStepUp_def split: option.splits if_splits)[1]
  done

lemma decodeObligations_refusal:
  assumes "decodeObligations raw = Inl e"
  shows "refusal e"
proof (cases "asObject (Some raw)")
  case None
  then show ?thesis using assms by (auto simp: decodeObligations_def refusal_def)
next
  case (Some ob)
  show ?thesis
  proof (cases "list_all (\<lambda>(k, v). contains obligationNames k) ob")
    case False
    then show ?thesis using assms Some by (auto simp: decodeObligations_def refusal_def)
  next
    case True
    then show ?thesis using assms Some block_refusal
      by (simp add: decodeObligations_def and_then_Inl) blast
  qed
qed

lemma checked_simps:
  "checked b = Inr u \<longleftrightarrow> b" "checked b = Inl e \<longleftrightarrow> \<not> b \<and> e = fail Malformed"
  by (auto simp: checked_def)

lemma present_simps:
  "present m = Inr a \<longleftrightarrow> m = Some a" "present m = Inl e \<longleftrightarrow> m = None \<and> e = fail Malformed"
  by (auto simp: present_def split: option.splits)

lemma asString_Some [simp]: "asString raw = Some s \<longleftrightarrow> raw = Some (JStr s)"
  by (auto simp: asString_def split: option.splits json.splits)

lemma asBool_Some [simp]: "asBool raw = Some b \<longleftrightarrow> raw = Some (JBool b)"
  by (auto simp: asBool_def split: option.splits json.splits)

lemma asObject_Some [simp]: "asObject raw = Some ms \<longleftrightarrow> raw = Some (JObj ms)"
  by (auto simp: asObject_def split: option.splits json.splits)

lemma asArray_Some [simp]: "asArray raw = Some vs \<longleftrightarrow> raw = Some (JArr vs)"
  by (auto simp: asArray_def split: option.splits json.splits)

lemma wireObligations_refusal: "wireObligations ob al = Inl e \<Longrightarrow> refusal e"
  by (auto simp: wireObligations_def refusal_def split: option.splits if_splits
      dest: decodeObligations_refusal [unfolded refusal_def])

lemma wireObligations_granted: "wireObligations ob al = Inr obs \<Longrightarrow> al \<Longrightarrow> granted obs"
  by (auto simp: wireObligations_def split: option.splits if_splits dest: decodeObligations_granted)

text \<open>
  A decision document gives a refusal, a mismatch, or the verdict of a document every member
  of which passed its check.
\<close>

definition verdict_of :: "object \<Rightarrow> Request \<Rightarrow> instant \<Rightarrow> Wire \<Rightarrow> bool" where
  "verdict_of ob req now w \<longleftrightarrow>
     keysWithin ob decisionMembers [''obligations''] \<and>
     obj_get ob ''schema_version'' = Some (JStr decisionSchema) \<and>
     obj_get ob ''decision_id'' = Some (JStr (w_DecisionID w)) \<and> matches decisionIDPattern (w_DecisionID w) \<and>
     obj_get ob ''allowed'' = Some (JBool (w_Allowed w)) \<and>
     obj_get ob ''reason_code'' = Some (JStr (w_Reason w)) \<and> wireReason (w_Reason w) = Some (w_Reason w) \<and>
     w_Allowed w = allowReason (w_Reason w) \<and>
     obj_get ob ''principal_id'' = Some (JStr (w_PrincipalID w)) \<and>
     matches principalIDPattern (w_PrincipalID w) \<and>
     decodeOrganization (obj_get ob ''organization_id'') = Some (w_Organization w, w_HasOrg w) \<and>
     w_HasOrg w = (OrganizationID req \<noteq> []) \<and> (w_HasOrg w \<longrightarrow> w_Organization w = OrganizationID req) \<and>
     memberRevision (obj_get ob ''policy_revision'') = Some (w_PolicyRevision w) \<and>
     (\<exists>expires. obj_get ob ''expires_at'' = Some (JStr expires) \<and> parseExpiry expires = Some (w_ExpiresAt w)) \<and>
     wireObligations ob (w_Allowed w) = Inr (w_Obligations w) \<and>
     w_Cacheable w = (now < w_ExpiresAt w)"

lemma checkDecision_Inl: "checkDecision ob req now = Inl e \<Longrightarrow> refusal e \<or> e_reason e = Mismatch"
  unfolding checkDecision_def and_then_Inl checked_simps present_simps split_beta
  by (elim disjE exE conjE)
     (auto simp: refusal_def split: if_splits dest: wireObligations_refusal [unfolded refusal_def])

lemma checkDecision_Inr: "checkDecision ob req now = Inr w \<Longrightarrow> verdict_of ob req now w"
  unfolding checkDecision_def and_then_Inr checked_simps present_simps split_beta asString_Some asBool_Some
  by (elim exE conjE)
     (auto simp: verdict_of_def allowReasons_eq wireReason_Some split: if_splits)

lemma decodeDecision_wf: "wf_decision (decodeDecision ob req now)"
proof (cases "checkDecision ob req now")
  case (Inl e)
  then have "Reason_Local (e_reason e)" using checkDecision_Inl by (fastforce simp: refusal_def)
  with Inl deny_wf show ?thesis by (simp add: decodeDecision_def)
next
  case (Inr w)
  then have v: "verdict_of ob req now w" by (rule checkDecision_Inr)
  then have "\<not> Reason_Local (w_Reason w)" "w_Reason w \<noteq> []" "w_Allowed w = allowReason (w_Reason w)"
    "w_Allowed w \<Longrightarrow> granted (w_Obligations w)"
    using wireReason_not_local wireObligations_granted by (auto simp: verdict_of_def)
  then show ?thesis using Inr FromWire_wf by (simp add: decodeDecision_def)
qed

lemma FromWire_allowed:
  "allowed (FromWire w) \<longleftrightarrow> w_Allowed w \<and> allowReason (w_Reason w)"
  by (auto simp: FromWire_def Local_def zero_Decision_def Let_def)

lemma parseDecision_wf: "wf_decision (parseDecision doc req now)"
  by (auto simp: parseDecision_def decodeDecision_wf deny_wf split: option.splits)

lemma decodeEntries_Inl:
  "decodeEntries inners reqs now = Inl e \<Longrightarrow> Reason_Local (e_reason e)"
proof (induction inners reqs now rule: decodeEntries.induct)
  case (1 inner inners req reqs now)
  let ?d = "decodeDecision inner req now"
  show ?case
  proof (cases "Decision_Local ?d")
    case True
    then obtain e' where "Err ?d = Some (PepError e')" "e_reason e' = Decision_Reason ?d"
      using decodeDecision_wf [of inner req now] by (auto simp: wf_decision_def)
    with 1(2) True show ?thesis by (simp add: Decision_Local_def)
  next
    case False
    with 1 show ?thesis by (auto simp: Let_def and_then_Inl)
  qed
qed auto

lemma decodeEntries_Inr:
  "decodeEntries inners reqs now = Inr ds \<Longrightarrow> length inners = length reqs \<Longrightarrow>
     ds = map2 (\<lambda>inner req. decodeDecision inner req now) inners reqs \<and>
     list_all (\<lambda>d. \<not> Decision_Local d) ds"
  by (induction inners reqs now arbitrary: ds rule: decodeEntries.induct)
     (auto simp: Let_def and_then_Inr split: if_splits)

lemma batchEntries_length: "batchEntries items = Some es \<Longrightarrow> length es = length items"
  by (induction items arbitrary: es) (auto split: option.splits if_splits)

lemma checkBatch_Inl: "checkBatch doc reqs now = Inl e \<Longrightarrow> Reason_Local (e_reason e)"
  unfolding checkBatch_def and_then_Inl checked_simps present_simps
  by (elim disjE exE conjE) (auto split: if_splits dest: decodeEntries_Inl)

text \<open>A batch that is not refused binds the decision at each position to the entry with that index.\<close>

lemma checkBatch_Inr:
  assumes "checkBatch doc reqs now = Inr ds"
  shows "\<exists>ob items entries. json_text doc (JObj ob) \<and> unambiguous (JObj ob) \<and>
    obj_get ob ''decisions'' = Some (JArr items) \<and> batchEntries items = Some entries \<and>
    length items = length reqs \<and> map (unat \<circ> snd) entries = [0..<length reqs] \<and>
    ds = map2 (\<lambda>inner req. decodeDecision inner req now) (map fst entries) reqs \<and>
    list_all (\<lambda>d. \<not> Decision_Local d) ds"
proof -
  obtain ob items entries where b: "\<not> rejectDuplicates doc" "bodyObject doc = Some ob"
    "obj_get ob ''decisions'' = Some (JArr items)" "batchEntries items = Some entries"
    "length items = length reqs" "map (unat \<circ> snd) entries = [0..<length entries]"
    "decodeEntries (map fst entries) reqs now = Inr ds"
    using assms unfolding checkBatch_def and_then_Inr checked_simps present_simps
    by (auto split: if_splits)
  have "length entries = length reqs" using batchEntries_length [OF b(4)] b(5) by simp
  with b decodeEntries_Inr [OF b(7)] bodyObject_tree [OF b(1,2)] show ?thesis by fastforce
qed

lemma parseBatch_length: "length (parseBatch doc reqs now) = length reqs"
proof (cases "checkBatch doc reqs now")
  case (Inl e)
  then show ?thesis by (simp add: parseBatch_def denyAll_def)
next
  case (Inr ds)
  with checkBatch_Inr [OF Inr] batchEntries_length show ?thesis by (fastforce simp: parseBatch_def)
qed

lemma parseDecision_allowed:
  assumes "Allowed (parseDecision doc req now)"
  obtains ob w where "json_text doc (JObj ob)" "unambiguous (JObj ob)" "nested_within maxDepth (JObj ob)"
    "verdict_of ob req now w" "w_Allowed w" "parseDecision doc req now = FromWire w"
proof -
  obtain ob where ob: "\<not> rejectDuplicates doc" "bodyObject doc = Some ob"
    "parseDecision doc req now = decodeDecision ob req now"
    using assms by (auto simp: parseDecision_def Allowed_def split: if_splits option.splits)
  then obtain w where w: "checkDecision ob req now = Inr w"
    using assms by (cases "checkDecision ob req now") (auto simp: decodeDecision_def Allowed_def)
  then have "parseDecision doc req now = FromWire w" using ob by (simp add: decodeDecision_def)
  with that [of ob w] show thesis
    using bodyObject_tree [OF ob(1,2)] checkDecision_Inr [OF w] assms by (auto simp: Allowed_def FromWire_allowed)
qed

lemma batchEntries_nth:
  "batchEntries items = Some es \<Longrightarrow> i < length items \<Longrightarrow>
     \<exists>entry. items ! i = JObj entry \<and> memberRevision (obj_get entry ''index'') = Some (snd (es ! i)) \<and>
       obj_get entry ''decision'' = Some (JObj (fst (es ! i)))"
proof (induction items arbitrary: es i)
  case Nil
  then show ?case by simp
next
  case (Cons item items)
  then show ?case
    by (cases i) (fastforce split: option.splits if_splits)+
qed

lemma memberRevision_decimal:
  assumes "memberRevision raw = Some n"
  shows "raw = Some (JNum (decimal (unat n)))"
proof -
  obtain t where t: "raw = Some (JNum t)" "parseRevision t = Some n"
    using assms by (auto simp: memberRevision_def split: option.splits json.splits)
  then obtain m where m: "m < 2 ^ 63" "t = decimal m" "n = of_nat m" by (auto simp: parseRevision_iff)
  then have "unat n = m" by (simp add: unat_of_nat)
  with t m show ?thesis by simp
qed

section \<open>Properties of decoding\<close>

text \<open>
  C2. Fail closed. An allowed decision comes only from bytes that are one unambiguous JSON
  object with the closed member set, the exact schema version, the boolean \<open>true\<close> for
  \<open>allowed\<close>, one of the four allow reasons, the request's own organization (null when
  the request names none) and obligations that decoded in full.
\<close>

theorem allow_needs_checked_document:
  assumes "Allowed (parseDecision doc req now)"
  shows "\<exists>ob code obs. json_text doc (JObj ob) \<and> unambiguous (JObj ob) \<and>
    fst ` set ob \<subseteq> set decisionMembers \<union> {''obligations''} \<and>
    obj_get ob ''schema_version'' = Some (JStr decisionSchema) \<and>
    obj_get ob ''allowed'' = Some (JBool True) \<and>
    obj_get ob ''reason_code'' = Some (JStr code) \<and> allowReasons code \<and>
    obj_get ob ''organization_id'' =
      Some (if OrganizationID req = [] then JNull else JStr (OrganizationID req)) \<and>
    wireObligations ob True = Inr obs \<and> obligations (parseDecision doc req now) = obs"
proof -
  obtain ob w where w: "json_text doc (JObj ob)" "unambiguous (JObj ob)" "verdict_of ob req now w"
    "w_Allowed w" "parseDecision doc req now = FromWire w"
    using assms by (rule parseDecision_allowed)
  have "fst ` set ob \<subseteq> set decisionMembers \<union> {''obligations''}"
    using w(3) by (fastforce simp: verdict_of_def keysWithin_def list_all_iff)
  moreover have "obj_get ob ''organization_id'' =
      Some (if OrganizationID req = [] then JNull else JStr (OrganizationID req))"
    using w(3) by (auto simp: verdict_of_def decodeOrganization_def split: if_splits option.splits)
  moreover have "obligations (FromWire w) = w_Obligations w"
    using w(3,4) by (simp add: FromWire_def Let_def verdict_of_def)
  ultimately show ?thesis using w
    by (intro exI [of _ ob] exI [of _ "w_Reason w"] exI [of _ "w_Obligations w"])
       (simp add: verdict_of_def allowReasons_eq)
qed

text \<open>
  C3. A batch is bound by count, position and explicit index. When item \<open>i\<close> of a batch
  response is not a local deny, the response is an unambiguous object with exactly one entry
  per request, entry \<open>i\<close> carries the index token \<open>i\<close> in decimal, and the decision at
  position \<open>i\<close> is that entry's document read against request \<open>i\<close>.
\<close>

theorem batch_binding:
  assumes "i < length reqs" and "\<not> Decision_Local (parseBatch doc reqs now ! i)"
  shows "\<exists>ob items entry inner. json_text doc (JObj ob) \<and> unambiguous (JObj ob) \<and>
    obj_get ob ''decisions'' = Some (JArr items) \<and> length items = length reqs \<and>
    items ! i = JObj entry \<and> obj_get entry ''index'' = Some (JNum (decimal i)) \<and>
    obj_get entry ''decision'' = Some (JObj inner) \<and>
    parseBatch doc reqs now ! i = decodeDecision inner (reqs ! i) now"
proof (cases "checkBatch doc reqs now")
  case (Inl e)
  then have "Decision_Local (parseBatch doc reqs now ! i)"
    using assms(1) checkBatch_Inl deny_local by (simp add: parseBatch_def denyAll_def)
  with assms(2) show ?thesis by simp
next
  case (Inr ds)
  then obtain ob items and entries :: "(object \<times> u64) list" where b: "json_text doc (JObj ob)" "unambiguous (JObj ob)"
    "obj_get ob ''decisions'' = Some (JArr items)" "batchEntries items = Some entries"
    "length items = length reqs" "map (unat \<circ> snd) entries = [0..<length reqs]"
    "ds = map2 (\<lambda>inner req. decodeDecision inner req now) (map fst entries) reqs"
    using checkBatch_Inr [OF Inr] by blast
  have len: "length entries = length reqs" using batchEntries_length [OF b(4)] b(5) by simp
  obtain entry where entry: "items ! i = JObj entry"
    "memberRevision (obj_get entry ''index'') = Some (snd (entries ! i))"
    "obj_get entry ''decision'' = Some (JObj (fst (entries ! i)))"
    using batchEntries_nth [OF b(4)] b(5) assms(1) by auto
  have "unat (snd (entries ! i)) = i"
    using arg_cong [OF b(6), of "\<lambda>l. l ! i"] assms(1) len by simp
  moreover have "parseBatch doc reqs now ! i = decodeDecision (fst (entries ! i)) (reqs ! i) now"
    using Inr b(7) len assms(1) by (simp add: parseBatch_def)
  ultimately show ?thesis using b entry memberRevision_decimal [OF entry(2)]
    by (intro exI [of _ ob] exI [of _ items] exI [of _ entry] exI [of _ "fst (entries ! i)"]) simp
qed

end
