(* ===== verification/Pep_Obligations.thy ===== *)
theory Pep_Obligations
  imports Pep_Wire
begin

text \<open>
  What the obligations of a decoded document let a service do, read off the document itself:
  the questions a service asks of an \<open>Obligations\<close> value (\<open>RepositoryAllowed\<close>,
  \<open>TenantAllows\<close>, \<open>AssuranceSatisfiedBy\<close>, \<open>Redacts\<close>, \<open>StepUpRequired\<close>)
  against the members of the obligations object they came from.
\<close>

section \<open>What each block leaves in the specification\<close>

lemma decodeAllowlist_Some:
  "decodeAllowlist acc items = Some l \<Longrightarrow> \<exists>ss. items = map JStr ss \<and> l = acc @ ss"
proof (induction acc items arbitrary: l rule: decodeAllowlist.induct)
  case (1 acc)
  then show ?case by simp
next
  case (2 acc item items)
  then obtain s where s: "item = JStr s" "decodeAllowlist (acc @ [s]) items = Some l"
    by (auto split: option.splits if_splits)
  with 2 obtain ss where "items = map JStr ss" "l = (acc @ [s]) @ ss"
    by (auto split: option.splits if_splits)
  with s show ?case by (intro exI [of _ "s # ss"]) simp
qed

lemma decodeRedaction_Inr:
  "decodeRedaction seen items = Inr l \<Longrightarrow> \<exists>ss. items = map JStr ss \<and> l = seen @ ss"
proof (induction seen items arbitrary: l rule: decodeRedaction.induct)
  case (1 seen)
  then show ?case by simp
next
  case (2 seen item items)
  then obtain s where s: "item = JStr s" "decodeRedaction (seen @ [s]) items = Inr l"
    by (auto split: option.splits if_splits)
  with 2 obtain ss where "items = map JStr ss" "l = (seen @ [s]) @ ss"
    by (auto split: option.splits if_splits)
  with s show ?case by (intro exI [of _ "s # ss"]) simp
qed

text \<open>Each block sets one field, to its old value when the member is absent.\<close>

lemma decodeTenant_Inr:
  assumes "decodeTenant ob spec = Inr spec'"
  obtains t where "spec' = spec\<lparr>spec_Tenant := t\<rparr>"
    "case obj_get ob ''tenant_scope'' of None \<Rightarrow> t = spec_Tenant spec | Some v \<Rightarrow> v = JStr t \<and> t \<noteq> []"
  using assms that [of "spec_Tenant spec'"]
  by (auto simp: decodeTenant_def split: option.splits if_splits)

lemma decodeRepositories_Inr:
  assumes "decodeRepositories ob spec = Inr spec'"
  obtains sc al where "spec' = spec\<lparr>spec_Scope := sc, spec_Allowlist := al\<rparr>"
    "if obj_get ob ''repository_scope'' = None then sc = spec_Scope spec
     else obj_get ob ''repository_scope'' = Some (JStr ScopeOrganization) \<and> sc = ScopeOrganization"
    "if obj_get ob ''repository_allowlist'' = None then al = spec_Allowlist spec
     else \<exists>ss. al = Some ss \<and> obj_get ob ''repository_allowlist'' = Some (JArr (map JStr ss))"
  using assms that [where sc = "spec_Scope spec'" and al = "spec_Allowlist spec'"]
  by (auto simp: decodeRepositories_def split: option.splits if_splits dest: decodeAllowlist_Some)

lemma decodeRedactions_Inr:
  assumes "decodeRedactions ob spec = Inr spec'"
  obtains ss where "spec' = spec\<lparr>spec_Redaction := ss\<rparr>"
    "case obj_get ob ''redaction'' of None \<Rightarrow> ss = spec_Redaction spec | Some v \<Rightarrow> v = JArr (map JStr ss)"
  using assms that [of "spec_Redaction spec'"]
  by (auto simp: decodeRedactions_def split: option.splits sum.splits dest: decodeRedaction_Inr)

lemma decodeAssurance_Inr:
  assumes "decodeAssurance ob spec = Inr spec'"
  obtains a where "spec' = spec\<lparr>spec_Assurance := a\<rparr>"
    "case obj_get ob ''minimum_assurance'' of None \<Rightarrow> a = spec_Assurance spec
     | Some v \<Rightarrow> v = JStr a \<and> a \<in> set assuranceLevels"
  using assms that [of "spec_Assurance spec'"]
  by (auto simp: decodeAssurance_def split: option.splits if_splits)

lemma decodeStepUp_Inr:
  assumes "decodeStepUp ob spec = Inr spec'"
  obtains b where "spec' = spec\<lparr>spec_StepUp := b\<rparr>"
    "case obj_get ob ''step_up'' of None \<Rightarrow> b = spec_StepUp spec | Some v \<Rightarrow> v = JBool b"
  using assms that [of "spec_StepUp spec'"]
  by (auto simp: decodeStepUp_def split: option.splits)

text \<open>The specification a whole obligations object gives, member by member.\<close>

definition spec_of :: "object \<Rightarrow> ObligationSpec \<Rightarrow> bool" where
  "spec_of ob spec \<longleftrightarrow>
     (case obj_get ob ''tenant_scope'' of
        None \<Rightarrow> spec_Tenant spec = [] | Some v \<Rightarrow> v = JStr (spec_Tenant spec) \<and> spec_Tenant spec \<noteq> []) \<and>
     (if obj_get ob ''repository_scope'' = None then spec_Scope spec = []
      else obj_get ob ''repository_scope'' = Some (JStr ScopeOrganization) \<and> spec_Scope spec = ScopeOrganization) \<and>
     (if obj_get ob ''repository_allowlist'' = None then spec_Allowlist spec = None
      else \<exists>ss. spec_Allowlist spec = Some ss \<and>
        obj_get ob ''repository_allowlist'' = Some (JArr (map JStr ss))) \<and>
     (case obj_get ob ''redaction'' of
        None \<Rightarrow> spec_Redaction spec = [] | Some v \<Rightarrow> v = JArr (map JStr (spec_Redaction spec))) \<and>
     (case obj_get ob ''minimum_assurance'' of
        None \<Rightarrow> spec_Assurance spec = []
      | Some v \<Rightarrow> v = JStr (spec_Assurance spec) \<and> spec_Assurance spec \<in> set assuranceLevels) \<and>
     (case obj_get ob ''step_up'' of
        None \<Rightarrow> \<not> spec_StepUp spec | Some v \<Rightarrow> v = JBool (spec_StepUp spec))"

lemma decodeObligations_spec:
  assumes "decodeObligations (JObj ob) = Inr obs"
  obtains spec where "spec_of ob spec" "obs = NewObligations spec"
proof -
  obtain s1 s2 s3 s4 s5 where s: "decodeTenant ob zero_ObligationSpec = Inr s1"
    "decodeRepositories ob s1 = Inr s2" "decodeRedactions ob s2 = Inr s3"
    "decodeAssurance ob s3 = Inr s4" "decodeStepUp ob s4 = Inr s5" "obs = NewObligations s5"
    using assms by (auto simp: decodeObligations_def and_then_Inr asObject_def split: if_splits)
  obtain t where t: "s1 = zero_ObligationSpec\<lparr>spec_Tenant := t\<rparr>"
    "case obj_get ob ''tenant_scope'' of None \<Rightarrow> t = spec_Tenant zero_ObligationSpec
     | Some v \<Rightarrow> v = JStr t \<and> t \<noteq> []"
    by (rule decodeTenant_Inr [OF s(1)])
  obtain sc al where r: "s2 = s1\<lparr>spec_Scope := sc, spec_Allowlist := al\<rparr>"
    "if obj_get ob ''repository_scope'' = None then sc = spec_Scope s1
     else obj_get ob ''repository_scope'' = Some (JStr ScopeOrganization) \<and> sc = ScopeOrganization"
    "if obj_get ob ''repository_allowlist'' = None then al = spec_Allowlist s1
     else \<exists>ss. al = Some ss \<and> obj_get ob ''repository_allowlist'' = Some (JArr (map JStr ss))"
    by (rule decodeRepositories_Inr [OF s(2)])
  obtain ss where d: "s3 = s2\<lparr>spec_Redaction := ss\<rparr>"
    "case obj_get ob ''redaction'' of None \<Rightarrow> ss = spec_Redaction s2 | Some v \<Rightarrow> v = JArr (map JStr ss)"
    by (rule decodeRedactions_Inr [OF s(3)])
  obtain a where a: "s4 = s3\<lparr>spec_Assurance := a\<rparr>"
    "case obj_get ob ''minimum_assurance'' of None \<Rightarrow> a = spec_Assurance s3
     | Some v \<Rightarrow> v = JStr a \<and> a \<in> set assuranceLevels"
    by (rule decodeAssurance_Inr [OF s(4)])
  obtain b where b: "s5 = s4\<lparr>spec_StepUp := b\<rparr>"
    "case obj_get ob ''step_up'' of None \<Rightarrow> b = spec_StepUp s4 | Some v \<Rightarrow> v = JBool b"
    by (rule decodeStepUp_Inr [OF s(5)])
  have zero: "spec_Tenant zero_ObligationSpec = []" "spec_Scope s1 = []" "spec_Allowlist s1 = None"
    "spec_Redaction s2 = []" "spec_Assurance s3 = []" "spec_StepUp s4 = False"
    using t(1) r(1) d(1) a(1) by (simp_all add: zero_ObligationSpec_def)
  have fields: "spec_Tenant s5 = t" "spec_Scope s5 = sc" "spec_Allowlist s5 = al" "spec_Redaction s5 = ss"
    "spec_Assurance s5 = a" "spec_StepUp s5 = b"
    using t(1) r(1) d(1) a(1) b(1) by simp_all
  have "spec_of ob s5" unfolding spec_of_def fields
    using t(2) r(2,3) d(2) a(2) b(2) unfolding zero by (intro conjI) (assumption | simp only: not_False_eq_True eq_False)+
  then show thesis using that s(6) by blast
qed

lemma NewObligations_fields:
  "tenant (NewObligations s) = spec_Tenant s" "hasTenant (NewObligations s) = (spec_Tenant s \<noteq> [])"
  "scope (NewObligations s) = spec_Scope s" "redaction (NewObligations s) = spec_Redaction s"
  "assurance (NewObligations s) = spec_Assurance s" "hasAssurance (NewObligations s) = (spec_Assurance s \<noteq> [])"
  "stepUp (NewObligations s) = spec_StepUp s"
  "allowlist (NewObligations s) = (case spec_Allowlist s of None \<Rightarrow> [] | Some l \<Rightarrow> l)"
  by (auto simp: NewObligations_def Let_def split: option.splits)

section \<open>Properties\<close>

text \<open>
  C4. Obligations are enforced as the document states them. For obligations decoded from an
  object: a repository is allowed exactly when its key is canonical and the object has
  \<open>repository_scope\<close> \<open>organization\<close> or an allowlist with the key or \<open>*\<close> in it
  (an object with neither member allows none); an organization is allowed when it is not
  empty and equals any \<open>tenant_scope\<close>; an assurance level satisfies when it is known
  and not below any minimum; the redacted classes and the step-up flag are the document's.
\<close>

theorem obligations_as_stated:
  assumes "decodeObligations (JObj ms) = Inr obs"
  shows "(RepositoryAllowed obs key \<longleftrightarrow> ValidSlug key \<and>
      (obj_get ms ''repository_scope'' = Some (JStr ''organization'') \<or>
       (\<exists>items. obj_get ms ''repository_allowlist'' = Some (JArr items) \<and>
          (JStr key \<in> set items \<or> JStr ''*'' \<in> set items)))) \<and>
    (TenantAllows obs org \<longleftrightarrow>
       org \<noteq> [] \<and> obj_get ms ''tenant_scope'' \<in> {None, Some (JStr org)}) \<and>
    (AssuranceSatisfiedBy obs level \<longleftrightarrow> level \<in> set assuranceLevels \<and>
       (case obj_get ms ''minimum_assurance'' of
          None \<Rightarrow> True
        | Some v \<Rightarrow> \<exists>m. v = JStr m \<and> assuranceRank m \<le> assuranceRank level)) \<and>
    (Redacts obs c \<longleftrightarrow> (\<exists>items. obj_get ms ''redaction'' = Some (JArr items) \<and> JStr c \<in> set items)) \<and>
    (StepUpRequired obs \<longleftrightarrow> obj_get ms ''step_up'' = Some (JBool True))"
proof -
  obtain spec where s: "spec_of ms spec" "obs = NewObligations spec"
    using assms by (rule decodeObligations_spec)
  note f = s(2) NewObligations_fields
  have scope_ne: "ScopeOrganization \<noteq> []" by (simp add: ScopeOrganization_def)
  have "RepositoryAllowed obs key \<longleftrightarrow> ValidSlug key \<and>
      (obj_get ms ''repository_scope'' = Some (JStr ''organization'') \<or>
       (\<exists>items. obj_get ms ''repository_allowlist'' = Some (JArr items) \<and>
          (JStr key \<in> set items \<or> JStr ''*'' \<in> set items)))"
    using s(1) unfolding spec_of_def RepositoryAllowed_def f
    by (auto simp: list_ex_iff ScopeOrganization_def split: if_splits option.splits)
  moreover have "TenantAllows obs org \<longleftrightarrow>
      org \<noteq> [] \<and> obj_get ms ''tenant_scope'' \<in> {None, Some (JStr org)}"
    using s(1) unfolding spec_of_def TenantAllows_def f by (auto split: option.splits)
  moreover have "AssuranceSatisfiedBy obs level \<longleftrightarrow> level \<in> set assuranceLevels \<and>
       (case obj_get ms ''minimum_assurance'' of
          None \<Rightarrow> True
        | Some v \<Rightarrow> \<exists>m. v = JStr m \<and> assuranceRank m \<le> assuranceRank level)"
  proof -
    have "assuranceRank level = 0 \<longleftrightarrow> level \<notin> set assuranceLevels"
      by (simp add: assuranceRank_def assuranceLevels_def)
    moreover have "[] \<notin> set assuranceLevels" by (simp add: assuranceLevels_def)
    ultimately show ?thesis using s(1) unfolding spec_of_def AssuranceSatisfiedBy_def Let_def f
      by (auto split: option.splits)
  qed
  moreover have "Redacts obs c \<longleftrightarrow> (\<exists>items. obj_get ms ''redaction'' = Some (JArr items) \<and> JStr c \<in> set items)"
    using s(1) unfolding spec_of_def Redacts_def f by (auto simp: list_ex_iff split: option.splits)
  moreover have "StepUpRequired obs \<longleftrightarrow> obj_get ms ''step_up'' = Some (JBool True)"
    using s(1) unfolding spec_of_def StepUpRequired_def f by (auto split: option.splits)
  ultimately show ?thesis by blast
qed

end
