(* ===== verification/Pep_Client.thy ===== *)
theory Pep_Client
  imports Pep_Wire
begin

text \<open>
  pep/client.go: the client of the policy decision point. The network, the caller's context,
  the random source and the clock are parameters of a call (an \<open>env\<close>): what
  \<open>http.Client.Do\<close> answers for a target and a body, what the context says, the bytes
  \<open>crypto/rand\<close> gives and the instant \<open>Now\<close> returns.
\<close>

section \<open>Parameters of a call\<close>

text \<open>What \<open>classify\<close> can see of a failed call: the context's error and the transport's.\<close>

record failure =
  ctx_canceled :: bool
  ctx_deadline :: bool
  err_canceled :: bool
  err_deadline :: bool
  net_timeout :: bool

text \<open>
  A response: the media type \<open>mime.ParseMediaType\<close> finds in its Content-Type, the declared
  length (-1 when unknown), the bytes the body yields and the error that ends it, if any.
\<close>

record response =
  StatusCode :: int
  media :: "string option"
  ContentLength :: int
  stream :: bytes
  stream_err :: "failure option"

record env =
  ctx :: "failure option option"
  new_request_ok :: "string \<Rightarrow> bool"
  Do :: "string \<Rightarrow> bytes \<Rightarrow> failure + response"
  rand :: "nat \<Rightarrow> 8 word list"
  clock :: instant

section \<open>Configuration\<close>

definition PathAuthorize :: string where "PathAuthorize = ''/v1/authorize''"
definition PathAuthorizeBatch :: string where "PathAuthorizeBatch = ''/v1/authorize:batch''"
definition defaultTimeout :: duration where "defaultTimeout = 2 * second"
definition maxSingleBody :: nat where "maxSingleBody = 262144"
definition maxBatchBody :: nat where "maxBatchBody = 4194304"

text \<open>The parts of a \<open>url.URL\<close> the configuration check reads.\<close>

record URL =
  Scheme :: string
  Opaque :: string
  has_User :: bool
  Host :: string
  Hostname :: string
  url_Path :: string
  RawQuery :: string
  ForceQuery :: bool
  Fragment :: string

record Config =
  BaseURL :: string
  AllowPlainHTTP :: bool
  has_HTTPClient :: bool
  ClientService :: string
  cfg_Timeout :: duration

record Client =
  single :: string
  batch :: string
  has_http :: bool
  service :: string
  timeout :: duration
  has_now :: bool

datatype config_error =
  NoHTTPClient | UnknownService | NegativeTimeout | NotAbsolute | NotHTTPS | NotBareOrigin

text \<open>\<open>url_parse\<close> is \<open>net/url.Parse\<close>; \<open>IsAbs\<close> is a non-empty scheme.\<close>

definition New :: "(string \<Rightarrow> URL option) \<Rightarrow> Config \<Rightarrow> config_error + Client" where
  "New url_parse cfg =
     (if \<not> has_HTTPClient cfg then Inl NoHTTPClient
      else if \<not> contains clientServices (ClientService cfg) then Inl UnknownService
      else if cfg_Timeout cfg < 0 then Inl NegativeTimeout
      else
        (case url_parse (BaseURL cfg) of
           None \<Rightarrow> Inl NotAbsolute
         | Some u \<Rightarrow>
             if Scheme u = [] \<or> Hostname u = [] \<or> Opaque u \<noteq> [] then Inl NotAbsolute
             else if \<not> (Scheme u = ''https'' \<or> Scheme u = ''http'' \<and> AllowPlainHTTP cfg) then Inl NotHTTPS
             else if has_User u \<or> RawQuery u \<noteq> [] \<or> ForceQuery u \<or> Fragment u \<noteq> [] \<or>
                     (url_Path u \<noteq> [] \<and> url_Path u \<noteq> ''/'') then Inl NotBareOrigin
             else Inr
               \<lparr>single = Scheme u @ ''://'' @ Host u @ PathAuthorize,
                batch = Scheme u @ ''://'' @ Host u @ PathAuthorizeBatch,
                has_http = True, service = ClientService cfg,
                timeout = (if cfg_Timeout cfg = 0 then defaultTimeout else cfg_Timeout cfg),
                has_now = True\<rparr>))"

text \<open>A nil \<open>*Client\<close> is \<open>None\<close>.\<close>

definition ready :: "Client option \<Rightarrow> bool" where
  "ready c = (case c of None \<Rightarrow> False | Some c \<Rightarrow> has_http c \<and> has_now c \<and> single c \<noteq> [])"

section \<open>One call\<close>

definition classify :: "failure \<Rightarrow> Error" where
  "classify f =
     (if ctx_canceled f \<or> err_canceled f then fail Canceled
      else if ctx_deadline f \<or> err_deadline f then fail Timeout
      else if net_timeout f then fail Timeout
      else fail Unreachable)"

text \<open>\<open>io.ReadAll(io.LimitReader(body, limit+1))\<close>: an error past the limit is not reached.\<close>

definition read_limited :: "response \<Rightarrow> nat \<Rightarrow> failure + bytes" where
  "read_limited r limit =
     (if length (stream r) \<ge> limit + 1 then Inr (take (limit + 1) (stream r))
      else (case stream_err r of Some f \<Rightarrow> Inl f | None \<Rightarrow> Inr (stream r)))"

definition post :: "env \<Rightarrow> string \<Rightarrow> bytes \<Rightarrow> nat \<Rightarrow> Error + bytes" where
  "post e target doc limit =
     (case ctx e of
        Some (Some f) \<Rightarrow> Inl (classify f)
      | _ \<Rightarrow>
          if \<not> new_request_ok e target then Inl (fail LocalInvalid)
          else
            (case Do e target doc of
               Inl f \<Rightarrow> Inl (classify f)
             | Inr r \<Rightarrow>
                 if StatusCode r = 429 then Inl (failStatus RateLimited (StatusCode r))
                 else if StatusCode r \<noteq> 200 \<and> StatusCode r \<ge> 500
                 then Inl (failStatus Unavailable (StatusCode r))
                 else if StatusCode r \<noteq> 200 then Inl (failStatus Refused (StatusCode r))
                 else if media r \<noteq> Some ''application/json'' then Inl (fail Malformed)
                 else if ContentLength r > int limit then Inl (fail TooLarge)
                 else
                   (case read_limited r limit of
                      Inl f \<Rightarrow> Inl (classify f)
                    | Inr raw \<Rightarrow> if length raw > limit then Inl (fail TooLarge) else Inr raw)))"

definition Decide :: "Client option \<Rightarrow> env \<Rightarrow> Request \<Rightarrow> Decision" where
  "Decide c e req =
     (if \<not> ready c then deny (fail NotConfigured)
      else if ctx e = None \<or> \<not> Request_valid req then deny (fail LocalInvalid)
      else
        (case post e (single (the c)) (singleBody (service (the c)) (rand e 0) req) maxSingleBody of
           Inl er \<Rightarrow> deny er
         | Inr raw \<Rightarrow> parseDecision raw req (clock e)))"

definition DecideBatch :: "Client option \<Rightarrow> env \<Rightarrow> Request list \<Rightarrow> Decision list" where
  "DecideBatch c e reqs =
     (if reqs = [] then []
      else if \<not> ready c then denyAll (fail NotConfigured) (length reqs)
      else if ctx e = None \<or> length reqs > MaxBatch then denyAll (fail LocalInvalid) (length reqs)
      else if \<not> list_all Request_valid reqs then denyAll (fail LocalInvalid) (length reqs)
      else
        (case post e (batch (the c)) (batchBody (service (the c)) (rand e) reqs) maxBatchBody of
           Inl er \<Rightarrow> denyAll er (length reqs)
         | Inr raw \<Rightarrow> parseBatch raw reqs (clock e)))"

section \<open>Every failure is a local deny\<close>

lemma classify_local: "Reason_Local (e_reason (classify f))"
  by (simp add: classify_def)

lemma post_local: "post e target doc limit = Inl er \<Longrightarrow> Reason_Local (e_reason er)"
  by (auto simp: post_def failStatus_def classify_local split: option.splits sum.splits if_splits)

lemma post_answer:
  assumes "post e target doc limit = Inr raw"
  obtains r where "Do e target doc = Inr r" "StatusCode r = 200" "media r = Some ''application/json''"
    "stream r = raw" "stream_err r = None" "length raw \<le> limit"
  using assms
  by (auto simp: post_def read_limited_def split: option.splits sum.splits if_splits)

lemma Decide_wf: "wf_decision (Decide c e req)"
  by (auto simp: Decide_def deny_wf post_local parseDecision_wf split: sum.splits)

lemma denyAll_nth: "i < n \<Longrightarrow> denyAll e n ! i = deny e"
  by (simp add: denyAll_def)

text \<open>Every item of a batch is the same local deny, or no item is a local deny.\<close>

definition uniform_batch :: "Decision list \<Rightarrow> bool" where
  "uniform_batch ds \<longleftrightarrow>
     (\<exists>e. Reason_Local (e_reason e) \<and> ds = denyAll e (length ds)) \<or>
     list_all (\<lambda>d. \<not> Decision_Local d \<and> wf_decision d) ds"

lemma uniform_denyAll: "Reason_Local (e_reason e) \<Longrightarrow> uniform_batch (denyAll e n)"
  by (auto simp: uniform_batch_def denyAll_def)

lemma parseBatch_uniform: "uniform_batch (parseBatch doc reqs now)"
proof (cases "checkBatch doc reqs now")
  case (Inl e)
  then show ?thesis using uniform_denyAll checkBatch_Inl by (simp add: parseBatch_def)
next
  case (Inr ds)
  then obtain entries :: "(object \<times> u64) list" where "ds = map2 (\<lambda>inner req. decodeDecision inner req now) (map fst entries) reqs"
    "list_all (\<lambda>d. \<not> Decision_Local d) ds" using checkBatch_Inr by blast
  then show ?thesis using Inr decodeDecision_wf
    by (auto simp: parseBatch_def uniform_batch_def list_all_iff)
qed

lemma DecideBatch_uniform: "uniform_batch (DecideBatch c e reqs)"
proof (cases "reqs = []")
  case True
  then show ?thesis by (simp add: DecideBatch_def uniform_batch_def)
next
  case False
  then show ?thesis
    by (auto simp: DecideBatch_def uniform_denyAll post_local parseBatch_uniform split: sum.splits)
qed

lemma DecideBatch_length: "length (DecideBatch c e reqs) = length reqs"
  by (auto simp: DecideBatch_def denyAll_def parseBatch_length split: sum.splits)

section \<open>The Decider interface\<close>

text \<open>
  pep/decision.go: what a policy enforcement point calls. An implementation promises that only
  an allow carries granted obligations and that a batch has one decision per request; \<open>ok\<close>
  is the implementation's own invariant. A service that enforces the obligations of whatever
  decision it holds then acts only under an allow.
\<close>

locale decider =
  fixes ok :: "'s \<Rightarrow> bool"
    and decide :: "'s \<Rightarrow> Request \<Rightarrow> Decision"
    and decide_batch :: "'s \<Rightarrow> Request list \<Rightarrow> Decision list"
  assumes decide_grants: "ok s \<Longrightarrow> granted (Decision_Obligations (decide s r)) \<longleftrightarrow> Allowed (decide s r)"
    and batch_grants: "ok s \<Longrightarrow> d \<in> set (decide_batch s rs) \<Longrightarrow> granted (Decision_Obligations d) \<longleftrightarrow> Allowed d"
    and batch_length: "ok s \<Longrightarrow> length (decide_batch s rs) = length rs"
begin

lemma enforced:
  assumes "ok s" and "RepositoryAllowed (Decision_Obligations (decide s r)) k \<or>
    TenantAllows (Decision_Obligations (decide s r)) org \<or>
    AssuranceSatisfiedBy (Decision_Obligations (decide s r)) level"
  shows "Allowed (decide s r)"
  using assms decide_grants [OF assms(1), of r]
  by (auto simp: RepositoryAllowed_def TenantAllows_def AssuranceSatisfiedBy_def Let_def split: if_splits)

lemma enforced_batch:
  assumes "ok s" and "i < length rs" and "RepositoryAllowed (Decision_Obligations (decide_batch s rs ! i)) k \<or>
    TenantAllows (Decision_Obligations (decide_batch s rs ! i)) org \<or>
    AssuranceSatisfiedBy (Decision_Obligations (decide_batch s rs ! i)) level"
  shows "Allowed (decide_batch s rs ! i)"
proof -
  have "decide_batch s rs ! i \<in> set (decide_batch s rs)" using assms(1,2) batch_length by simp
  from batch_grants [OF assms(1) this] assms(3) show ?thesis
    by (auto simp: RepositoryAllowed_def TenantAllows_def AssuranceSatisfiedBy_def Let_def split: if_splits)
qed

end

lemma wf_grants: "wf_decision d \<Longrightarrow> granted (Decision_Obligations d) \<longleftrightarrow> Allowed d"
  by (auto simp: wf_decision_def Decision_Obligations_def Allowed_def zero_Obligations_def)

lemma uniform_wf: "uniform_batch ds \<Longrightarrow> d \<in> set ds \<Longrightarrow> wf_decision d"
  by (auto simp: uniform_batch_def list_all_iff denyAll_def dest: deny_wf) (metis deny_wf in_set_replicate)

interpretation client_decider: decider "\<lambda>(c, e). True" "\<lambda>(c, e). Decide c e" "\<lambda>(c, e). DecideBatch c e"
  by unfold_locales
    (auto simp: wf_grants Decide_wf DecideBatch_length dest: uniform_wf [OF DecideBatch_uniform])

section \<open>Properties of the client\<close>

text \<open>
  C5. The client fails closed. It reports an allow only when it is configured and the request
  is valid, the policy decision point was asked with the request's own document and answered
  200 with a complete JSON body within the size limit, and that body is an allow document.
\<close>

theorem client_fail_closed:
  assumes "Allowed (Decide c e req)"
  shows "ready c \<and> Request_valid req \<and>
    (\<exists>r. Do e (single (the c)) (singleBody (service (the c)) (rand e 0) req) = Inr r \<and> StatusCode r = 200 \<and>
       media r = Some ''application/json'' \<and> stream_err r = None \<and> length (stream r) \<le> 262144 \<and>
       Decide c e req = parseDecision (stream r) req (clock e))"
proof -
  have rdy: "ready c" "Request_valid req" using assms by (auto simp: Decide_def Allowed_def split: if_splits)
  then obtain raw where raw: "post e (single (the c)) (singleBody (service (the c)) (rand e 0) req) maxSingleBody = Inr raw"
    "Decide c e req = parseDecision raw req (clock e)"
    using assms by (auto simp: Decide_def Allowed_def split: if_splits sum.splits)
  from post_answer [OF raw(1)] show ?thesis using rdy raw(2) by (metis maxSingleBody_def)
qed

text \<open>
  A batch is all or nothing: the client returns one decision per request, and either every
  item is the same local deny or no item is a local deny.
\<close>

theorem batch_all_or_nothing:
  "length (DecideBatch c e reqs) = length reqs \<and>
   ((\<exists>er. Reason_Local (e_reason er) \<and> DecideBatch c e reqs = denyAll er (length reqs)) \<or>
    list_all (\<lambda>d. \<not> Decision_Local d) (DecideBatch c e reqs))"
  using DecideBatch_uniform [of c e reqs] DecideBatch_length [of c e reqs]
  by (auto simp: uniform_batch_def list_all_iff)

end
