(* ===== verification/Pep_Samples.thy ===== *)
theory Pep_Samples
  imports Pep_Obligations Pep_Client
begin

text \<open>
  Concrete wire documents: an allow and a batch of one, evaluated through the whole decoder,
  at which the properties of decoding apply.
\<close>

definition sample_tree :: object where
  "sample_tree =
     [(''schema_version'', JStr decisionSchema), (''decision_id'', JStr (''dec_'' @ replicate 26 CHR ''A'')),
      (''allowed'', JBool True), (''reason_code'', JStr ''allowed_by_role''),
      (''principal_id'', JStr ''prn_A''), (''organization_id'', JNull),
      (''policy_revision'', JNum ''7''), (''expires_at'', JStr ''2026-01-02T03:04:05Z''),
      (''obligations'', JObj [(''repository_scope'', JStr ''organization'')])]"

definition sample_doc :: bytes where
  "sample_doc = json_marshal (JObj sample_tree)"

definition sample_request :: Request where
  "sample_request =
     \<lparr>PrincipalReference = ''principal-000001'', Action = ''repo.read'', ResourceType = ''repository'',
      ResourceKey = ''acme/web'', OrganizationID = [], RequestID = []\<rparr>"

definition sample_batch :: bytes where
  "sample_batch = json_marshal (JObj [(''schema_version'', JStr batchSchema),
     (''decisions'', JArr [JObj [(''index'', JNum ''0''), (''decision'', JObj sample_tree)]])])"

lemma sample_doc_checked: "\<not> rejectDuplicates sample_doc"
  by code_simp

lemma sample_doc_tree: "bodyObject sample_doc = Some sample_tree"
  by code_simp

lemma sample_tree_allowed: "Allowed (decodeDecision sample_tree sample_request 0)"
  by code_simp

lemma sample_batch_checked: "\<not> rejectDuplicates sample_batch"
  by code_simp

lemma sample_batch_tree:
  "bodyObject sample_batch = Some [(''schema_version'', JStr batchSchema),
     (''decisions'', JArr [JObj [(''index'', JNum ''0''), (''decision'', JObj sample_tree)]])]"
  by code_simp

theorem allow_needs_checked_document_witness:
  "\<exists>ob. json_text sample_doc (JObj ob) \<and> obj_get ob ''allowed'' = Some (JBool True)"
proof -
  have "Allowed (parseDecision sample_doc sample_request 0)"
    using sample_doc_checked sample_doc_tree sample_tree_allowed by (simp add: parseDecision_def)
  from allow_needs_checked_document [OF this] show ?thesis by blast
qed

lemma sample_verdict: "\<not> Decision_Local (decodeDecision sample_tree sample_request 0)"
  using sample_tree_allowed decodeDecision_wf [of sample_tree sample_request 0] by (auto simp: wf_decision_def Allowed_def)

lemma sample_batch_entries:
  "batchEntries [JObj [(''index'', JNum ''0''), (''decision'', JObj sample_tree)]] = Some [(sample_tree, 0)]"
proof -
  have "memberRevision (Some (JNum ''0'')) = Some 0" by code_simp
  then show ?thesis by (simp add: asObject_def keysWithin_def obj_get_def MaxBatch_def)
qed

lemma sample_batch_decided:
  "parseBatch sample_batch [sample_request] 0 = [decodeDecision sample_tree sample_request 0]"
proof -
  have "checkBatch sample_batch [sample_request] 0 = Inr [decodeDecision sample_tree sample_request 0]"
    using sample_batch_checked sample_batch_tree sample_batch_entries sample_verdict
    by (simp add: checkBatch_def checked_simps present_simps and_then_Inr keysWithin_def obj_get_def asString_def
        asArray_def MaxBatch_def Let_def)
  then show ?thesis by (simp add: parseBatch_def)
qed

theorem batch_binding_witness:
  "\<exists>ob items. json_text sample_batch (JObj ob) \<and> obj_get ob ''decisions'' = Some (JArr items) \<and> length items = 1"
proof -
  have "\<not> Decision_Local (parseBatch sample_batch [sample_request] 0 ! 0)"
    using sample_batch_decided sample_verdict by simp
  from batch_binding [OF _ this] show ?thesis by fastforce
qed

definition sample_obligations :: object where
  "sample_obligations = [(''repository_allowlist'', JArr [JStr ''acme/web'']), (''minimum_assurance'', JStr ''aal2'')]"

theorem obligations_as_stated_witness:
  "\<exists>obs. decodeObligations (JObj sample_obligations) = Inr obs \<and> RepositoryAllowed obs ''acme/web'' \<and>
     \<not> AssuranceSatisfiedBy obs ''aal1''"
proof -
  have "isl (decodeObligations (JObj sample_obligations)) = False" by code_simp
  then obtain obs where d: "decodeObligations (JObj sample_obligations) = Inr obs"
    by (cases "decodeObligations (JObj sample_obligations)") auto
  moreover have "ValidSlug ''acme/web''" by code_simp
  moreover have "assuranceRank ''aal1'' < assuranceRank ''aal2''" by code_simp
  ultimately show ?thesis
    using obligations_as_stated [OF d, of "''acme/web''" _ "''aal1''"] by (auto simp: sample_obligations_def obj_get_def)
qed

definition sample_pdp :: Client where
  "sample_pdp = \<lparr>single = ''https://pdp/v1/authorize'', batch = ''https://pdp/v1/authorize:batch'', has_http = True,
     service = ''dev-health-web'', timeout = second, has_now = True\<rparr>"

definition sample_env :: env where
  "sample_env = \<lparr>ctx = Some None, new_request_ok = (\<lambda>_. True),
     Do = (\<lambda>_ _. Inr \<lparr>StatusCode = 200, media = Some ''application/json'', ContentLength = -1,
        stream = sample_doc, stream_err = None\<rparr>),
     rand = (\<lambda>_. []), clock = 0\<rparr>"

lemma sample_doc_short: "length sample_doc \<le> maxSingleBody"
proof -
  have "length sample_doc \<le> 1000" by code_simp
  then show ?thesis by (simp add: maxSingleBody_def)
qed

lemma sample_doc_decided: "Decide (Some sample_pdp) sample_env sample_request = parseDecision sample_doc sample_request 0"
proof -
  have "Request_valid sample_request" by code_simp
  then show ?thesis using sample_doc_short
    by (simp add: Decide_def ready_def sample_pdp_def sample_env_def post_def read_limited_def)
qed

lemma sample_doc_parsed: "parseDecision sample_doc sample_request 0 = decodeDecision sample_tree sample_request 0"
  using sample_doc_checked sample_doc_tree by (simp add: parseDecision_def)

theorem client_fail_closed_witness:
  "\<exists>r. Do sample_env (single sample_pdp) (singleBody (service sample_pdp) [] sample_request) = Inr r \<and> StatusCode r = 200 \<and>
     Decide (Some sample_pdp) sample_env sample_request = parseDecision (stream r) sample_request 0"
proof -
  have "Allowed (Decide (Some sample_pdp) sample_env sample_request)"
    using sample_doc_decided sample_doc_parsed sample_tree_allowed by simp
  from client_fail_closed [OF this] show ?thesis by (auto simp: sample_env_def)
qed

end
