(* ===== verification/Pep_Cache.thy ===== *)
theory Pep_Cache
  imports Pep_Client
begin

text \<open>
  pep/cache.go: the bounded allow-only decision cache. The state is the code's: a map from
  keys to list elements, the recency list of elements with the most recent first, the entry
  each element holds, and the counters. Every operation the code runs under its mutex is one
  function of the state; the clock reading it takes is an argument.
\<close>

section \<open>State\<close>

type_synonym key = bytes
type_synonym elem = nat

record cacheEntry =
  key :: key
  live :: bool
  decision :: Decision
  asked :: instant
  guard :: u64

text \<open>
  \<open>values\<close> is the \<open>Value\<close> of each list element, \<open>fresh_elem\<close> the next element
  the list allocates.
\<close>

record cache =
  client :: "Client option"
  maxEntries :: nat
  maxTTL :: duration
  entries :: "key \<rightharpoonup> elem"
  lru :: "elem list"
  "values" :: "elem \<Rightarrow> cacheEntry"
  fresh_elem :: elem
  allows :: int
  seq :: u64
  lastFlush :: u64
  floor_seq :: u64
  watermark :: u64
  closed :: bool

definition DefaultCacheEntries :: nat where
  "DefaultCacheEntries = 10000"

definition DefaultCacheTTL :: duration where
  "DefaultCacheTTL = 30 * second"

definition zero_entry :: "key \<Rightarrow> cacheEntry" where
  "zero_entry k = \<lparr>key = k, live = False, decision = zero_Decision, asked = zero_time, guard = 0\<rparr>"

datatype cache_error = ClientRequired | NegativeEntries | BadTTL

definition NewCachedClient :: "Client option \<Rightarrow> int \<Rightarrow> duration \<Rightarrow> cache_error + cache" where
  "NewCachedClient c cfg_MaxEntries cfg_MaxTTL =
     (if \<not> ready c then Inl ClientRequired
      else if cfg_MaxEntries < 0 then Inl NegativeEntries
      else if cfg_MaxTTL < 0 \<or> cfg_MaxTTL > DefaultCacheTTL then Inl BadTTL
      else Inr
        \<lparr>client = c,
         maxEntries = (if cfg_MaxEntries = 0 then DefaultCacheEntries else nat cfg_MaxEntries),
         maxTTL = (if cfg_MaxTTL = 0 then DefaultCacheTTL else cfg_MaxTTL),
         entries = Map.empty, lru = [], values = (\<lambda>_. zero_entry []), fresh_elem = 0,
         allows = 0, seq = 0, lastFlush = 0, floor_seq = 0, watermark = 0, closed = False\<rparr>)"

text \<open>
  The zero value has no client; a cache with a client also has its map, since
  \<open>NewCachedClient\<close> sets both.
\<close>

definition cache_ready :: "cache \<Rightarrow> bool" where
  "cache_ready c = ready (client c)"

declare cache_ready_def [simp]

section \<open>Operations under the mutex\<close>

definition clear :: "cache \<Rightarrow> cache" where
  "clear c = c\<lparr>entries := Map.empty, lru := [], allows := 0\<rparr>"

definition stamp :: "cache \<Rightarrow> instant \<Rightarrow> u64 \<times> instant" where
  "stamp c now = (seq c, now)"

definition fresh :: "cache \<Rightarrow> cacheEntry \<Rightarrow> instant \<Rightarrow> bool" where
  "fresh c e now =
     (let age = time_sub now (asked e) in
      age \<ge> 0 \<and> age < maxTTL c \<and> now < ExpiresAt (decision e) \<and>
      PolicyRevision (decision e) \<ge> watermark c)"

definition kill :: "elem \<Rightarrow> cache \<Rightarrow> cache" where
  "kill el c =
     (if live (values c el)
      then c\<lparr>values := (values c)(el := (values c el)\<lparr>live := False, decision := zero_Decision\<rparr>),
             allows := allows c - 1\<rparr>
      else c)"

definition MoveToFront :: "elem \<Rightarrow> cache \<Rightarrow> cache" where
  "MoveToFront el c = c\<lparr>lru := el # remove1 el (lru c)\<rparr>"

definition get :: "cache \<Rightarrow> key \<Rightarrow> instant \<Rightarrow> cache \<times> Decision option" where
  "get c k now =
     (case entries c k of
        None \<Rightarrow> (c, None)
      | Some el \<Rightarrow>
          if closed c then (c, None)
          else if \<not> live (values c el) then (c, None)
          else if \<not> fresh c (values c el) now then (kill el c, None)
          else (MoveToFront el c, Some (decision (values c el))))"

definition insert_entry :: "key \<Rightarrow> cache \<Rightarrow> elem \<times> cache" where
  "insert_entry k c =
     (let el = fresh_elem c in
      (el, c\<lparr>lru := el # lru c, values := (values c)(el := zero_entry k),
             entries := (entries c)(k \<mapsto> el), fresh_elem := Suc el\<rparr>))"

text \<open>One iteration of the loop of \<open>bound\<close>, and the loop.\<close>

definition evict :: "cache \<Rightarrow> cache" where
  "evict c =
     (let el = last (lru c); e = values c el; c1 = kill el c;
          c2 = (if guard e > floor_seq c1 then c1\<lparr>floor_seq := guard e\<rparr> else c1)
      in c2\<lparr>lru := butlast (lru c2), entries := (entries c2)(key e := None)\<rparr>)"

lemma kill_lru [simp]: "lru (kill el c) = lru c"
  by (simp add: kill_def)

lemma kill_maxEntries [simp]: "maxEntries (kill el c) = maxEntries c"
  by (simp add: kill_def)

lemma evict_lru: "lru (evict c) = butlast (lru c)"
  by (simp add: evict_def Let_def)

function bound :: "cache \<Rightarrow> cache" where
  "bound c = (if length (lru c) > maxEntries c then bound (evict c) else c)"
  by pat_completeness auto
termination by (relation "measure (length \<circ> lru)") (auto simp: evict_lru)

declare bound.simps [simp del]

text \<open>The loop that drops the entries below a new watermark.\<close>

definition below :: "u64 \<Rightarrow> cacheEntry \<Rightarrow> bool" where
  "below r e = (live e \<and> PolicyRevision (decision e) < r)"

definition raise_watermark :: "u64 \<Rightarrow> cache \<Rightarrow> cache" where
  "raise_watermark r c =
     (if r > watermark c
      then fold (\<lambda>el c. if below r (values c el) then kill el c else c)
             (lru c) (c\<lparr>watermark := r\<rparr>)
      else c)"

definition ensure :: "key \<Rightarrow> cache \<Rightarrow> elem \<times> cache" where
  "ensure k c = (case entries c k of Some el \<Rightarrow> (el, c) | None \<Rightarrow> insert_entry k c)"

text \<open>A verdict that is not a cacheable allow leaves a tombstone.\<close>

definition bury :: "key \<Rightarrow> cache \<Rightarrow> cache" where
  "bury k c =
     (let (el, c1) = ensure k (c\<lparr>seq := seq c + 1\<rparr>); c2 = kill el c1;
          c3 = c2\<lparr>values := (values c2)(el := (values c2 el)\<lparr>guard := seq c2\<rparr>)\<rparr>
      in bound (MoveToFront el c3))"

definition store :: "key \<Rightarrow> Decision \<Rightarrow> instant \<Rightarrow> cache \<Rightarrow> cache" where
  "store k d at c =
     (let (el, c1) = ensure k c; old = values c1 el;
          c2 = (if \<not> live old then c1\<lparr>allows := allows c1 + 1\<rparr> else c1);
          c3 = c2\<lparr>values := (values c2)(el :=
                 \<lparr>key = k, live = True, decision = d, asked = at, guard = guard old\<rparr>)\<rparr>
      in bound (MoveToFront el c3))"

definition observe :: "cache \<Rightarrow> key \<Rightarrow> Decision \<Rightarrow> u64 \<Rightarrow> instant \<Rightarrow> instant \<Rightarrow> cache" where
  "observe c k d st at now =
     (if Decision_Local d then c
      else if closed c then c
      else
        (let c1 = raise_watermark (PolicyRevision d) c in
         if \<not> (Allowed d \<and> Cacheable d) then bury k c1
         else if st < lastFlush c1 \<or> st < floor_seq c1 then c1
         else if (case entries c1 k of Some el \<Rightarrow> st < guard (values c1 el) | None \<Rightarrow> False) then c1
         else if \<not> fresh c1 \<lparr>key = k, live = True, decision = d, asked = at, guard = 0\<rparr> now then c1
         else store k d at c1))"

text \<open>\<open>None\<close> is a nil error, \<open>Some ()\<close> is \<open>ErrCacheClosed\<close>.\<close>

definition InvalidateAll :: "cache \<Rightarrow> cache \<times> unit option" where
  "InvalidateAll c =
     (if \<not> cache_ready c then (c, Some ())
      else if closed c then (c, Some ())
      else (clear (c\<lparr>seq := seq c + 1, lastFlush := seq c + 1\<rparr>), None))"

definition Invalidate :: "cache \<Rightarrow> string \<Rightarrow> string \<Rightarrow> int \<Rightarrow> cache \<times> unit option" where
  "Invalidate c aggregateType aggregateID revision = InvalidateAll c"

definition Close :: "cache \<Rightarrow> cache" where
  "Close c = (if \<not> cache_ready c then c else clear (c\<lparr>closed := True\<rparr>))"

definition Len :: "cache \<Rightarrow> int" where
  "Len c = (if \<not> cache_ready c then 0 else allows c)"

definition belowWatermark :: "cache \<Rightarrow> Decision list \<Rightarrow> nat list \<Rightarrow> bool" where
  "belowWatermark c out idx = list_ex (\<lambda>i. PolicyRevision (out ! i) < watermark c) idx"

section \<open>The abstract cache\<close>

text \<open>
  The same operations on a list of entries with the most recent first and one entry per key:
  no element identities, no map, no count of live entries.
\<close>

record acache =
  a_max :: nat
  a_ttl :: duration
  a_items :: "cacheEntry list"
  a_seq :: u64
  a_flush :: u64
  a_floor :: u64
  a_mark :: u64
  a_closed :: bool

definition a_find :: "key \<Rightarrow> cacheEntry list \<Rightarrow> cacheEntry option" where
  "a_find k es = find (\<lambda>e. key e = k) es"

definition a_remove :: "key \<Rightarrow> cacheEntry list \<Rightarrow> cacheEntry list" where
  "a_remove k es = filter (\<lambda>e. key e \<noteq> k) es"

definition dead :: "cacheEntry \<Rightarrow> cacheEntry" where
  "dead e = (if live e then e\<lparr>live := False, decision := zero_Decision\<rparr> else e)"

definition a_fresh :: "acache \<Rightarrow> cacheEntry \<Rightarrow> instant \<Rightarrow> bool" where
  "a_fresh a e now =
     (let age = time_sub now (asked e) in
      age \<ge> 0 \<and> age < a_ttl a \<and> now < ExpiresAt (decision e) \<and> PolicyRevision (decision e) \<ge> a_mark a)"

definition a_get :: "acache \<Rightarrow> key \<Rightarrow> instant \<Rightarrow> acache \<times> Decision option" where
  "a_get a k now =
     (case a_find k (a_items a) of
        None \<Rightarrow> (a, None)
      | Some e \<Rightarrow>
          if a_closed a \<or> \<not> live e then (a, None)
          else if \<not> a_fresh a e now
          then (a\<lparr>a_items := map (\<lambda>x. if key x = k then dead x else x) (a_items a)\<rparr>, None)
          else (a\<lparr>a_items := e # a_remove k (a_items a)\<rparr>, Some (decision e)))"

text \<open>Keeping the first \<open>a_max\<close> entries; the guards of the dropped ones raise the floor.\<close>

definition a_bound :: "acache \<Rightarrow> acache" where
  "a_bound a =
     a\<lparr>a_items := take (a_max a) (a_items a),
       a_floor := foldr max (map guard (drop (a_max a) (a_items a))) (a_floor a)\<rparr>"

definition a_put :: "cacheEntry \<Rightarrow> acache \<Rightarrow> acache" where
  "a_put e a = a_bound (a\<lparr>a_items := e # a_remove (key e) (a_items a)\<rparr>)"

definition a_guard :: "acache \<Rightarrow> key \<Rightarrow> u64" where
  "a_guard a k = (case a_find k (a_items a) of None \<Rightarrow> 0 | Some e \<Rightarrow> guard e)"

definition a_raise :: "u64 \<Rightarrow> acache \<Rightarrow> acache" where
  "a_raise r a =
     (if r > a_mark a
      then a\<lparr>a_mark := r,
             a_items := map (\<lambda>e. if below r e then dead e else e) (a_items a)\<rparr>
      else a)"

text \<open>The asking time a tombstone keeps is that of the entry it replaces.\<close>

definition a_tomb :: "acache \<Rightarrow> key \<Rightarrow> cacheEntry" where
  "a_tomb a k = (case a_find k (a_items a) of None \<Rightarrow> zero_entry k | Some e \<Rightarrow> dead e)"

definition a_observe :: "acache \<Rightarrow> key \<Rightarrow> Decision \<Rightarrow> u64 \<Rightarrow> instant \<Rightarrow> instant \<Rightarrow> acache" where
  "a_observe a k d st at now =
     (if Decision_Local d \<or> a_closed a then a
      else
        (let a1 = a_raise (PolicyRevision d) a in
         if \<not> (Allowed d \<and> Cacheable d)
         then a_put ((a_tomb a1 k)\<lparr>guard := a_seq a + 1\<rparr>) (a1\<lparr>a_seq := a_seq a + 1\<rparr>)
         else if st < a_flush a \<or> st < a_floor a \<or> st < a_guard a k then a1
         else if \<not> a_fresh a1 \<lparr>key = k, live = True, decision = d, asked = at, guard = 0\<rparr> now then a1
         else a_put \<lparr>key = k, live = True, decision = d, asked = at, guard = a_guard a k\<rparr> a1))"

definition a_invalidate :: "acache \<Rightarrow> acache" where
  "a_invalidate a =
     (if a_closed a then a else a\<lparr>a_seq := a_seq a + 1, a_flush := a_seq a + 1, a_items := []\<rparr>)"

definition a_close :: "acache \<Rightarrow> acache" where
  "a_close a = a\<lparr>a_closed := True, a_items := []\<rparr>"

section \<open>The representation invariant\<close>

text \<open>
  The recency list holds each element once, the map names exactly the elements of the list by
  the key of their entry, and \<open>allows\<close> counts the live entries.
\<close>

definition live_count :: "cache \<Rightarrow> nat" where
  "live_count c = length (filter (\<lambda>el. live (values c el)) (lru c))"

definition rep :: "cache \<Rightarrow> bool" where
  "rep c \<longleftrightarrow>
     distinct (lru c) \<and> (\<forall>el \<in> set (lru c). el < fresh_elem c) \<and>
     (\<forall>k el. entries c k = Some el \<longleftrightarrow> el \<in> set (lru c) \<and> key (values c el) = k) \<and>
     allows c = int (live_count c) \<and> cache_ready c"

definition abs_cache :: "cache \<Rightarrow> acache" where
  "abs_cache c =
     \<lparr>a_max = maxEntries c, a_ttl = maxTTL c, a_items = map (values c) (lru c), a_seq = seq c,
      a_flush = lastFlush c, a_floor = floor_seq c, a_mark = watermark c, a_closed = closed c\<rparr>"

lemma abs_fields [simp]:
  "a_max (abs_cache c) = maxEntries c" "a_ttl (abs_cache c) = maxTTL c"
  "a_items (abs_cache c) = map (values c) (lru c)" "a_seq (abs_cache c) = seq c"
  "a_flush (abs_cache c) = lastFlush c" "a_floor (abs_cache c) = floor_seq c"
  "a_mark (abs_cache c) = watermark c" "a_closed (abs_cache c) = closed c"
  by (simp_all add: abs_cache_def)

lemma acache_eqI:
  assumes "a_max x = a_max y" "a_ttl x = a_ttl y" "a_items x = a_items y" "a_seq x = a_seq y"
    "a_flush x = a_flush y" "a_floor x = a_floor y" "a_mark x = a_mark y" "a_closed x = a_closed y"
  shows "x = (y :: acache)"
  using assms by (cases x; cases y) simp

lemma rep_inj: "rep c \<Longrightarrow> inj_on (\<lambda>el. key (values c el)) (set (lru c))"
  unfolding rep_def inj_on_def by (metis option.inject)

lemma rep_entry:
  "rep c \<Longrightarrow> entries c k = Some el \<Longrightarrow> el \<in> set (lru c) \<and> key (values c el) = k"
  by (auto simp: rep_def)

lemma rep_absent: "rep c \<Longrightarrow> entries c k = None \<Longrightarrow> el \<in> set (lru c) \<Longrightarrow> key (values c el) \<noteq> k"
  unfolding rep_def by (metis option.distinct(1))

lemma a_find_Some:
  assumes "distinct (map key es)" and "e \<in> set es"
  shows "a_find (key e) es = Some e"
  using assms by (induction es) (auto simp: a_find_def)

lemma a_find_None: "a_find k es = None \<longleftrightarrow> k \<notin> key ` set es"
  by (induction es) (auto simp: a_find_def)

lemma rep_keys_distinct: "rep c \<Longrightarrow> distinct (map key (map (values c) (lru c)))"
  using rep_inj [of c] by (auto simp: rep_def distinct_map comp_def)

lemma rep_find: "rep c \<Longrightarrow> a_find k (map (values c) (lru c)) = map_option (values c) (entries c k)"
proof (cases "entries c k")
  case None
  moreover assume "rep c"
  ultimately show ?thesis using rep_absent by (auto simp: a_find_None)
next
  case (Some el)
  moreover assume "rep c"
  ultimately show ?thesis using a_find_Some [OF rep_keys_distinct, of c "values c el"] rep_entry [of c k el]
    by simp
qed

lemma map_remove1:
  assumes "distinct els" and "inj_on f (set els)" and "el \<in> set els"
  shows "map g (remove1 el els) = map g (filter (\<lambda>x. f x \<noteq> f el) els)"
proof -
  have "filter (\<lambda>x. f x \<noteq> f el) els = filter (\<lambda>x. el \<noteq> x) els"
    using assms(2,3) by (intro filter_cong) (auto simp: inj_on_def)
  then show ?thesis using assms(1) by (simp add: distinct_remove1_removeAll removeAll_filter_not_eq)
qed

lemma rep_remove:
  assumes "rep c" and "entries c k = Some el"
  shows "map (values c) (remove1 el (lru c)) = a_remove k (map (values c) (lru c))"
  using map_remove1 [OF _ rep_inj [OF assms(1)], of el "values c"] rep_entry [OF assms] assms(1)
  by (simp add: a_remove_def filter_map comp_def rep_def)

section \<open>Setting one entry\<close>

text \<open>
  The common step of \<open>kill\<close>, a tombstone and a store: one element gets a new entry with
  the same key, and the count follows the change of its live flag.
\<close>

definition set_value :: "elem \<Rightarrow> cacheEntry \<Rightarrow> cache \<Rightarrow> cache" where
  "set_value el e c =
     c\<lparr>values := (values c)(el := e),
       allows := allows c - (if live (values c el) then 1 else 0) + (if live e then 1 else 0)\<rparr>"

lemma set_value_client [simp]: "client (set_value el e c) = client c"
  by (simp add: set_value_def)

lemma count_update:
  assumes "distinct els" and "el \<in> set els"
  shows "int (length (filter (\<lambda>x. live ((f(el := e)) x)) els)) =
    int (length (filter (\<lambda>x. live (f x)) els)) - (if live (f el) then 1 else 0) + (if live e then 1 else 0)"
  using assms
proof (induction els)
  case Nil
  then show ?case by simp
next
  case (Cons x els)
  show ?case
  proof (cases "x = el")
    case True
    then have "filter (\<lambda>x. live ((f(el := e)) x)) els = filter (\<lambda>x. live (f x)) els"
      using Cons.prems by (intro filter_cong) auto
    then show ?thesis using True by simp
  next
    case False
    with Cons show ?thesis by (auto simp del: fun_upd_apply simp add: fun_upd_other)
  qed
qed

lemma set_value_rep:
  assumes "rep c" and "entries c k = Some el" and "key e = k"
  shows "rep (set_value el e c)"
  using assms count_update [of "lru c" el "values c" e] rep_entry [OF assms(1,2)]
  unfolding rep_def set_value_def live_count_def by auto

lemma set_value_items:
  assumes "rep c" and "entries c k = Some el" and "key e = k"
  shows "map (values (set_value el e c)) (lru c) =
    map (\<lambda>x. if key x = k then e else x) (map (values c) (lru c))"
  using assms rep_entry [OF assms(1,2)] rep_inj [OF assms(1)]
  by (auto simp: set_value_def inj_on_def)

lemma kill_set_value: "kill el c = set_value el (dead (values c el)) c"
  by (cases c) (auto simp: kill_def set_value_def dead_def)

lemma filter_front:
  "x \<in> set xs \<Longrightarrow> length (filter P (x # remove1 x xs)) = length (filter P xs)"
  by (induction xs) (auto split: if_splits)

lemma MoveToFront_rep: "rep c \<Longrightarrow> el \<in> set (lru c) \<Longrightarrow> rep (MoveToFront el c)"
  using filter_front [of el "lru c" "\<lambda>el. live (values c el)"]
  unfolding rep_def MoveToFront_def live_count_def by auto

lemma MoveToFront_fields [simp]:
  "values (MoveToFront el c) = values c" "lru (MoveToFront el c) = el # remove1 el (lru c)"
  "seq (MoveToFront el c) = seq c" "lastFlush (MoveToFront el c) = lastFlush c"
  "floor_seq (MoveToFront el c) = floor_seq c" "watermark (MoveToFront el c) = watermark c"
  "closed (MoveToFront el c) = closed c" "maxEntries (MoveToFront el c) = maxEntries c"
  "maxTTL (MoveToFront el c) = maxTTL c" "entries (MoveToFront el c) = entries c"
  by (simp_all add: MoveToFront_def)

lemma set_value_fields [simp]:
  "lru (set_value el e c) = lru c" "seq (set_value el e c) = seq c"
  "lastFlush (set_value el e c) = lastFlush c" "floor_seq (set_value el e c) = floor_seq c"
  "watermark (set_value el e c) = watermark c" "closed (set_value el e c) = closed c"
  "maxEntries (set_value el e c) = maxEntries c" "maxTTL (set_value el e c) = maxTTL c"
  "entries (set_value el e c) = entries c" "values (set_value el e c) el = e"
  by (simp_all add: set_value_def)

text \<open>A set entry moved to the front is the entry, then the others in order.\<close>

lemma set_front:
  assumes "rep c" and "entries c k = Some el" and "key e = k"
  shows "rep (MoveToFront el (set_value el e c))"
    and "abs_cache (MoveToFront el (set_value el e c)) =
      (abs_cache c)\<lparr>a_items := e # a_remove k (a_items (abs_cache c))\<rparr>"
proof -
  let ?c = "set_value el e c"
  have rep': "rep ?c" using assms by (rule set_value_rep)
  have el: "el \<in> set (lru c)" using rep_entry [OF assms(1,2)] by simp
  then show "rep (MoveToFront el ?c)" using rep' by (simp add: MoveToFront_rep)
  have "map (values ?c) (remove1 el (lru c)) = a_remove k (map (values ?c) (lru c))"
    using rep_remove [OF rep', of k el] assms(2) by simp
  also have "\<dots> = a_remove k (map (values c) (lru c))"
    unfolding set_value_items [OF assms] a_remove_def
    using assms(3) by (auto simp: filter_map comp_def intro!: map_cong filter_cong)
  finally show "abs_cache (MoveToFront el ?c) =
      (abs_cache c)\<lparr>a_items := e # a_remove k (a_items (abs_cache c))\<rparr>"
    by (intro acache_eqI) simp_all
qed

section \<open>Refinement of each operation\<close>

lemma get_refines:
  assumes "rep c"
  shows "rep (fst (get c k now))"
    and "a_get (abs_cache c) k now = (abs_cache (fst (get c k now)), snd (get c k now))"
proof -
  have f: "a_fresh (abs_cache c) e now = fresh c e now" for e
    by (simp add: a_fresh_def fresh_def)
  consider "entries c k = None \<or> closed c" | el where "entries c k = Some el" "\<not> closed c" by fastforce
  then have "rep (fst (get c k now)) \<and>
    a_get (abs_cache c) k now = (abs_cache (fst (get c k now)), snd (get c k now))"
  proof cases
    case 1
    then show ?thesis using assms rep_find [OF assms, of k]
      by (auto simp: get_def a_get_def split: option.splits)
  next
    case 2
    let ?e = "values c el"
    have el: "el \<in> set (lru c)" "key ?e = k" using rep_entry [OF assms 2(1)] by auto
    have fd: "a_find k (a_items (abs_cache c)) = Some ?e" using rep_find [OF assms, of k] 2 by simp
    consider "\<not> live ?e" | "live ?e" "\<not> fresh c ?e now" | "live ?e" "fresh c ?e now" by blast
    then show ?thesis
    proof cases
      case a: 1
      with 2 fd assms show ?thesis by (simp add: get_def a_get_def)
    next
      case b: 2
      have dk: "key (dead ?e) = k" using el by (simp add: dead_def)
      have "map (\<lambda>x. if key x = k then dead x else x) (map (values c) (lru c)) =
          map (values (kill el c)) (lru c)"
        unfolding kill_set_value set_value_items [OF assms 2(1) dk]
        using el rep_inj [OF assms] by (auto simp: inj_on_def)
      then have "abs_cache (kill el c) = (abs_cache c)\<lparr>a_items :=
          map (\<lambda>x. if key x = k then dead x else x) (a_items (abs_cache c))\<rparr>"
        by (intro acache_eqI) (simp_all add: kill_set_value)
      with b 2 fd f show ?thesis
        using set_value_rep [OF assms 2(1) dk] by (simp add: get_def a_get_def kill_set_value)
    next
      case c: 3
      have "abs_cache (MoveToFront el c) = (abs_cache c)\<lparr>a_items := ?e # a_remove k (a_items (abs_cache c))\<rparr>"
        using rep_remove [OF assms 2(1)] by (intro acache_eqI) simp_all
      with c 2 fd f MoveToFront_rep [OF assms el(1)] show ?thesis by (simp add: get_def a_get_def)
    qed
  qed
  then show "rep (fst (get c k now))"
    and "a_get (abs_cache c) k now = (abs_cache (fst (get c k now)), snd (get c k now))" by auto
qed

lemma max_word: "max a b = (if a > b then a else (b :: u64))"
  by (auto simp: max_def)

lemma evict_refines:
  assumes "rep c" and "lru c \<noteq> []"
  shows "rep (evict c)"
    and "abs_cache (evict c) = (abs_cache c)\<lparr>a_items := butlast (a_items (abs_cache c)),
      a_floor := max (guard (last (a_items (abs_cache c)))) (floor_seq c)\<rparr>"
proof -
  obtain els el where l: "lru c = els @ [el]" using assms(2) by (cases "lru c" rule: rev_cases) auto
  let ?k = "key (values c el)"
  let ?c = "set_value el (dead (values c el)) c"
  have en: "entries c ?k = Some el" using assms(1) l by (simp add: rep_def)
  have rep': "rep ?c" by (rule set_value_rep [OF assms(1) en]) (simp add: dead_def)
  have d: "distinct els" "el \<notin> set els" using assms(1) l by (auto simp: rep_def)
  have ev: "evict c = ?c\<lparr>floor_seq := max (guard (values c el)) (floor_seq c), lru := els,
      entries := (entries c)(?k := None)\<rparr>"
    using l by (simp add: evict_def kill_set_value Let_def max_word)
  have cnt: "live_count ?c = length (filter (\<lambda>x. live (values ?c x)) els)"
    by (simp add: live_count_def l dead_def)
  have inj: "x \<in> set els \<Longrightarrow> key (values c x) \<noteq> ?k" for x
    using inj_onD [OF rep_inj [OF assms(1)], of x el] d(2) l by auto
  have v: "x \<in> set els \<Longrightarrow> values ?c x = values c x" for x
    using d(2) by (auto simp: set_value_def)
  have ent: "((entries c)(?k := None)) k = Some x \<longleftrightarrow> x \<in> set els \<and> key (values ?c x) = k" for k x
  proof -
    have "entries c k = Some x \<longleftrightarrow> (x \<in> set els \<or> x = el) \<and> key (values c x) = k"
      using assms(1) l by (auto simp: rep_def)
    then show ?thesis using inj v by (auto split: if_splits)
  qed
  show "rep (evict c)"
    using rep' d(1) cnt ent l unfolding ev rep_def live_count_def by simp
  have "map (values ?c) els = map (values c) els" using v by simp
  then show "abs_cache (evict c) = (abs_cache c)\<lparr>a_items := butlast (a_items (abs_cache c)),
      a_floor := max (guard (last (a_items (abs_cache c)))) (floor_seq c)\<rparr>"
    unfolding ev by (intro acache_eqI) (simp_all add: l)
qed

lemma bound_refines: "rep c \<Longrightarrow> rep (bound c) \<and> abs_cache (bound c) = a_bound (abs_cache c)"
proof (induction c rule: bound.induct)
  case (1 c)
  show ?case
  proof (cases "length (lru c) > maxEntries c")
    case False
    then have "bound c = c" by (simp add: bound.simps)
    with 1 False show ?thesis by (auto simp: a_bound_def intro!: acache_eqI)
  next
    case True
    then have ne: "lru c \<noteq> []" by auto
    note ev = evict_refines [OF 1(2) ne]
    let ?items = "map (values c) (lru c)"
    have "drop (maxEntries c) ?items = drop (maxEntries c) (butlast ?items @ [last ?items])"
      using ne by simp
    also have "\<dots> = drop (maxEntries c) (butlast ?items) @ [last ?items]" using True by simp
    finally have dr: "drop (maxEntries c) ?items = drop (maxEntries c) (butlast ?items) @ [last ?items]" .
    have "take (maxEntries c) ?items = take (maxEntries c) (butlast ?items)"
      using True by (simp add: take_butlast)
    with dr have "a_bound (abs_cache (evict c)) = a_bound (abs_cache c)"
      unfolding ev(2) by (intro acache_eqI) (simp_all add: a_bound_def)
    then show ?thesis using 1(1) [OF True ev(1)] True by (simp add: bound.simps [of c])
  qed
qed

lemma watermark_fold:
  assumes "distinct els"
  shows "fold (\<lambda>el c. if below r (values c el) then kill el c else c) els c =
    c\<lparr>values := (\<lambda>el. if el \<in> set els \<and> below r (values c el) then dead (values c el) else values c el),
      allows := allows c - int (length (filter (\<lambda>el. below r (values c el)) els))\<rparr>"
  using assms
proof (induction els arbitrary: c)
  case Nil
  then show ?case by simp
next
  case (Cons x els)
  show ?case
  proof (cases "below r (values c x)")
    case False
    then have "(\<lambda>el. if el \<in> set (x # els) \<and> below r (values c el) then dead (values c el) else values c el) =
        (\<lambda>el. if el \<in> set els \<and> below r (values c el) then dead (values c el) else values c el)"
      by (auto simp: fun_eq_iff)
    with False Cons show ?thesis by simp
  next
    case True
    then have v: "values (kill x c) = (values c)(x := dead (values c x))" "allows (kill x c) = allows c - 1"
      by (simp_all add: kill_set_value set_value_def dead_def below_def)
    have "filter (\<lambda>el. below r (values (kill x c) el)) els = filter (\<lambda>el. below r (values c el)) els"
      using Cons.prems by (intro filter_cong) (auto simp: v)
    moreover have "(\<lambda>el. if el \<in> set els \<and> below r (values (kill x c) el) then dead (values (kill x c) el)
          else values (kill x c) el) =
        (\<lambda>el. if el \<in> set (x # els) \<and> below r (values c el) then dead (values c el) else values c el)"
      using True Cons.prems by (auto simp: v fun_eq_iff)
    moreover have "kill x c\<lparr>values := f, allows := n\<rparr> = c\<lparr>values := f, allows := n\<rparr>" for f n
      by (simp add: kill_def)
    ultimately show ?thesis using Cons True by (simp add: v(2))
  qed
qed

lemma filter_partition:
  "int (length (filter (\<lambda>x. P x \<and> Q x) xs)) + int (length (filter (\<lambda>x. P x \<and> \<not> Q x) xs)) =
     int (length (filter P xs))"
  by (induction xs) auto

lemma raise_refines:
  assumes "rep c"
  shows "rep (raise_watermark r c) \<and> abs_cache (raise_watermark r c) = a_raise r (abs_cache c)"
proof (cases "r > watermark c")
  case False
  with assms show ?thesis by (simp add: raise_watermark_def a_raise_def)
next
  case True
  define v where "v = (\<lambda>el. if el \<in> set (lru c) \<and> below r (values c el) then dead (values c el) else values c el)"
  define n where "n = int (length (filter (\<lambda>el. below r (values c el)) (lru c)))"
  let ?c = "c\<lparr>watermark := r, values := v, allows := allows c - n\<rparr>"
  have eq: "raise_watermark r c = ?c"
    using True assms watermark_fold [of "lru c" r "c\<lparr>watermark := r\<rparr>"]
    by (simp add: raise_watermark_def rep_def v_def n_def cong: if_cong)
  have "filter (\<lambda>el. live (v el)) (lru c) =
      filter (\<lambda>el. live (values c el) \<and> \<not> PolicyRevision (decision (values c el)) < r) (lru c)"
    by (intro filter_cong) (auto simp: dead_def v_def below_def)
  then have cnt: "int (length (filter (\<lambda>el. live (v el)) (lru c))) = int (live_count c) - n"
    using filter_partition [of "\<lambda>el. live (values c el)" "\<lambda>el. PolicyRevision (decision (values c el)) < r" "lru c"]
    by (simp add: live_count_def n_def below_def)
  have k: "key (v el) = key (values c el)" for el by (simp add: dead_def v_def)
  have "rep ?c" using assms cnt unfolding rep_def live_count_def by (simp add: k)
  moreover have "abs_cache ?c = a_raise r (abs_cache c)"
    using True by (intro acache_eqI) (auto simp: a_raise_def v_def)
  ultimately show ?thesis by (simp add: eq)
qed

lemma ensure_refines:
  assumes "rep c" and "ensure k c = (el, c1)"
  shows "rep c1" "entries c1 k = Some el"
    "values c1 el = (case a_find k (a_items (abs_cache c)) of None \<Rightarrow> zero_entry k | Some e \<Rightarrow> e)"
    "abs_cache c1 = (abs_cache c)\<lparr>a_items := (case a_find k (a_items (abs_cache c)) of
       None \<Rightarrow> zero_entry k # a_items (abs_cache c) | Some _ \<Rightarrow> a_items (abs_cache c))\<rparr>"
proof -
  have "rep c1 \<and> entries c1 k = Some el \<and>
    values c1 el = (case a_find k (a_items (abs_cache c)) of None \<Rightarrow> zero_entry k | Some e \<Rightarrow> e) \<and>
    abs_cache c1 = (abs_cache c)\<lparr>a_items := (case a_find k (a_items (abs_cache c)) of
       None \<Rightarrow> zero_entry k # a_items (abs_cache c) | Some _ \<Rightarrow> a_items (abs_cache c))\<rparr>"
  proof (cases "entries c k")
    case (Some x)
    then show ?thesis using assms rep_find [OF assms(1), of k] by (auto simp: ensure_def intro!: acache_eqI)
  next
    case None
    then have c1: "el = fresh_elem c" "c1 = c\<lparr>lru := el # lru c, values := (values c)(el := zero_entry k),
        entries := (entries c)(k \<mapsto> el), fresh_elem := Suc el\<rparr>"
      using assms(2) by (auto simp: ensure_def insert_entry_def Let_def)
    have new: "el \<notin> set (lru c)" using assms(1) c1(1) by (auto simp: rep_def)
    have v: "x \<in> set (lru c) \<Longrightarrow> values c1 x = values c x" for x using new c1(2) by auto
    have cnt: "filter (\<lambda>x. live (values c1 x)) (lru c) = filter (\<lambda>x. live (values c x)) (lru c)"
      using v by (intro filter_cong) auto
    have ent: "entries c1 k' = Some x \<longleftrightarrow> x \<in> set (lru c1) \<and> key (values c1 x) = k'" for k' x
    proof (cases "x = el")
      case True
      have "entries c k' \<noteq> Some el" using new assms(1) by (auto simp: rep_def)
      with True show ?thesis by (auto simp: c1 zero_entry_def)
    next
      case False
      have "entries c k' = Some x \<longleftrightarrow> x \<in> set (lru c) \<and> key (values c x) = k'" using assms(1) by (simp add: rep_def)
      moreover have "k' = k \<Longrightarrow> x \<in> set (lru c) \<Longrightarrow> key (values c x) \<noteq> k'" using rep_absent [OF assms(1) None] by blast
      ultimately show ?thesis using False by (auto simp: c1)
    qed
    have "rep c1" using assms(1) new cnt ent unfolding rep_def live_count_def
      by (auto simp: c1 zero_entry_def)
    moreover have "map (values c1) (lru c) = map (values c) (lru c)" using v by simp
    ultimately show ?thesis using rep_find [OF assms(1), of k] None c1 by (auto intro!: acache_eqI)
  qed
  then show "rep c1" "entries c1 k = Some el"
    "values c1 el = (case a_find k (a_items (abs_cache c)) of None \<Rightarrow> zero_entry k | Some e \<Rightarrow> e)"
    "abs_cache c1 = (abs_cache c)\<lparr>a_items := (case a_find k (a_items (abs_cache c)) of
       None \<Rightarrow> zero_entry k # a_items (abs_cache c) | Some _ \<Rightarrow> a_items (abs_cache c))\<rparr>"
    by blast+
qed

text \<open>Ensuring an entry for a key, setting it and moving it to the front is putting it.\<close>

lemma put_refines:
  assumes "rep c" and "ensure k c = (el, c1)" and "key e = k"
  shows "rep (bound (MoveToFront el (set_value el e c1)))"
    and "abs_cache (bound (MoveToFront el (set_value el e c1))) = a_put e (abs_cache c)"
proof -
  note en = ensure_refines [OF assms(1,2)]
  note fr = set_front [OF en(1,2) assms(3)]
  have "a_remove k (a_items (abs_cache c1)) = a_remove k (a_items (abs_cache c))"
    unfolding en(4) by (simp add: a_remove_def zero_entry_def split: option.split)
  then have "abs_cache (MoveToFront el (set_value el e c1)) =
      (abs_cache c)\<lparr>a_items := e # a_remove k (a_items (abs_cache c))\<rparr>"
    unfolding fr(2) using en(4) by (intro acache_eqI) simp_all
  then show "abs_cache (bound (MoveToFront el (set_value el e c1))) = a_put e (abs_cache c)"
    and "rep (bound (MoveToFront el (set_value el e c1)))"
    using bound_refines [OF fr(1)] assms(3) by (simp_all add: a_put_def)
qed

lemma bury_refines:
  assumes "rep c"
  shows "rep (bury k c) \<and> abs_cache (bury k c) =
    a_put ((a_tomb (abs_cache c) k)\<lparr>guard := seq c + 1\<rparr>) ((abs_cache c)\<lparr>a_seq := seq c + 1\<rparr>)"
proof -
  let ?c = "c\<lparr>seq := seq c + 1\<rparr>"
  have rep': "rep ?c" using assms by (simp add: rep_def live_count_def)
  obtain el c1 where en: "ensure k ?c = (el, c1)" by fastforce
  note e = ensure_refines [OF rep' en]
  let ?e = "(a_tomb (abs_cache c) k)\<lparr>guard := seq c + 1\<rparr>"
  have s1: "seq c1 = seq c + 1" using arg_cong [OF e(4), of a_seq] by simp
  have v: "dead (values c1 el) = a_tomb (abs_cache c) k"
    unfolding e(3) by (simp add: a_tomb_def dead_def zero_entry_def split: option.split)
  have k: "key ?e = k" using rep_entry [OF e(1,2)] v by (metis dead_def cacheEntry.select_convs(1) cacheEntry.surjective cacheEntry.update_convs(2,3,5))
  have "live (a_tomb (abs_cache c) k) = False" using v by (simp add: dead_def flip: v)
  then have "(kill el c1)\<lparr>values := (values (kill el c1))(el := (values (kill el c1) el)\<lparr>guard := seq (kill el c1)\<rparr>)\<rparr> =
      set_value el ?e c1"
    unfolding kill_set_value using v s1 by (simp add: set_value_def)
  then have "bury k c = bound (MoveToFront el (set_value el ?e c1))"
    by (simp add: bury_def en Let_def)
  then show ?thesis using put_refines [OF rep' en k] by (simp add: abs_cache_def)
qed

lemma store_refines:
  assumes "rep c"
  shows "rep (store k d at c) \<and> abs_cache (store k d at c) =
    a_put \<lparr>key = k, live = True, decision = d, asked = at, guard = a_guard (abs_cache c) k\<rparr> (abs_cache c)"
proof -
  obtain el c1 where en: "ensure k c = (el, c1)" by fastforce
  note e = ensure_refines [OF assms en]
  let ?e = "\<lparr>key = k, live = True, decision = d, asked = at, guard = a_guard (abs_cache c) k\<rparr>"
  have g: "guard (values c1 el) = a_guard (abs_cache c) k"
    unfolding e(3) by (simp add: a_guard_def zero_entry_def split: option.split)
  have comm: "c1\<lparr>allows := n, values := v\<rparr> = c1\<lparr>values := v, allows := n\<rparr>" for n v by simp
  have "store k d at c = bound (MoveToFront el (set_value el ?e c1))"
    by (cases "live (values c1 el)") (simp_all add: store_def en Let_def set_value_def g, subst comm, rule refl)
  then show ?thesis using put_refines [OF assms en, of ?e] by simp
qed

lemma a_raise_keeps [simp]:
  "a_seq (a_raise r a) = a_seq a" "a_flush (a_raise r a) = a_flush a" "a_floor (a_raise r a) = a_floor a"
  "a_max (a_raise r a) = a_max a" "a_ttl (a_raise r a) = a_ttl a" "a_closed (a_raise r a) = a_closed a"
  by (simp_all add: a_raise_def)

lemma find_map_key:
  assumes "\<And>e. key (f e) = key e"
  shows "a_find k (map f es) = map_option f (a_find k es)"
  using assms by (induction es) (auto simp: a_find_def)

lemma a_guard_raise: "a_guard (a_raise r a) k = a_guard a k"
proof -
  let ?f = "\<lambda>e. if below r e then dead e else e"
  have "key (?f e) = key e" "guard (?f e) = guard e" for e by (simp_all add: dead_def)
  then show ?thesis
    using find_map_key [of ?f k "a_items a"]
    by (cases "a_find k (a_items a)") (auto simp: a_guard_def a_raise_def)
qed

lemma observe_refines:
  assumes "rep c"
  shows "rep (observe c k d st at now) \<and>
    abs_cache (observe c k d st at now) = a_observe (abs_cache c) k d st at now"
proof (cases "Decision_Local d \<or> closed c")
  case True
  then show ?thesis using assms by (auto simp: observe_def a_observe_def)
next
  case False
  let ?c = "raise_watermark (PolicyRevision d) c"
  have r: "rep ?c" "abs_cache ?c = a_raise (PolicyRevision d) (abs_cache c)"
    using raise_refines [OF assms] by auto
  have f: "lastFlush ?c = lastFlush c" "floor_seq ?c = floor_seq c" "seq ?c = seq c"
    using arg_cong [OF r(2), of a_flush] arg_cong [OF r(2), of a_floor] arg_cong [OF r(2), of a_seq] by auto
  have g: "(case entries ?c k of Some el \<Rightarrow> st < guard (values ?c el) | None \<Rightarrow> False) \<longleftrightarrow>
      st < a_guard (abs_cache c) k"
    using rep_find [OF r(1), of k] a_guard_raise [of "PolicyRevision d" "abs_cache c" k]
    unfolding r(2) [symmetric] by (auto simp: a_guard_def split: option.splits)
  have fr: "fresh ?c e now = a_fresh (a_raise (PolicyRevision d) (abs_cache c)) e now" for e
    unfolding r(2) [symmetric] by (simp add: fresh_def a_fresh_def)
  show ?thesis
    using False r bury_refines [OF r(1), of k] store_refines [OF r(1), of k d at]
    by (simp add: observe_def a_observe_def Let_def f g fr a_guard_raise)
qed

lemma InvalidateAll_refines:
  assumes "rep c"
  shows "rep (fst (InvalidateAll c)) \<and> abs_cache (fst (InvalidateAll c)) = a_invalidate (abs_cache c)"
  using assms
  by (auto simp: InvalidateAll_def a_invalidate_def clear_def rep_def live_count_def intro!: acache_eqI)

lemma Close_refines:
  assumes "rep c"
  shows "rep (Close c) \<and> abs_cache (Close c) = a_close (abs_cache c)"
  using assms by (auto simp: Close_def a_close_def clear_def rep_def live_count_def intro!: acache_eqI)

definition a_init :: "nat \<Rightarrow> duration \<Rightarrow> acache" where
  "a_init n ttl =
     \<lparr>a_max = n, a_ttl = ttl, a_items = [], a_seq = 0, a_flush = 0, a_floor = 0, a_mark = 0, a_closed = False\<rparr>"

lemma New_refines:
  assumes "NewCachedClient cl n ttl = Inr c"
  shows "rep c \<and> abs_cache c = a_init (maxEntries c) (maxTTL c) \<and> 0 < maxEntries c \<and>
    0 < maxTTL c \<and> maxTTL c \<le> DefaultCacheTTL"
  using assms
  by (auto simp: NewCachedClient_def rep_def live_count_def a_init_def DefaultCacheEntries_def DefaultCacheTTL_def
      second_def split: if_splits intro!: acache_eqI)

text \<open>
  C19. Every operation of the cache implements the abstract one: the map, the recency list and
  the counter stay consistent, a lookup returns what the abstract lookup returns, and the
  entries, the counters and the watermark change as the abstract operation says. Recording an
  answer terminates, evictions included.
\<close>

theorem cache_refines:
  assumes "rep c"
  shows "(case get c k now of (c', r) \<Rightarrow> rep c' \<and> a_get (abs_cache c) k now = (abs_cache c', r)) \<and>
    rep (observe c k d st at now) \<and>
    abs_cache (observe c k d st at now) = a_observe (abs_cache c) k d st at now \<and>
    rep (fst (InvalidateAll c)) \<and> abs_cache (fst (InvalidateAll c)) = a_invalidate (abs_cache c) \<and>
    snd (InvalidateAll c) = (if a_closed (abs_cache c) then Some () else None) \<and>
    rep (Close c) \<and> abs_cache (Close c) = a_close (abs_cache c)"
  using get_refines [OF assms, of k now] observe_refines [OF assms, of k d st at now]
    InvalidateAll_refines [OF assms] Close_refines [OF assms] assms
  by (auto simp: InvalidateAll_def rep_def split: prod.split)

definition empty_cache :: cache where
  "empty_cache =
     \<lparr>client = Some \<lparr>single = ''u'', batch = ''v'', has_http = True, service = ''x'', timeout = second, has_now = True\<rparr>,
      maxEntries = 2, maxTTL = second, entries = Map.empty, lru = [], values = (\<lambda>_. zero_entry []), fresh_elem = 0,
      allows = 0, seq = 0, lastFlush = 0, floor_seq = 0, watermark = 0, closed = False\<rparr>"

theorem cache_refines_witness:
  "rep (observe empty_cache ''k'' zero_Decision 0 1 2) \<and>
   abs_cache (observe empty_cache ''k'' zero_Decision 0 1 2) = a_observe (abs_cache empty_cache) ''k'' zero_Decision 0 1 2"
proof -
  have "rep empty_cache" by (simp add: rep_def empty_cache_def live_count_def ready_def)
  from cache_refines [OF this, of "''k''" 2 zero_Decision 0 1] show ?thesis by blast
qed

end
