(* ===== verification/Pep_Cache_Trace.thy ===== *)
theory Pep_Cache_Trace
  imports Pep_Cache
begin

text \<open>
  Concurrent use of the decision cache. Any number of calls are in flight: each takes a stamp,
  asks the policy decision point, and later hands its answer to \<open>observe\<close>, while other
  calls read the cache, invalidate it or close it. A run is a trace of such events, newest
  first, with the cache state and the stamps of the calls still in flight; every event is one
  operation the code runs under its mutex. The observables of a trace (how many revoking
  events it has, the number of the last one for a key, the highest revision) are functions of
  the trace alone, and the invariant ties the cache state to them.
\<close>

section \<open>Runs\<close>

datatype event =
    EStart nat key instant
  | EAnswer nat key Decision instant
  | EServe key Decision instant
  | EMiss key instant
  | EFlush
  | EClose

inductive run :: "cache \<Rightarrow> event list \<Rightarrow> cache \<Rightarrow> (nat \<rightharpoonup> key \<times> u64 \<times> instant) \<Rightarrow> bool"
  for c0 :: cache where
  init: "run c0 [] c0 Map.empty"
| start: "run c0 t c p \<Longrightarrow> stamp c now = (s, at) \<Longrightarrow>
    run c0 (EStart i k at # t) c (p(i \<mapsto> (k, s, at)))"
| answer: "run c0 t c p \<Longrightarrow> p i = Some (k, s, at) \<Longrightarrow>
    run c0 (EAnswer i k d now # t) (observe c k d s at now) (p(i := None))"
| serve: "run c0 t c p \<Longrightarrow> get c k now = (c', Some d) \<Longrightarrow> run c0 (EServe k d now # t) c' p"
| miss: "run c0 t c p \<Longrightarrow> get c k now = (c', None) \<Longrightarrow> run c0 (EMiss k now # t) c' p"
| flush: "run c0 t c p \<Longrightarrow> run c0 (EFlush # t) (fst (InvalidateAll c)) p"
| close: "run c0 t c p \<Longrightarrow> run c0 (EClose # t) (Close c) p"

inductive_cases run_serveE: "run c0 (EServe k d now # t) c p"

section \<open>Observables of a trace\<close>

definition revoking :: "Decision \<Rightarrow> bool" where
  "revoking d = (\<not> Decision_Local d \<and> \<not> (Allowed d \<and> Cacheable d))"

text \<open>The revoking events so far: verdicts that are not cacheable allows, and invalidations.\<close>

primrec ticks :: "event list \<Rightarrow> nat" where
  "ticks [] = 0"
| "ticks (e # t) =
     ticks t +
     (if EClose \<in> set t then 0
      else (case e of EFlush \<Rightarrow> 1 | EAnswer i k d now \<Rightarrow> if revoking d then 1 else 0 | _ \<Rightarrow> 0))"

primrec flushed :: "event list \<Rightarrow> nat" where
  "flushed [] = 0"
| "flushed (e # t) =
     (if EClose \<in> set t then flushed t
      else (case e of EFlush \<Rightarrow> ticks t + 1 | _ \<Rightarrow> flushed t))"

primrec denied :: "key \<Rightarrow> event list \<Rightarrow> nat" where
  "denied k [] = 0"
| "denied k (e # t) =
     (if EClose \<in> set t then denied k t
      else (case e of
              EAnswer i k' d now \<Rightarrow> if k' = k \<and> revoking d then ticks t + 1 else denied k t
            | _ \<Rightarrow> denied k t))"

primrec top_revision :: "event list \<Rightarrow> u64" where
  "top_revision [] = 0"
| "top_revision (e # t) =
     (if EClose \<in> set t then top_revision t
      else (case e of
              EAnswer i k d now \<Rightarrow>
                if Decision_Local d then top_revision t else max (PolicyRevision d) (top_revision t)
            | _ \<Rightarrow> top_revision t))"

lemma ticks_le: "ticks t \<le> length t"
  by (induction t) (auto split: event.splits)

lemma ticks_append: "ticks t \<le> ticks (t' @ t)"
  by (induction t') (auto intro: le_trans)

text \<open>What happened since a position with a given number of revoking events.\<close>

lemma no_flush_since:
  "flushed (t2 @ t1) \<le> ticks t1 \<Longrightarrow> EClose \<notin> set (t2 @ t1) \<Longrightarrow> EFlush \<notin> set t2"
proof (induction t2)
  case Nil
  then show ?case by simp
next
  case (Cons e t2)
  have "e \<noteq> EFlush" using Cons.prems ticks_append [of t1 t2] by (auto split: if_splits)
  moreover from this Cons.prems have "flushed (t2 @ t1) \<le> ticks t1" by (cases e) auto
  ultimately show ?case using Cons by auto
qed

lemma no_denial_since:
  "denied k (t2 @ t1) \<le> ticks t1 \<Longrightarrow> EClose \<notin> set (t2 @ t1) \<Longrightarrow> EAnswer i k d now \<in> set t2 \<Longrightarrow> \<not> revoking d"
proof (induction t2)
  case Nil
  then show ?case by simp
next
  case (Cons e t2)
  have "\<not> (\<exists>i d now. e = EAnswer i k d now \<and> revoking d)"
    using Cons.prems ticks_append [of t1 t2] by (auto split: if_splits)
  moreover from this Cons.prems have "denied k (t2 @ t1) \<le> ticks t1" by (cases e) (auto split: if_splits)
  ultimately show ?case using Cons by auto
qed

lemma revision_bound:
  "EClose \<notin> set t \<Longrightarrow> EAnswer i k d now \<in> set t \<Longrightarrow> \<not> Decision_Local d \<Longrightarrow>
     PolicyRevision d \<le> top_revision t"
  by (induction t) (auto simp: le_max_iff_disj split: event.splits)

section \<open>Where a live entry comes from\<close>

text \<open>
  An entry's answer belongs to a call for the entry's key that started at \<open>asked\<close>, and
  neither a flush nor a revoking verdict for that key came after the call started.
\<close>

definition sourced :: "event list \<Rightarrow> cacheEntry \<Rightarrow> bool" where
  "sourced t e \<longleftrightarrow>
     (\<exists>i t1 t2 w. t = t2 @ EStart i (key e) (asked e) # t1 \<and>
        EAnswer i (key e) (decision e) w \<in> set t2 \<and>
        denied (key e) t \<le> ticks t1 \<and> flushed t \<le> ticks t1) \<and>
     Allowed (decision e) \<and> Cacheable (decision e) \<and> top_revision t \<le> PolicyRevision (decision e)"

lemma sourced_step:
  assumes "sourced t e" and "denied (key e) (ev # t) = denied (key e) t" and "flushed (ev # t) = flushed t"
    and "top_revision (ev # t) \<le> PolicyRevision (decision e)"
  shows "sourced (ev # t) e"
proof -
  from assms(1) obtain i t1 t2 w where t: "t = t2 @ EStart i (key e) (asked e) # t1"
    "EAnswer i (key e) (decision e) w \<in> set t2" "denied (key e) t \<le> ticks t1" "flushed t \<le> ticks t1"
    by (auto simp: sourced_def)
  have "ev # t = (ev # t2) @ EStart i (key e) (asked e) # t1" using t(1) by simp
  moreover have "EAnswer i (key e) (decision e) w \<in> set (ev # t2)" using t(2) by simp
  ultimately show ?thesis using assms t(3,4) unfolding sourced_def by metis
qed

section \<open>The invariant\<close>

definition cover :: "acache \<Rightarrow> key \<Rightarrow> u64" where
  "cover a k = max (a_floor a) (a_guard a k)"

definition cache_inv :: "event list \<Rightarrow> acache \<Rightarrow> (nat \<rightharpoonup> key \<times> u64 \<times> instant) \<Rightarrow> bool" where
  "cache_inv t a p \<longleftrightarrow>
     unat (a_seq a) = ticks t \<and> unat (a_flush a) = flushed t \<and> a_mark a = top_revision t \<and>
     (a_closed a \<longleftrightarrow> EClose \<in> set t) \<and>
     (\<not> a_closed a \<longrightarrow> (\<forall>k. denied k t \<le> max (flushed t) (unat (cover a k)))) \<and>
     (\<not> a_closed a \<longrightarrow> (\<forall>e \<in> set (a_items a). live e \<longrightarrow> sourced t e)) \<and>
     (\<forall>i k s at. p i = Some (k, s, at) \<longrightarrow>
        (\<exists>t1 t2. t = t2 @ EStart i k at # t1 \<and> unat s = ticks t1))"

lemma a_find_remove: "k' \<noteq> k \<Longrightarrow> a_find k' (a_remove k es) = a_find k' es"
  by (induction es) (auto simp: a_find_def a_remove_def)

lemma a_guard_put:
  "a_guard (a\<lparr>a_items := e # a_remove (key e) (a_items a)\<rparr>) k =
     (if k = key e then guard e else a_guard a k)"
  using a_find_remove [of k "key e" "a_items a"] by (auto simp: a_guard_def a_find_def)

lemma foldr_max_ge: "x \<in> set xs \<Longrightarrow> (x :: u64) \<le> foldr max xs b" and foldr_max_base: "b \<le> foldr max xs (b :: u64)"
  by (induction xs) (auto simp: le_max_iff_disj)

lemma a_find_append:
  "a_find k (xs @ ys) = (case a_find k xs of Some e \<Rightarrow> Some e | None \<Rightarrow> a_find k ys)"
  by (induction xs) (auto simp: a_find_def)

lemma a_find_mem: "a_find k es = Some e \<Longrightarrow> e \<in> set es \<and> key e = k"
  by (auto simp: a_find_def find_Some_iff)

lemma cover_bound: "cover a k \<le> cover (a_bound a) k"
proof -
  let ?x = "take (a_max a) (a_items a)" and ?y = "drop (a_max a) (a_items a)"
  have split: "a_find k (a_items a) = (case a_find k ?x of Some e \<Rightarrow> Some e | None \<Rightarrow> a_find k ?y)"
    using a_find_append [of k ?x ?y] by simp
  have base: "a_floor a \<le> a_floor (a_bound a)" by (simp add: a_bound_def foldr_max_base)
  have drop: "guard e \<le> a_floor (a_bound a)" if "a_find k ?y = Some e" for e
    using a_find_mem [OF that] by (auto simp: a_bound_def intro: foldr_max_ge)
  have "a_guard a k \<le> cover (a_bound a) k"
  proof (cases "a_find k ?x")
    case (Some e)
    then show ?thesis using split by (simp add: a_guard_def cover_def a_bound_def)
  next
    case None
    then show ?thesis using split drop
      by (cases "a_find k ?y") (simp_all add: a_guard_def cover_def le_max_iff_disj)
  qed
  with base show ?thesis by (auto simp: cover_def le_max_iff_disj)
qed

lemma a_guard_map:
  assumes "\<And>e. key (f e) = key e" and "\<And>e. guard (f e) = guard e"
  shows "a_guard (a\<lparr>a_items := map f (a_items a)\<rparr>) k = a_guard a k"
  using find_map_key [of f k "a_items a"] assms
  by (cases "a_find k (a_items a)") (auto simp: a_guard_def)

lemma a_get_effect:
  assumes "a_get a k now = (a', r)"
  shows "a_seq a' = a_seq a" "a_flush a' = a_flush a" "a_mark a' = a_mark a" "a_closed a' = a_closed a"
    "cover a' k' = cover a k'" "e \<in> set (a_items a') \<Longrightarrow> live e \<Longrightarrow> e \<in> set (a_items a)"
proof -
  consider "a' = a"
    | x where "a_find k (a_items a) = Some x" "a' = a\<lparr>a_items := map (\<lambda>x. if key x = k then dead x else x) (a_items a)\<rparr>"
    | x where "a_find k (a_items a) = Some x" "a' = a\<lparr>a_items := x # a_remove k (a_items a)\<rparr>"
    using assms by (auto simp: a_get_def split: option.splits if_splits)
  then have "a_seq a' = a_seq a \<and> a_flush a' = a_flush a \<and> a_mark a' = a_mark a \<and> a_closed a' = a_closed a \<and>
    cover a' k' = cover a k' \<and> (e \<in> set (a_items a') \<longrightarrow> live e \<longrightarrow> e \<in> set (a_items a))"
  proof cases
    case 1
    then show ?thesis by simp
  next
    case 2
    then show ?thesis
      using a_guard_map [of "\<lambda>x. if key x = k then dead x else x" a k']
      by (auto simp: cover_def dead_def split: if_splits)
  next
    case 3
    then have x: "x \<in> set (a_items a)" "key x = k" using a_find_mem by auto
    have "a_guard a' k' = a_guard a k'" using 3 a_guard_put [where a = a and e = x and k = k'] x by (auto simp: a_guard_def)
    then show ?thesis using 3 x by (auto simp: cover_def a_remove_def)
  qed
  then show "a_seq a' = a_seq a" "a_flush a' = a_flush a" "a_mark a' = a_mark a" "a_closed a' = a_closed a"
    "cover a' k' = cover a k'" "e \<in> set (a_items a') \<Longrightarrow> live e \<Longrightarrow> e \<in> set (a_items a)" by blast+
qed

text \<open>An event that is no revocation and no verdict leaves every observable as it was.\<close>

definition silent :: "event \<Rightarrow> bool" where
  "silent ev = (case ev of EStart _ _ _ \<Rightarrow> True | EServe _ _ _ \<Rightarrow> True | EMiss _ _ \<Rightarrow> True
     | EAnswer _ _ d _ \<Rightarrow> Decision_Local d | _ \<Rightarrow> False)"

lemma silent_observables:
  assumes "silent ev"
  shows "ticks (ev # t) = ticks t" "flushed (ev # t) = flushed t" "denied k (ev # t) = denied k t"
    "top_revision (ev # t) = top_revision t" "EClose \<in> set (ev # t) \<longleftrightarrow> EClose \<in> set t"
  using assms by (cases ev; auto simp: silent_def revoking_def)+

lemma pending_step:
  assumes "\<exists>t1 t2. t = t2 @ EStart i k at # t1 \<and> unat s = ticks t1"
  shows "\<exists>t1 t2. ev # t = t2 @ EStart i k at # t1 \<and> unat s = ticks t1"
  using assms by (metis append_Cons)

lemma inv_pending: "cache_inv t a p \<Longrightarrow> p i = Some (k, s, at) \<Longrightarrow> \<exists>t1 t2. t = t2 @ EStart i k at # t1 \<and> unat s = ticks t1"
  by (auto simp: cache_inv_def)

lemma inv_silent:
  assumes i: "cache_inv t a p" and s: "silent ev"
    and a: "a_seq a' = a_seq a" "a_flush a' = a_flush a" "a_mark a' = a_mark a" "a_closed a' = a_closed a"
      "\<And>k. cover a' k = cover a k" "\<And>e. e \<in> set (a_items a') \<Longrightarrow> live e \<Longrightarrow> e \<in> set (a_items a)"
    and p: "\<And>i k s at. p' i = Some (k, s, at) \<Longrightarrow>
      \<exists>t1 t2. ev # t = t2 @ EStart i k at # t1 \<and> unat s = ticks t1"
  shows "cache_inv (ev # t) a' p'"
proof -
  note o = silent_observables [OF s]
  have "sourced (ev # t) e" if "e \<in> set (a_items a')" "live e" "\<not> a_closed a" for e
  proof -
    have src: "sourced t e" using i a(6) that by (auto simp: cache_inv_def)
    then have "top_revision t \<le> PolicyRevision (decision e)" by (simp add: sourced_def)
    with src show ?thesis by (intro sourced_step) (simp_all only: o)
  qed
  then show ?thesis using i a p unfolding cache_inv_def o by auto
qed

lemma inv_start: "cache_inv t a p \<Longrightarrow> cache_inv (EStart i k at # t) a (p(i \<mapsto> (k, a_seq a, at)))"
proof (rule inv_silent)
  assume i: "cache_inv t a p"
  fix j k' s at' assume j: "(p(i \<mapsto> (k, a_seq a, at))) j = Some (k', s, at')"
  show "\<exists>t1 t2. EStart i k at # t = t2 @ EStart j k' at' # t1 \<and> unat s = ticks t1"
  proof (cases "j = i")
    case True
    with j i show ?thesis by (intro exI [of _ t] exI [of _ "[]"]) (auto simp: cache_inv_def)
  next
    case False
    with j have "p j = Some (k', s, at')" by simp
    from pending_step [OF inv_pending [OF i this]] show ?thesis .
  qed
qed (auto simp: silent_def)

lemma inv_get:
  assumes "cache_inv t a p" and "a_get a k now = (a', r)" and "silent ev"
  shows "cache_inv (ev # t) a' p"
  using assms(1,3) a_get_effect [OF assms(2)] pending_step [OF inv_pending [OF assms(1)]]
  by (rule inv_silent)

lemma inv_local_answer:
  assumes "cache_inv t a p" and "Decision_Local d"
  shows "cache_inv (EAnswer i k d now # t) a (p(i := None))"
proof (rule inv_silent [OF assms(1)])
  fix j k' s at assume "(p(i := None)) j = Some (k', s, at)"
  then have "p j = Some (k', s, at)" by (simp split: if_splits)
  from pending_step [OF inv_pending [OF assms(1) this]]
  show "\<exists>t1 t2. EAnswer i k d now # t = t2 @ EStart j k' at # t1 \<and> unat s = ticks t1" .
qed (use assms(2) in \<open>auto simp: silent_def\<close>)

lemma unat_tick: "unat (w :: u64) = n \<Longrightarrow> Suc n < 2 ^ 64 \<Longrightarrow> unat (w + 1) = Suc n"
  by (simp add: unat_word_ariths)

lemma inv_flush:
  assumes i: "cache_inv t a p" and n: "Suc (ticks t) < 2 ^ 64"
  shows "cache_inv (EFlush # t) (a_invalidate a) p"
proof (cases "a_closed a")
  case True
  then have "EClose \<in> set t" using i by (simp add: cache_inv_def)
  then show ?thesis using i True pending_step [OF inv_pending [OF i]]
    by (auto simp: cache_inv_def a_invalidate_def)
next
  case False
  then have "EClose \<notin> set t" using i by (simp add: cache_inv_def)
  moreover have "denied k t \<le> ticks t" for k
    by (induction t) (auto split: event.splits)
  moreover have "unat (a_seq a + 1) = Suc (ticks t)" using i n unat_tick by (simp add: cache_inv_def)
  ultimately show ?thesis using i False pending_step [OF inv_pending [OF i]]
    by (auto simp: cache_inv_def a_invalidate_def le_SucI le_max_iff_disj)
qed

lemma inv_close: "cache_inv t a p \<Longrightarrow> cache_inv (EClose # t) (a_close a) p"
  using pending_step [OF inv_pending] by (auto simp: cache_inv_def a_close_def)

lemma answer_pending:
  assumes "cache_inv t a p" and "(p(i := None)) j = Some (k, s, at)"
  shows "\<exists>t1 t2. ev # t = t2 @ EStart j k at # t1 \<and> unat s = ticks t1"
proof -
  have "p j = Some (k, s, at)" using assms(2) by (simp split: if_splits)
  from pending_step [OF inv_pending [OF assms(1) this]] show ?thesis .
qed

lemma a_raise_items:
  "e \<in> set (a_items (a_raise r a)) \<Longrightarrow> live e \<Longrightarrow>
     e \<in> set (a_items a) \<and> (r > a_mark a \<longrightarrow> r \<le> PolicyRevision (decision e))"
  by (auto simp: a_raise_def dead_def below_def split: if_splits)

lemma a_raise_mark: "a_mark (a_raise r a) = max r (a_mark a)"
  by (auto simp: a_raise_def max_def)

lemma a_bound_keeps [simp]:
  "a_seq (a_bound a) = a_seq a" "a_flush (a_bound a) = a_flush a" "a_mark (a_bound a) = a_mark a"
  "a_closed (a_bound a) = a_closed a"
  by (simp_all add: a_bound_def)

lemma a_put_keeps [simp]:
  "a_seq (a_put e a) = a_seq a" "a_flush (a_put e a) = a_flush a" "a_mark (a_put e a) = a_mark a"
  "a_closed (a_put e a) = a_closed a"
  by (simp_all add: a_put_def)

lemma a_put_items: "x \<in> set (a_items (a_put e a)) \<Longrightarrow> x = e \<or> x \<in> set (a_items a) \<and> key x \<noteq> key e"
  by (auto simp: a_put_def a_bound_def a_remove_def dest: in_set_takeD)

lemma a_put_cover:
  "cover (a\<lparr>a_items := e # a_remove (key e) (a_items a)\<rparr>) k \<le> cover (a_put e a) k"
  unfolding a_put_def by (rule cover_bound)

lemma a_put_cover_other: "k \<noteq> key e \<Longrightarrow> cover a k \<le> cover (a_put e a) k"
  using a_put_cover [where a = a and e = e and k = k] a_guard_put [where a = a and e = e and k = k] by (simp add: cover_def)

lemma a_put_cover_same: "max (a_floor a) (guard e) \<le> cover (a_put e a) (key e)"
  using a_put_cover [where a = a and e = e and k = "key e"] a_guard_put [where a = a and e = e and k = "key e"] by (simp add: cover_def)

lemma invI:
  assumes "unat (a_seq a) = ticks t" and "unat (a_flush a) = flushed t" and "a_mark a = top_revision t"
    and "a_closed a \<longleftrightarrow> EClose \<in> set t"
    and "\<And>k. \<not> a_closed a \<Longrightarrow> denied k t \<le> max (flushed t) (unat (cover a k))"
    and "\<And>e. \<not> a_closed a \<Longrightarrow> e \<in> set (a_items a) \<Longrightarrow> live e \<Longrightarrow> sourced t e"
    and "\<And>i k s at. p i = Some (k, s, at) \<Longrightarrow> \<exists>t1 t2. t = t2 @ EStart i k at # t1 \<and> unat s = ticks t1"
  shows "cache_inv t a p"
  unfolding cache_inv_def using assms by blast

lemma inv_open:
  assumes "cache_inv t a p" and "\<not> a_closed a"
  shows "unat (a_seq a) = ticks t" and "unat (a_flush a) = flushed t" and "a_mark a = top_revision t"
    and "EClose \<notin> set t" and "denied k t \<le> max (flushed t) (unat (cover a k))"
    and "e \<in> set (a_items a) \<Longrightarrow> live e \<Longrightarrow> sourced t e"
  using assms unfolding cache_inv_def by blast+

lemma verdict_observables:
  assumes "EClose \<notin> set t" and "\<not> Decision_Local d"
  shows "ticks (EAnswer j k d now # t) = (if revoking d then Suc (ticks t) else ticks t)"
    and "flushed (EAnswer j k d now # t) = flushed t"
    and "denied k' (EAnswer j k d now # t) = (if k' = k \<and> revoking d then Suc (ticks t) else denied k' t)"
    and "top_revision (EAnswer j k d now # t) = max (PolicyRevision d) (top_revision t)"
  using assms by simp_all

lemma raise_sourced:
  assumes i: "cache_inv t a p" and o: "\<not> a_closed a" and x: "x \<in> set (a_items (a_raise r a))" "live x"
  shows "sourced t x" and "max r (top_revision t) \<le> PolicyRevision (decision x)"
proof -
  have m: "x \<in> set (a_items a)" "a_mark a < r \<longrightarrow> r \<le> PolicyRevision (decision x)"
    using a_raise_items [OF x] by blast+
  show src: "sourced t x" using inv_open(6) [OF i o m(1) x(2)] .
  have "top_revision t \<le> PolicyRevision (decision x)" using src unfolding sourced_def by blast
  then show "max r (top_revision t) \<le> PolicyRevision (decision x)"
    using m(2) unfolding inv_open(3) [OF i o] by (auto simp: max_def not_less intro: order_trans)
qed

lemma cover_raise: "cover (a_raise r a) k = cover a k"
  by (simp add: cover_def a_guard_raise)

lemma a_tomb_key: "key (a_tomb a k) = k"
  by (auto simp: a_tomb_def zero_entry_def dead_def split: option.splits dest: a_find_mem)

lemma a_tomb_dead: "\<not> live (a_tomb a k)"
  by (auto simp: a_tomb_def zero_entry_def dead_def split: option.splits)

lemma cover_seq [simp]: "cover (a\<lparr>a_seq := n\<rparr>) k = cover a k"
  by (simp add: cover_def a_guard_def)

text \<open>A revoking verdict leaves a tombstone whose guard is the new count.\<close>

lemma inv_tomb:
  assumes i: "cache_inv t a p" and n: "Suc (ticks t) < 2 ^ 64" and o: "\<not> a_closed a" and d: "revoking d"
    and e: "key e = k" "\<not> live e" "guard e = a_seq a + 1"
  shows "cache_inv (EAnswer j k d now # t) (a_put e ((a_raise (PolicyRevision d) a)\<lparr>a_seq := a_seq a + 1\<rparr>)) (p(j := None))"
    (is "cache_inv ?t (a_put e ?a) _")
proof (rule invI)
  have nl: "\<not> Decision_Local d" using d by (simp add: revoking_def)
  note obs = verdict_observables [OF inv_open(4) [OF i o] nl]
  have seq: "unat (a_seq a + 1) = Suc (ticks t)" using unat_tick [OF inv_open(1) [OF i o] n] .
  show "unat (a_seq (a_put e ?a)) = ticks ?t" unfolding obs using seq d by simp
  show "unat (a_flush (a_put e ?a)) = flushed ?t" unfolding obs using inv_open(2) [OF i o] by simp
  show "a_mark (a_put e ?a) = top_revision ?t" unfolding obs using inv_open(3) [OF i o] by (simp add: a_raise_mark)
  show "a_closed (a_put e ?a) \<longleftrightarrow> EClose \<in> set ?t" using inv_open(4) [OF i o] o by simp
  show "denied k' ?t \<le> max (flushed ?t) (unat (cover (a_put e ?a) k'))" for k'
  proof (cases "k' = k")
    case True
    have "a_seq a + 1 \<le> cover (a_put e ?a) k" using a_put_cover_same [of ?a e] e by simp
    then show ?thesis unfolding obs using True d seq by (simp add: word_le_nat_alt)
  next
    case False
    have "cover a k' \<le> cover (a_put e ?a) k'" using a_put_cover_other [of k' e ?a] e False by (simp add: cover_raise)
    then show ?thesis unfolding obs using False inv_open(5) [OF i o, of k'] by (simp add: word_le_nat_alt)
  qed
  show "sourced ?t x" if "x \<in> set (a_items (a_put e ?a))" "live x" for x
  proof -
    have x: "x \<in> set (a_items (a_raise (PolicyRevision d) a))" "key x \<noteq> k"
      using a_put_items [OF that(1)] e that(2) by auto
    from raise_sourced [OF i o x(1) that(2)] show ?thesis
      by (intro sourced_step) (use x(2) in \<open>simp_all only: obs if_False simp_thms\<close>)
  qed
qed (rule answer_pending [OF i])

text \<open>A cacheable allow raises the watermark.\<close>

lemma inv_raise:
  assumes i: "cache_inv t a p" and o: "\<not> a_closed a" and d: "\<not> Decision_Local d" "\<not> revoking d"
  shows "cache_inv (EAnswer j k d now # t) (a_raise (PolicyRevision d) a) (p(j := None))" (is "cache_inv ?t ?a _")
proof (rule invI)
  note obs = verdict_observables [OF inv_open(4) [OF i o] d(1)]
  show "unat (a_seq ?a) = ticks ?t" unfolding obs using d inv_open(1) [OF i o] by simp
  show "unat (a_flush ?a) = flushed ?t" unfolding obs using inv_open(2) [OF i o] by simp
  show "a_mark ?a = top_revision ?t" unfolding obs using inv_open(3) [OF i o] by (simp add: a_raise_mark)
  show "a_closed ?a \<longleftrightarrow> EClose \<in> set ?t" using inv_open(4) [OF i o] o by simp
  show "denied k' ?t \<le> max (flushed ?t) (unat (cover ?a k'))" for k'
    unfolding obs cover_raise using d inv_open(5) [OF i o, of k'] by simp
  show "sourced ?t x" if "x \<in> set (a_items ?a)" "live x" for x
    using raise_sourced [OF i o that] by (intro sourced_step) (use d in \<open>simp_all only: obs if_False simp_thms\<close>)
qed (rule answer_pending [OF i])

text \<open>Putting a sourced entry with the guard of its key keeps the invariant.\<close>

lemma inv_put:
  assumes i: "cache_inv t a p" and o: "\<not> a_closed a" and e: "sourced t e" "guard e = a_guard a (key e)"
  shows "cache_inv t (a_put e a) p"
proof (rule invI)
  have le: "cover a k \<le> cover (a_put e a) k" for k
    using a_put_cover_other [of k e a] a_put_cover_same [of a e] e(2)
    by (cases "k = key e") (simp_all add: cover_def)
  show "denied k t \<le> max (flushed t) (unat (cover (a_put e a) k))" for k
    using inv_open(5) [OF i o, of k] le [of k] by (simp add: word_le_nat_alt)
  show "sourced t x" if "x \<in> set (a_items (a_put e a))" "live x" for x
    using a_put_items [OF that(1)] that(2) e(1) inv_open(6) [OF i o] by blast
  show "a_closed (a_put e a) \<longleftrightarrow> EClose \<in> set t" using inv_open(4) [OF i o] o by simp
  show "\<exists>t1 t2. t = t2 @ EStart j k at # t1 \<and> unat s = ticks t1" if "p j = Some (k, s, at)" for j k s at
    using inv_pending [OF i that] .
qed (use inv_open(1-3) [OF i o] in simp_all)

lemma new_sourced:
  assumes t: "t = t2 @ EStart j k at # t1" and le: "denied k (EAnswer j k d now # t) \<le> ticks t1"
    "flushed (EAnswer j k d now # t) \<le> ticks t1" and d: "Allowed d" "Cacheable d"
    and r: "top_revision (EAnswer j k d now # t) \<le> PolicyRevision d"
    and e: "key e = k" "decision e = d" "asked e = at"
  shows "sourced (EAnswer j k d now # t) e"
proof -
  have "EAnswer j k d now # t = (EAnswer j k d now # t2) @ EStart j k at # t1" using t by simp
  moreover have "EAnswer j k d now \<in> set (EAnswer j k d now # t2)" by simp
  ultimately show ?thesis unfolding sourced_def e using le d r by blast
qed

lemma inv_answer:
  assumes i: "cache_inv t a p" and n: "Suc (ticks t) < 2 ^ 64" and pj: "p j = Some (k, s, at)"
  shows "cache_inv (EAnswer j k d now # t) (a_observe a k d s at now) (p(j := None))"
proof -
  let ?t = "EAnswer j k d now # t"
  let ?e = "\<lparr>key = k, live = True, decision = d, asked = at, guard = a_guard a k\<rparr>"
  let ?a = "a_raise (PolicyRevision d) a"
  consider (loc) "Decision_Local d" | (closed) "\<not> Decision_Local d" "a_closed a"
    | (rev) "revoking d" "\<not> a_closed a" | (allow) "\<not> Decision_Local d" "\<not> revoking d" "\<not> a_closed a"
    by blast
  then show ?thesis
  proof cases
    case loc
    then show ?thesis using inv_local_answer [OF i] by (simp add: a_observe_def)
  next
    case closed
    then have "EClose \<in> set t" using i by (simp add: cache_inv_def)
    then have "cache_inv ?t a (p(j := None))" using i closed answer_pending [OF i] by (simp add: cache_inv_def)
    then show ?thesis using closed by (simp add: a_observe_def)
  next
    case rev
    then have "a_observe a k d s at now =
        a_put ((a_tomb ?a k)\<lparr>guard := a_seq a + 1\<rparr>) (?a\<lparr>a_seq := a_seq a + 1\<rparr>)"
      by (simp add: a_observe_def Let_def revoking_def)
    with inv_tomb [OF i n rev(2,1), where e = "(a_tomb ?a k)\<lparr>guard := a_seq a + 1\<rparr>"] show ?thesis
      by (simp add: a_tomb_key a_tomb_dead)
  next
    case allow
    note raised = inv_raise [OF i allow(3,1,2), where j = j and k = k and now = now]
    note obs = verdict_observables [OF inv_open(4) [OF i allow(3)] allow(1), where j = j and k = k and now = now]
    have d: "Allowed d" "Cacheable d" using allow by (auto simp: revoking_def)
    show ?thesis
    proof (cases "a_observe a k d s at now = ?a")
      case True
      then show ?thesis using raised by simp
    next
      case False
      then have stored: "a_observe a k d s at now = a_put ?e ?a" "a_flush a \<le> s" "cover a k \<le> s"
        "a_fresh ?a \<lparr>key = k, live = True, decision = d, asked = at, guard = 0\<rparr> now"
        using allow d by (auto simp: a_observe_def Let_def cover_def split: if_splits)
      obtain t1 t2 where t: "t = t2 @ EStart j k at # t1" "unat s = ticks t1" using inv_pending [OF i pj] by blast
      have fl: "flushed t \<le> ticks t1" "unat (cover a k) \<le> ticks t1"
        using stored(2,3) inv_open(2) [OF i allow(3)] t(2) by (simp_all add: word_le_nat_alt)
      have "top_revision ?t \<le> PolicyRevision d"
        using stored(4) inv_open(3) [OF raised] allow(3) by (simp add: a_fresh_def Let_def)
      moreover have "denied k ?t \<le> ticks t1" "flushed ?t \<le> ticks t1"
        unfolding obs using fl inv_open(5) [OF i allow(3), of k] allow(2) by auto
      ultimately have "sourced ?t ?e" using d by (intro new_sourced [OF t(1)]) simp_all
      from inv_put [OF raised _ this] show ?thesis unfolding stored(1) using allow(3) by (simp add: a_guard_raise)
    qed
  qed
qed

section \<open>Every run keeps the invariant\<close>

definition bounded :: "nat \<Rightarrow> duration \<Rightarrow> acache \<Rightarrow> bool" where
  "bounded n ttl a \<longleftrightarrow> a_max a = n \<and> a_ttl a = ttl \<and> length (a_items a) \<le> n"

lemma a_remove_length: "a_find k es = Some e \<Longrightarrow> length (a_remove k es) < length es"
  by (induction es) (auto simp: a_find_def a_remove_def less_Suc_eq_le split: if_splits)

lemma a_bound_bounded: "a_max a = n \<Longrightarrow> a_ttl a = ttl \<Longrightarrow> bounded n ttl (a_bound a)"
  by (simp add: bounded_def a_bound_def)

lemma a_put_bounded: "a_max a = n \<Longrightarrow> a_ttl a = ttl \<Longrightarrow> bounded n ttl (a_put e a)"
  by (simp add: a_put_def a_bound_bounded)

lemma a_raise_bounded: "bounded n ttl a \<Longrightarrow> bounded n ttl (a_raise r a)"
  by (simp add: bounded_def a_raise_def)

lemma a_observe_bounded: "bounded n ttl a \<Longrightarrow> bounded n ttl (a_observe a k d st at now)"
  using a_raise_bounded [of n ttl a]
  by (auto simp: a_observe_def Let_def intro!: a_put_bounded) (simp_all add: bounded_def)

lemma a_get_bounded: "bounded n ttl a \<Longrightarrow> a_get a k now = (a', r) \<Longrightarrow> bounded n ttl a'"
  using a_remove_length [of k "a_items a"]
  by (auto simp: a_get_def bounded_def split: option.splits if_splits dest!: Suc_leI intro: le_trans)

lemma a_invalidate_bounded: "bounded n ttl a \<Longrightarrow> bounded n ttl (a_invalidate a)"
  by (simp add: a_invalidate_def bounded_def)

lemma a_close_bounded: "bounded n ttl a \<Longrightarrow> bounded n ttl (a_close a)"
  by (simp add: a_close_def bounded_def)

lemma inv_init: "cache_inv [] (a_init n ttl) Map.empty"
  by (simp add: cache_inv_def a_init_def)

lemma run_invariant:
  assumes "run c0 t c p" and "NewCachedClient cl n ttl = Inr c0" and "length t < 2 ^ 64"
  shows "rep c \<and> bounded (maxEntries c0) (maxTTL c0) (abs_cache c) \<and> cache_inv t (abs_cache c) p"
  using assms(1,3)
proof (induction rule: run.induct)
  case init
  then show ?case using New_refines [OF assms(2)] inv_init by (simp add: bounded_def a_init_def)
next
  case (start t c p now s at i k)
  then show ?case using inv_start [of t "abs_cache c" p i k at] by (auto simp: stamp_def simp del: fun_upd_apply)
next
  case (answer t c p i k s at d now)
  then have ih: "rep c" "bounded (maxEntries c0) (maxTTL c0) (abs_cache c)" "cache_inv t (abs_cache c) p" by simp_all
  have "Suc (ticks t) < 2 ^ 64" using ticks_le [of t] answer.prems by simp
  from inv_answer [OF ih(3) this answer.hyps(2)] show ?case
    using observe_refines [OF ih(1)] a_observe_bounded [OF ih(2)] by (simp del: fun_upd_apply)
next
  case (serve t c p k now c' d)
  then have ih: "rep c" "bounded (maxEntries c0) (maxTTL c0) (abs_cache c)" "cache_inv t (abs_cache c) p" by simp_all
  have g: "rep c'" "a_get (abs_cache c) k now = (abs_cache c', Some d)"
    using get_refines [OF ih(1), of k now] serve.hyps(2) by simp_all
  show ?case using g inv_get [OF ih(3) g(2)] a_get_bounded [OF ih(2) g(2)] by (simp add: silent_def)
next
  case (miss t c p k now c')
  then have ih: "rep c" "bounded (maxEntries c0) (maxTTL c0) (abs_cache c)" "cache_inv t (abs_cache c) p" by simp_all
  have g: "rep c'" "a_get (abs_cache c) k now = (abs_cache c', None)"
    using get_refines [OF ih(1), of k now] miss.hyps(2) by simp_all
  show ?case using g inv_get [OF ih(3) g(2)] a_get_bounded [OF ih(2) g(2)] by (simp add: silent_def)
next
  case (flush t c p)
  then have ih: "rep c" "bounded (maxEntries c0) (maxTTL c0) (abs_cache c)" "cache_inv t (abs_cache c) p" by simp_all
  have "Suc (ticks t) < 2 ^ 64" using ticks_le [of t] flush.prems by simp
  from inv_flush [OF ih(3) this] show ?case
    using InvalidateAll_refines [OF ih(1)] a_invalidate_bounded [OF ih(2)] by simp
next
  case (close t c p)
  then have ih: "rep c" "bounded (maxEntries c0) (maxTTL c0) (abs_cache c)" "cache_inv t (abs_cache c) p" by simp_all
  show ?case using inv_close [OF ih(3)] Close_refines [OF ih(1)] a_close_bounded [OF ih(2)] by simp
qed

section \<open>What a served decision guarantees\<close>

lemma a_get_served:
  assumes "a_get a k now = (a', Some d)"
  shows "\<exists>e \<in> set (a_items a). key e = k \<and> live e \<and> decision e = d \<and> a_fresh a e now \<and> \<not> a_closed a"
  using assms by (auto simp: a_get_def dest!: a_find_mem split: option.splits if_splits)

lemma sourced_split:
  assumes "sourced t e" and "EClose \<notin> set t"
  obtains i t1 t2 w where "t = t2 @ EStart i (key e) (asked e) # t1" and "EAnswer i (key e) (decision e) w \<in> set t2"
    and "EFlush \<notin> set t2" and "\<And>j d w. EAnswer j (key e) d w \<in> set t2 \<Longrightarrow> \<not> revoking d"
proof -
  obtain i t1 t2 w where t: "t = t2 @ EStart i (key e) (asked e) # t1" "EAnswer i (key e) (decision e) w \<in> set t2"
    "denied (key e) t \<le> ticks t1" "flushed t \<le> ticks t1"
    using assms(1) unfolding sourced_def by blast
  let ?s = "EStart i (key e) (asked e) # t1"
  have le: "ticks t1 \<le> ticks ?s" using ticks_append [of t1 "[EStart i (key e) (asked e)]"] by simp
  have "EFlush \<notin> set t2" using no_flush_since [of t2 ?s] t(1,4) le assms(2) by simp
  moreover have "\<not> revoking d" if "EAnswer j (key e) d w \<in> set t2" for j d w
    using no_denial_since [OF _ _ that, of ?s] t(1,3) le assms(2) by simp
  ultimately show thesis using that t(1,2) by blast
qed

text \<open>
  C1. A decision served from the cache, in any interleaving of calls, invalidations and
  closing, is the cacheable allow that the policy decision point gave to some call for the
  same key; since that call was started nobody invalidated the cache and no verdict for the
  key was anything but a cacheable allow; no verdict for any key has a higher policy
  revision; the cache is open; and the decision is served before its own expiry and less than
  the configured lifetime (at most 30 seconds) after its call was sent.
\<close>

theorem served_is_current:
  assumes "NewCachedClient cl n ttl = Inr c0" and "run c0 (EServe k d now # t) c p" and "length t < 2 ^ 64"
  shows "EClose \<notin> set t \<and> Allowed d \<and> Cacheable d \<and> now < ExpiresAt d \<and>
    (\<forall>j k' d' w. EAnswer j k' d' w \<in> set t \<longrightarrow> \<not> Decision_Local d' \<longrightarrow> PolicyRevision d' \<le> PolicyRevision d) \<and>
    (\<exists>i at t1 t2 w. t = t2 @ EStart i k at # t1 \<and> EAnswer i k d w \<in> set t2 \<and> EFlush \<notin> set t2 \<and>
       (\<forall>j d' w. EAnswer j k d' w \<in> set t2 \<longrightarrow> \<not> revoking d') \<and>
       at \<le> now \<and> now - at < maxTTL c0 \<and> maxTTL c0 \<le> DefaultCacheTTL)"
proof -
  obtain c1 where c1: "run c0 t c1 p" "get c1 k now = (c, Some d)" using assms(2) by (auto elim: run_serveE)
  note i = run_invariant [OF c1(1) assms(1,3)]
  have "a_get (abs_cache c1) k now = (abs_cache c, Some d)" using get_refines [of c1 k now] c1(2) i by simp
  then obtain e where e: "e \<in> set (a_items (abs_cache c1))" "key e = k" "live e" "decision e = d"
    "a_fresh (abs_cache c1) e now" "\<not> a_closed (abs_cache c1)" using a_get_served by blast
  have src: "sourced t e" "EClose \<notin> set t" using inv_open(4,6) [OF _ e(6)] i e by blast+
  have ttl: "a_ttl (abs_cache c1) = maxTTL c0" "0 < maxTTL c0" "maxTTL c0 \<le> DefaultCacheTTL"
    using i New_refines [OF assms(1)] by (simp_all add: bounded_def)
  have age: "asked e \<le> now" "now - asked e < maxTTL c0" "now < ExpiresAt d"
    using e(4,5) ttl time_sub_nonneg [of now "asked e"] time_sub_less [of "maxTTL c0" now "asked e"]
    by (auto simp: a_fresh_def Let_def DefaultCacheTTL_def second_def min_duration_def max_duration_def)
  have wm: "top_revision t \<le> PolicyRevision d" "Allowed d" "Cacheable d"
    using src(1) e(4) by (simp_all add: sourced_def)
  have "PolicyRevision d' \<le> PolicyRevision d" if "EAnswer j k' d' w \<in> set t" "\<not> Decision_Local d'" for j k' d' w
    using revision_bound [OF src(2) that] wm(1) by simp
  moreover obtain i t1 t2 w where "t = t2 @ EStart i k (asked e) # t1" "EAnswer i k d w \<in> set t2" "EFlush \<notin> set t2"
    "\<And>j d' w. EAnswer j k d' w \<in> set t2 \<Longrightarrow> \<not> revoking d'"
    using sourced_split [OF src] unfolding e(2,4) by metis
  ultimately show ?thesis using src(2) wm age ttl(3) by blast
qed

definition sample_client :: Client where
  "sample_client = \<lparr>single = ''https://pdp/a'', batch = ''https://pdp/b'', has_http = True, service = ''x'',
     timeout = second, has_now = True\<rparr>"

definition sample_allow :: "int \<Rightarrow> Decision" where
  "sample_allow r = FromWire
     \<lparr>w_Allowed = True, w_Reason = AllowedByRole, w_DecisionID = [], w_PrincipalID = [], w_Organization = [],
      w_HasOrg = False, w_PolicyRevision = word_of_int r, w_ExpiresAt = 100, w_Cacheable = True,
      w_Obligations = zero_Obligations\<rparr>"

definition sample_cache :: cache where
  "sample_cache = (case NewCachedClient (Some sample_client) 2 0 of Inr c \<Rightarrow> c | Inl _ \<Rightarrow> undefined)"

lemma sample_cache_new: "NewCachedClient (Some sample_client) 2 0 = Inr sample_cache"
  by (simp add: sample_cache_def NewCachedClient_def sample_client_def ready_def DefaultCacheTTL_def second_def)

lemma sample_run:
  "run sample_cache [EServe ''k'' (sample_allow 3) 9, EAnswer 0 ''k'' (sample_allow 3) 5, EStart 0 ''k'' 4]
     (fst (get (observe sample_cache ''k'' (sample_allow 3) 0 4 5) ''k'' 9)) (Map.empty(0 := None))"
proof -
  have a: "run sample_cache [EStart 0 ''k'' 4] sample_cache [0 \<mapsto> (''k'', 0, 4)]"
    by (rule run.start [OF run.init, where now = 4]) (simp add: stamp_def sample_cache_def NewCachedClient_def
      sample_client_def ready_def DefaultCacheTTL_def second_def)
  have b: "run sample_cache [EAnswer 0 ''k'' (sample_allow 3) 5, EStart 0 ''k'' 4]
      (observe sample_cache ''k'' (sample_allow 3) 0 4 5) ([0 \<mapsto> (''k'', 0, 4)](0 := None))"
    by (rule run.answer [OF a]) simp
  have "snd (get (observe sample_cache ''k'' (sample_allow 3) 0 4 5) ''k'' 9) = Some (sample_allow 3)"
    by code_simp
  then show ?thesis using run.serve [OF b, of "''k''" 9] by (metis fun_upd_upd prod.collapse)
qed

theorem served_is_current_witness:
  "Allowed (sample_allow 3) \<and> (9 :: int) < ExpiresAt (sample_allow 3)"
  using served_is_current [OF sample_cache_new sample_run] by simp

text \<open>
  C20. In any interleaving the cache stays within its configured number of entries, tombstones
  included, and \<open>Len\<close> is the number of allows it holds, of which there is at most one per key.
\<close>

theorem cache_stays_bounded:
  assumes "NewCachedClient cl n ttl = Inr c0" and "run c0 t c p" and "length t < 2 ^ 64"
  shows "length (lru c) \<le> maxEntries c0 \<and> Len c = int (length (filter live (map (values c) (lru c)))) \<and>
    distinct (map key (map (values c) (lru c)))"
  using run_invariant [OF assms(2,1,3)] rep_keys_distinct [of c]
  by (auto simp: bounded_def rep_def Len_def live_count_def filter_map comp_def)

theorem cache_stays_bounded_witness:
  "length (lru (fst (get (observe sample_cache ''k'' (sample_allow 3) 0 4 5) ''k'' 9))) \<le> maxEntries sample_cache"
  using cache_stays_bounded [OF sample_cache_new sample_run] by simp

end
