(* ===== verification/Pep_Cached.thy ===== *)
theory Pep_Cached
  imports Pep_Cache_Trace
begin

text \<open>
  pep/cache.go: the two calls of a cached client, composed from the operations under the
  mutex, the stamps and the calls of the wrapped client. The mutex is free between two
  sections of a call: what the other callers do there, the clock readings of the call and what
  the network answers it are parameters.
\<close>

section \<open>The key\<close>

text \<open>\<open>qt\<close> is \<open>strconv.Quote\<close> and \<open>sha\<close> is \<open>sha256.Sum256\<close>.\<close>

definition key_text :: "(string \<Rightarrow> string) \<Rightarrow> Request \<Rightarrow> bytes" where
  "key_text qt r =
     join '','' (map qt [PrincipalReference r, Action r, ResourceType r, ResourceKey r, OrganizationID r])"

definition cacheKey :: "(string \<Rightarrow> string) \<Rightarrow> (bytes \<Rightarrow> key) \<Rightarrow> Request \<Rightarrow> key" where
  "cacheKey qt sha r = sha (key_text qt r)"

section \<open>The other callers\<close>

text \<open>
  A section of another call that changes the cache. The stamp and the times of an
  \<open>OpObserve\<close> are whatever that call took earlier.
\<close>

datatype cache_op =
    OpGet key instant
  | OpObserve key Decision u64 instant instant
  | OpInvalidateAll
  | OpClose

fun perform :: "cache_op \<Rightarrow> cache \<Rightarrow> cache" where
  "perform (OpGet k now) c = fst (get c k now)"
| "perform (OpObserve k d s at now) c = observe c k d s at now"
| "perform OpInvalidateAll c = fst (InvalidateAll c)"
| "perform OpClose c = Close c"

abbreviation others :: "cache_op list \<Rightarrow> cache \<Rightarrow> cache" where
  "others ops \<equiv> fold perform ops"

text \<open>
  One question to the policy decision point, and one call: the operations of the other
  callers before each of its sections, its clock readings and its network. Sections that
  happen once per request take the index of the request.
\<close>

record ask_env =
  before_stamp :: "cache_op list"
  stamp_at :: instant
  pdp :: env
  before_observe :: "nat \<Rightarrow> cache_op list"
  observe_at :: "nat \<Rightarrow> instant"

record call_env =
  before_get :: "nat \<Rightarrow> cache_op list"
  get_at :: "nat \<Rightarrow> instant"
  ask_misses :: ask_env
  before_check :: "cache_op list"
  ask_hits :: ask_env

section \<open>One question\<close>

definition Cached_Decide ::
  "(Request \<Rightarrow> key) \<Rightarrow> call_env \<Rightarrow> cache \<Rightarrow> Request \<Rightarrow> cache \<times> Decision" where
  "Cached_Decide kf e c req =
     (let q = ask_misses e in
      if \<not> cache_ready c then (c, deny (fail NotConfigured))
      else if ctx (pdp q) = None \<or> \<not> Request_valid req then (c, deny (fail LocalInvalid))
      else
        (case get (others (before_get e 0) c) (kf req) (get_at e 0) of
           (c1, Some d) \<Rightarrow> (c1, d)
         | (c1, None) \<Rightarrow>
             (let c2 = others (before_stamp q) c1; (s, at) = stamp c2 (stamp_at q);
                  d = Decide (client c2) (pdp q) req; c3 = others (before_observe q 0) c2
              in (observe c3 (kf req) d s at (observe_at q 0), d))))"

section \<open>A batch\<close>

text \<open>The first loop of \<open>DecideBatch\<close>: what the cache has for each request.\<close>

fun scan :: "(Request \<Rightarrow> key) \<Rightarrow> call_env \<Rightarrow> nat \<Rightarrow> cache \<Rightarrow> Request list \<Rightarrow> cache \<times> Decision option list" where
  "scan kf e i c [] = (c, [])"
| "scan kf e i c (r # rs) =
     (let (c1, d) = get (others (before_get e i) c) (kf r) (get_at e i); (c2, ds) = scan kf e (Suc i) c1 rs in (c2, d # ds))"

text \<open>The last loop of \<open>ask\<close>.\<close>

fun record_answers ::
  "u64 \<Rightarrow> instant \<Rightarrow> ask_env \<Rightarrow> key list \<Rightarrow> (nat \<times> Decision) list \<Rightarrow> cache \<times> Decision list \<Rightarrow>
     cache \<times> Decision list" where
  "record_answers s at q keys [] (c, out) = (c, out)"
| "record_answers s at q keys ((i, d) # ans) (c, out) =
     record_answers s at q keys ans
       (observe (others (before_observe q i) c) (keys ! i) d s at (observe_at q i), out[i := d])"

definition ask ::
  "ask_env \<Rightarrow> Request list \<Rightarrow> key list \<Rightarrow> nat list \<Rightarrow> cache \<times> Decision list \<Rightarrow> cache \<times> (Error + Decision list)" where
  "ask q reqs keys idx st =
     (let c = others (before_stamp q) (fst st); (s, at) = stamp c (stamp_at q);
          got = DecideBatch (client c) (pdp q) (map ((!) reqs) idx)
      in case find Decision_Local got of
           Some d \<Rightarrow> (c, Inl (case Err d of Some (PepError er) \<Rightarrow> er | _ \<Rightarrow> fail NoDecision))
         | None \<Rightarrow> (let (c', out) = record_answers s at q keys (zip idx got) (c, snd st) in (c', Inr out)))"

definition hits :: "Decision option list \<Rightarrow> nat list" where
  "hits found = filter (\<lambda>i. found ! i \<noteq> None) [0..<length found]"

definition misses :: "Decision option list \<Rightarrow> nat list" where
  "misses found = filter (\<lambda>i. found ! i = None) [0..<length found]"

definition found_or_zero :: "Decision option list \<Rightarrow> Decision list" where
  "found_or_zero found = map (\<lambda>d. case d of Some d \<Rightarrow> d | None \<Rightarrow> zero_Decision) found"

definition Cached_DecideBatch ::
  "(Request \<Rightarrow> key) \<Rightarrow> call_env \<Rightarrow> cache \<Rightarrow> Request list \<Rightarrow> cache \<times> Decision list" where
  "Cached_DecideBatch kf e c reqs =
     (if reqs = [] then (c, [])
      else if \<not> cache_ready c then (c, denyAll (fail NotConfigured) (length reqs))
      else if ctx (pdp (ask_misses e)) = None \<or> length reqs > MaxBatch then (c, denyAll (fail LocalInvalid) (length reqs))
      else if \<not> list_all Request_valid reqs then (c, denyAll (fail LocalInvalid) (length reqs))
      else
        (let keys = map kf reqs; (c1, found) = scan kf e 0 c reqs; out = found_or_zero found
         in case (if misses found \<noteq> [] then ask (ask_misses e) reqs keys (misses found) (c1, out) else (c1, Inr out)) of
              (c2, Inl er) \<Rightarrow> (c2, denyAll er (length reqs))
            | (c2, Inr out2) \<Rightarrow>
                (let c3 = others (before_check e) c2 in
                 if belowWatermark c3 out2 (hits found)
                 then (case ask (ask_hits e) reqs keys (hits found) (c3, out2) of
                         (c4, Inl er) \<Rightarrow> (c4, denyAll er (length reqs))
                       | (c4, Inr out3) \<Rightarrow> (c4, out3))
                 else (c3, out2))))"

section \<open>The key separates questions\<close>

text \<open>The characters of the checked fields of a valid request.\<close>

definition ident_class :: "(nat \<times> nat) list" where
  "ident_class =
     [upper, lower, digit, cone CHR ''.'', cone CHR ''_'', cone CHR ''~'', cone CHR ''-'', cone CHR '':'',
      cone CHR ''/'', cone CHR ''*'']"

definition field_text :: "string \<Rightarrow> bool" where
  "field_text s = list_all (in_class ident_class) s"

lemma field_textI:
  assumes "matches r s" and "set (classes r) \<subseteq> set ident_class"
  shows "field_text s"
  using matches_classes [OF assms(1)] assms(2)
  by (fastforce simp: field_text_def list_all_iff in_class_def list_ex_iff)

lemma nest_classes: "set (classes (nest n)) \<subseteq> insert (cone CHR ''/'') (set (classes group))"
  by (induction n) (auto simp: lit_def cone_def)

lemma pattern_classes:
  "set (classes principalReferenceRE) \<subseteq> set ident_class"
  "set (classes actionPattern) \<subseteq> set ident_class"
  "set (classes otherKeyRE) \<subseteq> set ident_class"
  "set (classes SchemaPattern) \<subseteq> set ident_class"
  using nest_classes [of "MaxSegments - 2"]
  by (auto simp: principalReferenceRE_def actionPattern_def otherKeyRE_def SchemaPattern_def body_def group_def
      last_segment_def lower_digit_def slug_char_def ident_class_def lit_def cone_def Let_def)

lemma valid_fields:
  assumes "Request_valid r"
  shows "field_text (PrincipalReference r)" "field_text (Action r)" "field_text (ResourceType r)"
    "field_text (ResourceKey r)"
proof -
  show "field_text (PrincipalReference r)" "field_text (Action r)"
    using assms pattern_classes(1,2) by (auto simp: Request_valid_def intro: field_textI split: if_splits)
  show "field_text (ResourceKey r)"
    using assms pattern_classes(3,4)
    by (auto simp: Request_valid_def Repokey.Valid_def intro: field_textI split: if_splits)
  have "ResourceType r \<in> set resourceTypes" using assms by (auto simp: Request_valid_def split: if_splits)
  then show "field_text (ResourceType r)"
    by (auto simp: resourceTypes_def field_text_def in_class_def ident_class_def crange_def cone_def)
qed

lemma field_no_comma: "field_text s \<Longrightarrow> CHR '','' \<notin> set s"
  by (auto simp: field_text_def list_all_iff in_class_def ident_class_def crange_def cone_def)

lemma first_comma:
  assumes "CHR '','' \<notin> set x" and "CHR '','' \<notin> set y" and "x @ '','' @ u = y @ '','' @ v"
  shows "x = y \<and> u = v"
  using assms by (induction x y rule: list_induct2') auto

text \<open>
  C18. The cache key separates questions. Let \<open>strconv.Quote\<close> be injective and put plain
  quotes around a text of identifier characters, and let \<open>sha\<close> not collide on the two
  texts at hand: then two valid requests with the same key ask about the same principal
  reference, action, resource type, resource key and organization.
\<close>

theorem cacheKey_separates:
  assumes "inj qt" and "\<And>s. field_text s \<Longrightarrow> qt s = [CHR 0x22] @ s @ [CHR 0x22]"
    and "sha (key_text qt q) = sha (key_text qt r) \<Longrightarrow> key_text qt q = key_text qt r"
    and "Request_valid q" and "Request_valid r" and "cacheKey qt sha q = cacheKey qt sha r"
  shows "q\<lparr>RequestID := x\<rparr> = r\<lparr>RequestID := x\<rparr>"
proof -
  have eq: "key_text qt q = key_text qt r" using assms(3,6) by (simp add: cacheKey_def)
  have nc: "CHR '','' \<notin> set (qt s)" if "field_text s" for s
    using field_no_comma [OF that] assms(2) [OF that] by simp
  note q = valid_fields [OF assms(4)] and r = valid_fields [OF assms(5)]
  from eq have "qt (PrincipalReference q) = qt (PrincipalReference r) \<and> qt (Action q) = qt (Action r) \<and>
      qt (ResourceType q) = qt (ResourceType r) \<and> qt (ResourceKey q) = qt (ResourceKey r) \<and>
      qt (OrganizationID q) = qt (OrganizationID r)"
    unfolding key_text_def list.map join.simps
    using first_comma [OF nc [OF q(1)] nc [OF r(1)]] first_comma [OF nc [OF q(2)] nc [OF r(2)]]
      first_comma [OF nc [OF q(3)] nc [OF r(3)]] first_comma [OF nc [OF q(4)] nc [OF r(4)]] by metis
  then show ?thesis using assms(1) by (cases q; cases r) (auto dest: injD)
qed

section \<open>The caches a program can have\<close>

text \<open>
  The wrapped client gave \<open>d\<close> for \<open>q\<close>, in a single call or as its item of a batch;
  \<open>keyed\<close>: for some request with the given key.
\<close>

definition answered :: "Client option \<Rightarrow> Request \<Rightarrow> Decision \<Rightarrow> bool" where
  "answered cl q d \<longleftrightarrow>
     (\<exists>e. d = Decide cl e q) \<or> (\<exists>e qs i. i < length qs \<and> q = qs ! i \<and> d = DecideBatch cl e qs ! i)"

definition keyed :: "(Request \<Rightarrow> key) \<Rightarrow> Client option \<Rightarrow> key \<Rightarrow> Decision \<Rightarrow> bool" where
  "keyed kf cl k d \<longleftrightarrow> (\<exists>q. kf q = k \<and> answered cl q d)"

text \<open>The other callers hand over what the wrapped client gave them.\<close>

fun op_ok :: "(Request \<Rightarrow> key) \<Rightarrow> Client option \<Rightarrow> cache_op \<Rightarrow> bool" where
  "op_ok kf cl (OpObserve k d s at now) = keyed kf cl k d"
| "op_ok kf cl _ = True"

definition ops_ok :: "(Request \<Rightarrow> key) \<Rightarrow> Client option \<Rightarrow> cache_op list \<Rightarrow> bool" where
  "ops_ok kf cl ops = list_all (op_ok kf cl) ops"

definition ask_ok :: "(Request \<Rightarrow> key) \<Rightarrow> Client option \<Rightarrow> ask_env \<Rightarrow> bool" where
  "ask_ok kf cl q \<longleftrightarrow> ops_ok kf cl (before_stamp q) \<and> (\<forall>i. ops_ok kf cl (before_observe q i))"

definition call_ok :: "(Request \<Rightarrow> key) \<Rightarrow> Client option \<Rightarrow> call_env \<Rightarrow> bool" where
  "call_ok kf cl e \<longleftrightarrow>
     (\<forall>i. ops_ok kf cl (before_get e i)) \<and> ask_ok kf cl (ask_misses e) \<and> ops_ok kf cl (before_check e) \<and> ask_ok kf cl (ask_hits e)"

inductive reached :: "(Request \<Rightarrow> key) \<Rightarrow> cache \<Rightarrow> bool" for kf :: "Request \<Rightarrow> key" where
  reached_new: "NewCachedClient cl n ttl = Inr c \<Longrightarrow> reached kf c"
| reached_op: "reached kf c \<Longrightarrow> op_ok kf (client c) op \<Longrightarrow> reached kf (perform op c)"

lemma answered_wf: "answered cl q d \<Longrightarrow> wf_decision d"
  unfolding answered_def by (metis Decide_wf DecideBatch_length DecideBatch_uniform nth_mem uniform_wf)

lemma keyed_wf: "keyed kf cl k d \<Longrightarrow> wf_decision d"
  by (auto simp: keyed_def dest: answered_wf)

lemma keyed_Decide: "keyed kf cl (kf q) (Decide cl e q)"
  by (auto simp: keyed_def answered_def)

lemma keyed_item: "i < length qs \<Longrightarrow> keyed kf cl (kf (qs ! i)) (DecideBatch cl e qs ! i)"
  unfolding keyed_def answered_def by blast

subsection \<open>What every section keeps\<close>

lemma kill_client [simp]: "client (kill el c) = client c"
  by (simp add: kill_def)

lemma evict_client [simp]: "client (evict c) = client c"
  by (simp add: evict_def Let_def)

lemma bound_client [simp]: "client (bound c) = client c"
  by (induction c rule: bound.induct) (subst bound.simps, simp)

lemma fold_kill_client: "client (fold (\<lambda>el c. if below r (values c el) then kill el c else c) els c) = client c"
  by (induction els arbitrary: c) auto

lemma raise_client [simp]: "client (raise_watermark r c) = client c"
  by (simp add: raise_watermark_def fold_kill_client)

lemma ensure_client: "ensure k c = (el, c1) \<Longrightarrow> client c1 = client c"
  by (auto simp: ensure_def insert_entry_def Let_def split: option.splits)

lemma observe_client [simp]: "client (observe c k d s at now) = client c"
proof -
  obtain el1 c1 where e1: "ensure k ((raise_watermark (PolicyRevision d) c)\<lparr>seq := seq (raise_watermark (PolicyRevision d) c) + 1\<rparr>) = (el1, c1)"
    by fastforce
  obtain el2 c2 where e2: "ensure k (raise_watermark (PolicyRevision d) c) = (el2, c2)" by fastforce
  show ?thesis using ensure_client [OF e1] ensure_client [OF e2]
    by (simp add: observe_def bury_def store_def MoveToFront_def Let_def e1 e2)
qed

lemma get_keeps:
  assumes "get c k now = (c', r)"
  shows "watermark c' = watermark c" "closed c' = closed c" "client c' = client c" "r = Some d \<Longrightarrow> \<not> closed c"
  using assms by (auto simp: get_def kill_def MoveToFront_def split: option.splits if_splits)

lemma perform_client [simp]: "client (perform op c) = client c"
  using get_keeps(3) [OF prod.collapse [symmetric]]
  by (cases op) (auto simp: InvalidateAll_def Close_def clear_def)

lemma others_client [simp]: "client (others ops c) = client c"
  by (induction ops arbitrary: c) auto

lemma observe_marks:
  assumes "rep c" and "\<not> Decision_Local d"
  shows "watermark (observe c k d s at now) = (if closed c then watermark c else max (PolicyRevision d) (watermark c))"
    and "closed (observe c k d s at now) = closed c"
proof -
  have a: "abs_cache (observe c k d s at now) = a_observe (abs_cache c) k d s at now"
    using observe_refines [OF assms(1)] by simp
  have "a_mark (a_observe (abs_cache c) k d s at now) = (if closed c then watermark c else max (PolicyRevision d) (watermark c))"
    "a_closed (a_observe (abs_cache c) k d s at now) = closed c"
    using assms by (simp_all add: a_observe_def Let_def a_raise_mark)
  then show "watermark (observe c k d s at now) = (if closed c then watermark c else max (PolicyRevision d) (watermark c))"
    "closed (observe c k d s at now) = closed c"
    using arg_cong [OF a, of a_mark] arg_cong [OF a, of a_closed] by simp_all
qed

text \<open>The invariant: a live entry is an answer of the wrapped client for the key of the entry.\<close>

definition cache_ok :: "(Request \<Rightarrow> key) \<Rightarrow> cache \<Rightarrow> bool" where
  "cache_ok kf c \<longleftrightarrow>
     rep c \<and> (\<forall>x \<in> set (a_items (abs_cache c)). live x \<longrightarrow> keyed kf (client c) (key x) (decision x))"

lemma a_observe_items:
  assumes "x \<in> set (a_items (a_observe a k d st at now))" and "live x"
  shows "x \<in> set (a_items a) \<or> key x = k \<and> decision x = d"
proof -
  have r: "x \<in> set (a_items (a_raise (PolicyRevision d) a)) \<Longrightarrow> x \<in> set (a_items a)" using a_raise_items assms(2) by blast
  show ?thesis using assms a_tomb_dead r
    by (auto simp: a_observe_def Let_def split: if_splits dest!: a_put_items)
qed

lemma perform_ok:
  assumes "cache_ok kf c" and "op_ok kf (client c) op"
  shows "cache_ok kf (perform op c)"
proof -
  have r: "rep c" and items: "\<And>x. x \<in> set (a_items (abs_cache c)) \<Longrightarrow> live x \<Longrightarrow> keyed kf (client c) (key x) (decision x)"
    using assms(1) by (auto simp: cache_ok_def)
  show ?thesis
  proof (cases op)
    case (OpGet k now)
    then have a: "rep (perform op c)"
      "\<And>x. x \<in> set (a_items (abs_cache (perform op c))) \<Longrightarrow> live x \<Longrightarrow> x \<in> set (a_items (abs_cache c))"
      using get_refines(1) [OF r] a_get_effect(6) [OF get_refines(2) [OF r]] by simp_all
    show ?thesis unfolding cache_ok_def perform_client using a items by blast
  next
    case (OpObserve k d s at now)
    have a: "rep (perform op c)" "abs_cache (perform op c) = a_observe (abs_cache c) k d s at now"
      using observe_refines [OF r] OpObserve by simp_all
    show ?thesis unfolding cache_ok_def a(2) perform_client
      using a(1) a_observe_items items assms(2) OpObserve by fastforce
  next
    case OpInvalidateAll
    then show ?thesis using InvalidateAll_refines [OF r] items perform_client [of op c]
      by (auto simp: cache_ok_def a_invalidate_def split: if_splits)
  next
    case OpClose
    then show ?thesis using Close_refines [OF r] by (simp add: cache_ok_def a_close_def)
  qed
qed

lemma reached_ok: "reached kf c \<Longrightarrow> cache_ok kf c"
proof (induction rule: reached.induct)
  case (reached_new cl n ttl c)
  then show ?case using New_refines by (auto simp: cache_ok_def a_init_def)
qed (rule perform_ok)

lemma reached_rep: "reached kf c \<Longrightarrow> rep c"
  by (simp add: reached_ok [unfolded cache_ok_def])

lemma reached_get: "reached kf c \<Longrightarrow> get c k now = (c', r) \<Longrightarrow> reached kf c'"
  using reached_op [of kf c "OpGet k now"] by simp

lemma reached_hit:
  assumes "reached kf c" and "get c k now = (c', Some d)"
  shows "keyed kf (client c) k d"
proof -
  have "a_get (abs_cache c) k now = (abs_cache c', Some d)"
    using get_refines(2) [OF reached_rep [OF assms(1)], of k now] assms(2) by simp
  from a_get_served [OF this] reached_ok [OF assms(1)] show ?thesis by (auto simp: cache_ok_def)
qed

lemma reached_observe: "reached kf c \<Longrightarrow> keyed kf (client c) k d \<Longrightarrow> reached kf (observe c k d s at now)"
  using reached_op [of kf c "OpObserve k d s at now"] by simp

lemma reached_others: "reached kf c \<Longrightarrow> ops_ok kf (client c) ops \<Longrightarrow> reached kf (others ops c)"
  by (induction ops arbitrary: c) (auto simp: ops_ok_def reached_op)

lemma marks_observe:
  assumes "reached kf c"
  shows "watermark c \<le> watermark (observe c k d s at now)" "closed (observe c k d s at now) = closed c"
  using observe_marks [OF reached_rep [OF assms]] by (cases "Decision_Local d"; simp add: observe_def)+

lemma marks_others:
  "reached kf c \<Longrightarrow> ops_ok kf (client c) ops \<Longrightarrow> OpClose \<notin> set ops \<Longrightarrow>
     watermark c \<le> watermark (others ops c) \<and> closed (others ops c) = closed c"
proof (induction ops arbitrary: c)
  case (Cons op ops)
  have "watermark c \<le> watermark (perform op c) \<and> closed (perform op c) = closed c"
    using Cons.prems(1,3) marks_observe get_keeps(1,2) [OF prod.collapse [symmetric]]
    by (cases op) (auto simp: InvalidateAll_def clear_def)
  moreover have "reached kf (perform op c)" using Cons.prems by (intro reached_op) (auto simp: ops_ok_def)
  ultimately show ?case using Cons.IH [of "perform op c"] Cons.prems by (auto simp: ops_ok_def)
qed simp

subsection \<open>The sections of a call\<close>

lemma scan_reached:
  "reached kf c \<Longrightarrow> \<forall>j. ops_ok kf (client c) (before_get e j) \<Longrightarrow> scan kf e i c reqs = (c', found) \<Longrightarrow>
     reached kf c' \<and> client c' = client c \<and>
     list_all2 (\<lambda>r x. \<forall>d. x = Some d \<longrightarrow> keyed kf (client c) (kf r) d) reqs found"
proof (induction kf e i c reqs arbitrary: c' found rule: scan.induct)
  case (2 kf e i c r rs)
  let ?c = "others (before_get e i) c"
  obtain c1 x where g: "get ?c (kf r) (get_at e i) = (c1, x)" by fastforce
  obtain c2 ds where s: "scan kf e (Suc i) c1 rs = (c2, ds)" by fastforce
  have eq: "c' = c2" "found = x # ds" using 2(4) by (simp_all add: g s)
  have c: "reached kf ?c" using reached_others 2(2,3) by blast
  have c1: "client c1 = client c" "reached kf c1" using get_keeps(3) [OF g] reached_get [OF c g] by simp_all
  from 2(1) [OF g [symmetric] refl c1(2) _ s] c1(1) 2(3) reached_hit [OF c] g show ?case by (auto simp: eq)
qed auto

lemma scan_open:
  "reached kf c \<Longrightarrow> \<forall>j. ops_ok kf (client c) (before_get e j) \<and> OpClose \<notin> set (before_get e j) \<Longrightarrow>
     scan kf e i c reqs = (c', found) \<Longrightarrow> closed c' = closed c \<and> (Some d \<in> set found \<longrightarrow> \<not> closed c)"
proof (induction kf e i c reqs arbitrary: c' found rule: scan.induct)
  case (2 kf e i c r rs)
  let ?c = "others (before_get e i) c"
  obtain c1 x where g: "get ?c (kf r) (get_at e i) = (c1, x)" by fastforce
  obtain c2 ds where s: "scan kf e (Suc i) c1 rs = (c2, ds)" by fastforce
  have eq: "c' = c2" "found = x # ds" using 2(4) by (simp_all add: g s)
  have c: "reached kf ?c" "closed ?c = closed c" using reached_others marks_others 2(2,3) by blast+
  note k = get_keeps [OF g]
  from 2(1) [OF g [symmetric] refl reached_get [OF c(1) g] _ s] k 2(3) c(2) show ?case by (auto simp: eq)
qed auto

lemma record_answers_reached:
  "reached kf c \<Longrightarrow> \<forall>j. ops_ok kf (client c) (before_observe q j) \<Longrightarrow>
   \<forall>(i, d) \<in> set ans. keyed kf (client c) (keys ! i) d \<Longrightarrow> record_answers s at q keys ans (c, out) = (c', out') \<Longrightarrow>
   reached kf c' \<and> client c' = client c \<and> length out' = length out"
proof (induction ans arbitrary: c out)
  case (Cons a ans)
  obtain i d where a: "a = (i, d)" by fastforce
  let ?c = "observe (others (before_observe q i) c) (keys ! i) d s at (observe_at q i)"
  have "reached kf ?c" using Cons.prems(1-3) by (auto simp: a intro!: reached_observe reached_others)
  from Cons.IH [OF this, of "out[i := d]"] Cons.prems(2-4) show ?case by (simp add: a)
qed auto

lemma record_answers_marks:
  "reached kf c \<Longrightarrow> \<forall>j. ops_ok kf (client c) (before_observe q j) \<and> OpClose \<notin> set (before_observe q j) \<Longrightarrow>
   \<forall>(i, d) \<in> set ans. keyed kf (client c) (keys ! i) d \<and> \<not> Decision_Local d \<Longrightarrow> \<not> closed c \<Longrightarrow>
   record_answers s at q keys ans (c, out) = (c', out') \<Longrightarrow>
   \<not> closed c' \<and> watermark c \<le> watermark c' \<and> (\<forall>(i, d) \<in> set ans. PolicyRevision d \<le> watermark c')"
proof (induction ans arbitrary: c out)
  case (Cons a ans)
  obtain i d where a: "a = (i, d)" by fastforce
  let ?b = "others (before_observe q i) c"
  let ?c = "observe ?b (keys ! i) d s at (observe_at q i)"
  have b: "reached kf ?b" "watermark c \<le> watermark ?b" "\<not> closed ?b"
    using Cons.prems(1,2,4) reached_others marks_others by metis+
  have d: "keyed kf (client c) (keys ! i) d" "\<not> Decision_Local d" using Cons.prems(3) a by auto
  have "reached kf ?c" using b(1) d(1) by (intro reached_observe) simp_all
  from Cons.IH [OF this, of "out[i := d]"] Cons.prems(2,3,5) b(3) observe_marks [OF reached_rep [OF b(1)] d(2)]
  have "\<not> closed c' \<and> watermark ?c \<le> watermark c' \<and> (\<forall>(i, d) \<in> set ans. PolicyRevision d \<le> watermark c')"
    by (simp add: a)
  then show ?case using observe_marks(1) [OF reached_rep [OF b(1)] d(2)] b(2,3) by (auto simp: a)
qed simp

lemma record_answers_out:
  "distinct (map fst ans) \<Longrightarrow> \<forall>(i, d) \<in> set ans. i < length out \<Longrightarrow>
   record_answers s at q keys ans (c, out) = (c', out') \<Longrightarrow>
   (\<forall>(i, d) \<in> set ans. out' ! i = d) \<and> (\<forall>i. i \<notin> fst ` set ans \<longrightarrow> out' ! i = out ! i)"
proof (induction ans arbitrary: c out)
  case (Cons a ans)
  obtain i d where a: "a = (i, d)" by fastforce
  from Cons.IH [of "out[i := d]" "observe (others (before_observe q i) c) (keys ! i) d s at (observe_at q i)"] Cons.prems
  have ih: "(\<forall>(i, d) \<in> set ans. out' ! i = d) \<and> (\<forall>j. j \<notin> fst ` set ans \<longrightarrow> out' ! j = out[i := d] ! j)"
    by (simp add: a)
  moreover have "i \<notin> fst ` set ans" "i < length out" using Cons.prems(1,2) by (auto simp: a)
  ultimately show ?case by (auto simp: a nth_list_update)
qed simp

text \<open>One round of \<open>ask\<close>: the cache stays reachable, and each asked item holds the answer to its own request.\<close>

lemma ask_cases:
  assumes "ask q reqs (map kf reqs) idx (c, out) = (c', r)" and "reached kf c" and "ask_ok kf (client c) q"
    and "distinct idx" and "\<forall>i \<in> set idx. i < length reqs" and "length out = length reqs"
  defines "got \<equiv> DecideBatch (client c) (pdp q) (map ((!) reqs) idx)"
  obtains (refused) er where "r = Inl er" "Reason_Local (e_reason er)" "reached kf c'" "client c' = client c"
    | (answered) out' where "r = Inr out'" "reached kf c'" "client c' = client c" "length out' = length reqs"
        "\<And>m. m < length idx \<Longrightarrow> out' ! (idx ! m) = got ! m"
        "\<And>i. i \<in> set idx \<Longrightarrow> keyed kf (client c) (kf (reqs ! i)) (out' ! i)"
        "\<And>i. i \<notin> set idx \<Longrightarrow> out' ! i = out ! i"
        "\<not> closed c \<Longrightarrow> OpClose \<notin> set (before_stamp q) \<Longrightarrow> \<forall>i. OpClose \<notin> set (before_observe q i) \<Longrightarrow>
           \<not> closed c' \<and> (\<forall>i \<in> set idx. PolicyRevision (out' ! i) \<le> watermark c')"
proof -
  let ?b = "others (before_stamp q) c" and ?ans = "zip idx got"
  have len: "length got = length idx" by (simp add: got_def DecideBatch_length)
  have b: "reached kf ?b" "client ?b = client c" using assms(2,3) by (simp_all add: ask_ok_def reached_others)
  have item: "keyed kf (client c) (kf (reqs ! (idx ! m))) (got ! m)" if "m < length idx" for m
    using keyed_item [of m "map ((!) reqs) idx" kf "client c" "pdp q"] that by (simp add: got_def)
  have keyed: "\<forall>(i, d) \<in> set ?ans. keyed kf (client ?b) (map kf reqs ! i) d"
    using item assms(5) len by (auto simp: set_zip)
  show thesis
  proof (cases "find Decision_Local got")
    case (Some d)
    then have "d \<in> set got" "Decision_Local d" by (auto simp: find_Some_iff)
    then obtain x where "Err d = Some (PepError x)" "e_reason x = Decision_Reason d"
      using uniform_wf [OF DecideBatch_uniform, of d] unfolding wf_decision_def got_def by blast
    then show thesis using refused [of x] assms(1) Some b \<open>Decision_Local d\<close>
      by (auto simp: ask_def Let_def stamp_def got_def Decision_Local_def)
  next
    case None
    obtain out' where r: "record_answers (seq ?b) (stamp_at q) q (map kf reqs) ?ans (?b, out) = (c', out')" "r = Inr out'"
      using assms(1) None by (auto simp: ask_def Let_def stamp_def got_def split: prod.splits)
    have ops: "\<forall>j. ops_ok kf (client ?b) (before_observe q j)" using assms(3) by (simp add: ask_ok_def)
    note reach = record_answers_reached [OF b(1) ops keyed r(1)]
    have "map fst ?ans = idx" using len by simp
    then have "distinct (map fst ?ans)" "fst ` set ?ans = set idx" using assms(4) by (simp, metis list.set_map)
    with record_answers_out [OF _ _ r(1)] assms(5,6)
    have out: "\<forall>(i, d) \<in> set ?ans. out' ! i = d" "\<And>i. i \<notin> set idx \<Longrightarrow> out' ! i = out ! i"
      by (fastforce dest: set_zip_leftD)+
    have at: "out' ! (idx ! m) = got ! m" if "m < length idx" for m using out(1) that len by (auto simp: set_zip)
    show thesis
    proof (rule answered [OF r(2)])
      fix i assume "i \<in> set idx"
      then show "keyed kf (client c) (kf (reqs ! i)) (out' ! i)" using item at by (metis in_set_conv_nth)
    next
      assume o: "\<not> closed c" "OpClose \<notin> set (before_stamp q)" "\<forall>i. OpClose \<notin> set (before_observe q i)"
      have "\<not> closed ?b" using marks_others [OF assms(2) _ o(2)] assms(3) o(1) by (simp add: ask_ok_def)
      moreover have "\<forall>(i, d) \<in> set ?ans. \<not> Decision_Local d" using None by (auto simp: find_None_iff dest: set_zip_rightD)
      ultimately have "\<not> closed c' \<and> (\<forall>(i, d) \<in> set ?ans. PolicyRevision d \<le> watermark c')"
        using record_answers_marks [OF b(1) _ _ _ r(1)] ops keyed o(3) by fast
      then show "\<not> closed c' \<and> (\<forall>i \<in> set idx. PolicyRevision (out' ! i) \<le> watermark c')"
        using at len by (fastforce simp: set_zip in_set_conv_nth)
    qed (use reach b(2) assms(6) out at in auto)
  qed
qed

lemma hits_misses:
  "set (hits found) = {i. i < length found \<and> found ! i \<noteq> None}" "distinct (hits found)"
  "set (misses found) = {i. i < length found \<and> found ! i = None}" "distinct (misses found)"
  by (auto simp: hits_def misses_def)

lemma found_or_zero_nth: "i < length found \<Longrightarrow> found ! i = Some d \<Longrightarrow> found_or_zero found ! i = d"
  by (simp add: found_or_zero_def)

lemma found_length [simp]: "length (found_or_zero found) = length found"
  by (simp add: found_or_zero_def)

text \<open>After the scan and the answers to the misses every item is an answer of the wrapped client for its key.\<close>

lemma first_round:
  assumes "reached kf c" and "call_ok kf (client c) e" and "scan kf e 0 c reqs = (c1, found)"
    and "(if misses found \<noteq> [] then ask (ask_misses e) reqs (map kf reqs) (misses found) (c1, found_or_zero found)
          else (c1, Inr (found_or_zero found))) = (c2, r)"
  obtains (refused) er where "r = Inl er" "Reason_Local (e_reason er)" "reached kf c2"
    | (answered) out2 where "r = Inr out2" "reached kf c2" "client c2 = client c" "length out2 = length reqs"
        "\<And>i. i < length reqs \<Longrightarrow> keyed kf (client c) (kf (reqs ! i)) (out2 ! i)"
        "\<And>j. j \<in> set (misses found) \<Longrightarrow> \<not> closed c1 \<Longrightarrow> OpClose \<notin> set (before_stamp (ask_misses e)) \<Longrightarrow>
           \<forall>i. OpClose \<notin> set (before_observe (ask_misses e) i) \<Longrightarrow> PolicyRevision (out2 ! j) \<le> watermark c2 \<and> \<not> closed c2"
proof -
  note deny = refused and ok = answered
  have ops: "\<forall>j. ops_ok kf (client c) (before_get e j)" "ask_ok kf (client c) (ask_misses e)"
    using assms(2) by (auto simp: call_ok_def)
  have s: "reached kf c1" "client c1 = client c"
    "list_all2 (\<lambda>r x. \<forall>d. x = Some d \<longrightarrow> keyed kf (client c) (kf r) d) reqs found"
    using scan_reached [OF assms(1) ops(1) assms(3)] by blast+
  have len: "length found = length reqs" using s(3) by (simp add: list_all2_lengthD)
  have hit: "keyed kf (client c) (kf (reqs ! i)) (found_or_zero found ! i)" if "i < length reqs" "i \<notin> set (misses found)" for i
    using s(3) that len hits_misses(3) [of found] by (auto simp: list_all2_conv_all_nth found_or_zero_nth)
  show thesis
  proof (cases "misses found = []")
    case True
    then show thesis using ok [of "found_or_zero found"] assms(4) s hit len by simp
  next
    case False
    then have a: "ask (ask_misses e) reqs (map kf reqs) (misses found) (c1, found_or_zero found) = (c2, r)"
      using assms(4) by simp
    have idx: "\<forall>i \<in> set (misses found). i < length reqs" using hits_misses(3) [of found] len by auto
    have q: "ask_ok kf (client c1) (ask_misses e)" using ops(2) s(2) by simp
    have l: "length (found_or_zero found) = length reqs" using len by simp
    from a s(1) q hits_misses(4) idx l show thesis
    proof (cases rule: ask_cases)
      case (refused er)
      then show thesis using deny by blast
    next
      case (answered out')
      show thesis
      proof (rule ok [OF answered(1,2)])
        fix i assume "i < length reqs"
        then show "keyed kf (client c) (kf (reqs ! i)) (out' ! i)"
          using answered(6,7) [of i] hit [of i] s(2) by (cases "i \<in> set (misses found)") auto
      qed (use answered s(2) in auto)
    qed
  qed
qed

text \<open>
  The shape of a batch: denied as a whole, or the answers of the first round, and then the
  hits as they are or the second round.
\<close>

lemma batch_cases:
  assumes "Cached_DecideBatch kf e c reqs = (c', ds)" and "reached kf c" and "call_ok kf (client c) e"
    and "scan kf e 0 c reqs = (c1, found)"
  obtains (refused) er where "ds = denyAll er (length reqs)" "Reason_Local (e_reason er)" "reached kf c'"
    | (answered) c2 out2 c3 where "reached kf c2" "client c2 = client c" "length out2 = length reqs"
        "\<And>i. i < length reqs \<Longrightarrow> keyed kf (client c) (kf (reqs ! i)) (out2 ! i)"
        "\<And>j. j \<in> set (misses found) \<Longrightarrow> \<not> closed c1 \<Longrightarrow> OpClose \<notin> set (before_stamp (ask_misses e)) \<Longrightarrow>
           \<forall>i. OpClose \<notin> set (before_observe (ask_misses e) i) \<Longrightarrow> PolicyRevision (out2 ! j) \<le> watermark c2 \<and> \<not> closed c2"
        "c3 = others (before_check e) c2" "reached kf c3"
        "(\<not> belowWatermark c3 out2 (hits found) \<and> c' = c3 \<and> ds = out2) \<or>
         (belowWatermark c3 out2 (hits found) \<and> ask (ask_hits e) reqs (map kf reqs) (hits found) (c3, out2) = (c', Inr ds))"
proof (cases "reqs = [] \<or> \<not> cache_ready c \<or> ctx (pdp (ask_misses e)) = None \<or> length reqs > MaxBatch \<or>
    \<not> list_all Request_valid reqs")
  case True
  then have "\<exists>er. Reason_Local (e_reason er) \<and> Cached_DecideBatch kf e c reqs = (c, denyAll er (length reqs))"
    unfolding Cached_DecideBatch_def
    by (auto simp: denyAll_def intro: reasons_local exI [of _ "fail NotConfigured"] exI [of _ "fail LocalInvalid"])
  then show thesis using refused assms(1,2) by auto
next
  case False
  note deny = refused and ok = answered
  obtain c2 r where 1: "(if misses found \<noteq> [] then ask (ask_misses e) reqs (map kf reqs) (misses found) (c1, found_or_zero found)
      else (c1, Inr (found_or_zero found))) = (c2, r)" by fastforce
  have "Cached_DecideBatch kf e c reqs =
    (case (if misses found \<noteq> [] then ask (ask_misses e) reqs (map kf reqs) (misses found) (c1, found_or_zero found)
           else (c1, Inr (found_or_zero found))) of
       (c2, Inl er) \<Rightarrow> (c2, denyAll er (length reqs))
     | (c2, Inr out2) \<Rightarrow>
         (let c3 = others (before_check e) c2 in
          if belowWatermark c3 out2 (hits found)
          then (case ask (ask_hits e) reqs (map kf reqs) (hits found) (c3, out2) of
                  (c4, Inl er) \<Rightarrow> (c4, denyAll er (length reqs)) | (c4, Inr out3) \<Rightarrow> (c4, out3))
          else (c3, out2)))"
    using False by (auto simp: Cached_DecideBatch_def assms(4) Let_def)
  note d = this [unfolded 1 assms(1)]
  from assms(2,3,4) 1 show thesis
  proof (cases rule: first_round)
    case (refused er)
    then show thesis using d deny by simp
  next
    case (answered out2)
    let ?c3 = "others (before_check e) c2"
    have c3: "reached kf ?c3" "client ?c3 = client c" using answered(2,3) assms(3) by (auto simp: call_ok_def intro: reached_others)
    have d: "(if belowWatermark ?c3 out2 (hits found)
        then (case ask (ask_hits e) reqs (map kf reqs) (hits found) (?c3, out2) of
                (c4, Inl er) \<Rightarrow> (c4, denyAll er (length reqs)) | (c4, Inr out3) \<Rightarrow> (c4, out3))
        else (?c3, out2)) = (c', ds)" using d answered(1) by (simp add: Let_def cong: if_cong)
    obtain c4 r4 where 4: "ask (ask_hits e) reqs (map kf reqs) (hits found) (?c3, out2) = (c4, r4)" by fastforce
    consider (denied) er where "belowWatermark ?c3 out2 (hits found)" "r4 = Inl er" "c' = c4" "ds = denyAll er (length reqs)"
      | (served) "(\<not> belowWatermark ?c3 out2 (hits found) \<and> c' = ?c3 \<and> ds = out2) \<or>
         (belowWatermark ?c3 out2 (hits found) \<and> ask (ask_hits e) reqs (map kf reqs) (hits found) (?c3, out2) = (c', Inr ds))"
      using d 4 by (cases r4) (auto split: if_splits)
    then show thesis
    proof cases
      case denied
      have "length found = length reqs"
        using scan_reached [OF assms(2) _ assms(4)] assms(3) by (auto simp: call_ok_def dest: list_all2_lengthD)
      then have idx: "\<forall>i \<in> set (hits found). i < length reqs" by (auto simp: hits_misses(1))
      have q: "ask_ok kf (client ?c3) (ask_hits e)" using assms(3) c3(2) by (simp add: call_ok_def)
      show thesis using 4 c3(1) q hits_misses(2) idx answered(4)
        by (cases rule: ask_cases) (use denied deny in auto)
    next
      case served
      show thesis
      proof (rule ok [OF answered(2-4) _ _ refl c3(1) served])
        show "keyed kf (client c) (kf (reqs ! i)) (out2 ! i)" if "i < length reqs" for i using answered(5) [OF that] .
      qed (rule answered(6))
    qed
  qed
qed

text \<open>Every item of a batch that is not denied as a whole is an answer of the wrapped client for its key.\<close>

lemma batch_keyed:
  assumes "Cached_DecideBatch kf e c reqs = (c', ds)" and "reached kf c" and "call_ok kf (client c) e"
  shows "reached kf c' \<and> ((\<exists>er. Reason_Local (e_reason er) \<and> ds = denyAll er (length reqs)) \<or>
    (length ds = length reqs \<and> (\<forall>i < length reqs. keyed kf (client c) (kf (reqs ! i)) (ds ! i))))"
proof -
  obtain c1 found where s: "scan kf e 0 c reqs = (c1, found)" by fastforce
  have len: "length found = length reqs"
    using scan_reached [OF assms(2) _ s] assms(3) by (auto simp: call_ok_def dest: list_all2_lengthD)
  from assms s show ?thesis
  proof (cases rule: batch_cases)
    case (refused er)
    then show ?thesis by blast
  next
    case (answered c2 out2 c3)
    have c3: "client c3 = client c" using answered(2,6) by simp
    show ?thesis
    proof (cases "belowWatermark c3 out2 (hits found)")
      case False
      then show ?thesis using answered(3,4,7,8) by blast
    next
      case True
      then have a: "ask (ask_hits e) reqs (map kf reqs) (hits found) (c3, out2) = (c', Inr ds)" using answered(8) by blast
      have idx: "\<forall>i \<in> set (hits found). i < length reqs" using len by (auto simp: hits_misses(1))
      have q: "ask_ok kf (client c3) (ask_hits e)" using assms(3) c3 by (simp add: call_ok_def)
      from a answered(7) q hits_misses(2) idx answered(3) show ?thesis
      proof (cases rule: ask_cases)
        case (answered out')
        have "keyed kf (client c) (kf (reqs ! i)) (ds ! i)" if "i < length reqs" for i
          using answered(1) answered(6,7) [of i] \<open>\<And>i. i < length reqs \<Longrightarrow> keyed kf (client c) (kf (reqs ! i)) (out2 ! i)\<close> [OF that] c3
          by (cases "i \<in> set (hits found)") auto
        then show ?thesis using answered(1,2,4) by blast
      qed simp
    qed
  qed
qed

lemma decide_keyed:
  assumes "Cached_Decide kf e c req = (c', d)" and "reached kf c" and "call_ok kf (client c) e"
  shows "reached kf c' \<and> ((\<exists>er. Reason_Local (e_reason er) \<and> d = deny er) \<or> keyed kf (client c) (kf req) d)"
proof -
  let ?b = "others (before_get e 0) c"
  have ops: "ops_ok kf (client c) (before_get e 0)" "ask_ok kf (client c) (ask_misses e)" using assms(3) by (auto simp: call_ok_def)
  have b: "reached kf ?b" "client ?b = client c" using reached_others [OF assms(2) ops(1)] by simp_all
  obtain c1 r where g: "get ?b (kf req) (get_at e 0) = (c1, r)" by fastforce
  have c1: "reached kf c1" "client c1 = client c" using reached_get [OF b(1) g] get_keeps(3) [OF g] by simp_all
  let ?c2 = "others (before_stamp (ask_misses e)) c1"
  have c2: "reached kf ?c2" "reached kf (others (before_observe (ask_misses e) 0) ?c2)"
    using c1 ops(2) by (auto simp: ask_ok_def intro!: reached_others)
  show ?thesis
  proof (cases "\<not> cache_ready c \<or> ctx (pdp (ask_misses e)) = None \<or> \<not> Request_valid req")
    case True
    then show ?thesis using assms(1,2) reasons_local
      by (auto simp: Cached_Decide_def Let_def intro: exI [of _ "fail NotConfigured"] exI [of _ "fail LocalInvalid"] split: if_splits)
  next
    case False
    then show ?thesis using assms(1) c1 reached_hit [OF b(1)] g
        reached_observe [OF c2(2)] keyed_Decide [of kf "client c" req "pdp (ask_misses e)"]
      by (cases r) (auto simp: Cached_Decide_def Let_def stamp_def)
  qed
qed

section \<open>The cached client is a decider\<close>

lemma deny_grants: "Reason_Local (e_reason er) \<Longrightarrow> granted (Decision_Obligations (deny er)) \<longleftrightarrow> Allowed (deny er)"
  using wf_grants [OF deny_wf] .

interpretation cached_decider: decider "\<lambda>(kf, e, c). reached kf c \<and> call_ok kf (client c) e"
  "\<lambda>(kf, e, c) r. snd (Cached_Decide kf e c r)" "\<lambda>(kf, e, c) rs. snd (Cached_DecideBatch kf e c rs)"
proof
  fix s :: "(Request \<Rightarrow> key) \<times> call_env \<times> cache" and r rs d
  obtain kf e c where s: "s = (kf, e, c)" by (cases s) auto
  assume "case s of (kf, e, c) \<Rightarrow> reached kf c \<and> call_ok kf (client c) e"
  then have c: "reached kf c" "call_ok kf (client c) e" by (simp_all add: s)
  note one = decide_keyed [OF prod.collapse [symmetric] c, of r] and all = batch_keyed [OF prod.collapse [symmetric] c, of rs]
  show "granted (Decision_Obligations ((case s of (kf, e, c) \<Rightarrow> \<lambda>r. snd (Cached_Decide kf e c r)) r)) =
    Allowed ((case s of (kf, e, c) \<Rightarrow> \<lambda>r. snd (Cached_Decide kf e c r)) r)"
    using one deny_grants wf_grants [OF keyed_wf] by (auto simp: s)
  show "length ((case s of (kf, e, c) \<Rightarrow> \<lambda>rs. snd (Cached_DecideBatch kf e c rs)) rs) = length rs"
    using all by (auto simp: s denyAll_def)
  assume "d \<in> set ((case s of (kf, e, c) \<Rightarrow> \<lambda>rs. snd (Cached_DecideBatch kf e c rs)) rs)"
  then show "granted (Decision_Obligations d) = Allowed d"
    using all deny_grants wf_grants [OF keyed_wf] by (auto simp: s denyAll_def in_set_conv_nth)
qed

lemma deny_not_allowed: "\<not> Allowed (deny er)"
  by (simp add: Allowed_def deny_def Local_def zero_Decision_def)


section \<open>No stale hit beside a newer answer\<close>

text \<open>Nobody closes the cache between the start of the call and the comparison with the watermark.\<close>

definition open_until_check :: "call_env \<Rightarrow> bool" where
  "open_until_check e \<longleftrightarrow>
     (\<forall>i. OpClose \<notin> set (before_get e i)) \<and> OpClose \<notin> set (before_stamp (ask_misses e)) \<and>
     (\<forall>i. OpClose \<notin> set (before_observe (ask_misses e) i)) \<and> OpClose \<notin> set (before_check e)"

text \<open>
  C16. A batch mixes no stale hit with newer answers, whatever the other callers do between
  the sections of the call short of closing the cache. When a cached batch call is not denied
  as a whole, an item the cache had (\<open>i\<close>) either holds the answer that the policy decision
  point gave to its request in the second round of this call, or its policy revision is not
  below that of any item the cache did not have (\<open>j\<close>).
\<close>

theorem batch_hits_current:
  assumes "reached kf c" and "call_ok kf (client c) e" and "open_until_check e"
    and "scan kf e 0 c reqs = (c1, found)" and "Cached_DecideBatch kf e c reqs = (c', ds)"
    and "i < length reqs" and "found ! i \<noteq> None" and "j < length reqs" and "found ! j = None"
  shows "(\<exists>er. Reason_Local (e_reason er) \<and> ds = denyAll er (length reqs)) \<or>
    PolicyRevision (ds ! j) \<le> PolicyRevision (ds ! i) \<or>
    (\<exists>m < length (hits found). hits found ! m = i \<and>
       ds ! i = DecideBatch (client c) (pdp (ask_hits e)) (map ((!) reqs) (hits found)) ! m)"
proof -
  have ops: "\<forall>j. ops_ok kf (client c) (before_get e j)" "ops_ok kf (client c) (before_check e)"
    "ask_ok kf (client c) (ask_hits e)" using assms(2) by (auto simp: call_ok_def)
  have len: "length found = length reqs"
    using scan_reached [OF assms(1) ops(1) assms(4)] by (auto dest: list_all2_lengthD)
  have i: "i \<in> set (hits found)" and j: "j \<in> set (misses found)" using assms(6-9) len by (auto simp: hits_misses)
  have "Some (the (found ! i)) \<in> set found" using assms(6,7) len by (metis nth_mem option.collapse)
  then have c1: "\<not> closed c1" using scan_open [OF assms(1) _ assms(4)] ops(1) assms(3) unfolding open_until_check_def by blast
  from assms(5,1,2,4) show ?thesis
  proof (cases rule: batch_cases)
    case (answered c2 out2 c3)
    have c2: "PolicyRevision (out2 ! j) \<le> watermark c2" using answered(5) [OF j c1] assms(3) by (simp add: open_until_check_def)
    have "watermark c2 \<le> watermark c3"
      using marks_others [OF answered(1)] ops(2) answered(2,6) assms(3) by (simp add: open_until_check_def)
    then have rev: "PolicyRevision (out2 ! j) \<le> watermark c3" using c2 by simp
    show ?thesis
    proof (cases "belowWatermark c3 out2 (hits found)")
      case False
      then have "watermark c3 \<le> PolicyRevision (out2 ! i)" using i by (auto simp: belowWatermark_def list_ex_iff)
      then show ?thesis using rev answered(8) False by auto
    next
      case True
      then have a: "ask (ask_hits e) reqs (map kf reqs) (hits found) (c3, out2) = (c', Inr ds)" using answered(8) by blast
      have idx: "\<forall>i \<in> set (hits found). i < length reqs" using len by (auto simp: hits_misses(1))
      have cl: "client c3 = client c" using answered(2,6) by simp
      then have q: "ask_ok kf (client c3) (ask_hits e)" using ops(3) by simp
      obtain m where m: "m < length (hits found)" "hits found ! m = i" using i by (auto simp: in_set_conv_nth)
      from a answered(7) q hits_misses(2) idx answered(3) show ?thesis
      proof (cases rule: ask_cases)
        case (answered out')
        then show ?thesis using m cl by auto
      qed simp
    qed
  qed auto
qed

end
