(* ===== verification/Pep_Fake.thy ===== *)
theory Pep_Fake
  imports Pep_Client
begin

text \<open>
  pep/pepfake/fake.go: the test double of the decision client. It allows exactly the requests
  its rules name. A nil \<open>*Fake\<close> is \<open>None\<close>; a nil allowlist is \<open>None\<close>.
\<close>

record Rule =
  rule_PrincipalReference :: string
  rule_Action :: string
  rule_ResourceType :: string
  rule_ResourceKey :: string
  rule_OrganizationID :: string
  rule_TenantScope :: string
  rule_RepositoryScope :: string
  rule_RepositoryAllowlist :: "string list option"
  rule_Redaction :: "string list option"
  rule_MinimumAssurance :: string
  rule_StepUp :: bool

definition cloneNilable :: "'a list option \<Rightarrow> 'a list option" where
  "cloneNilable s = (case s of None \<Rightarrow> None | Some xs \<Rightarrow> Some ([] @ xs))"

definition Fake_New :: "Rule list \<Rightarrow> Rule list option" where
  "Fake_New rules =
     Some (map (\<lambda>r. r\<lparr>rule_RepositoryAllowlist := cloneNilable (rule_RepositoryAllowlist r),
                      rule_Redaction := cloneNilable (rule_Redaction r)\<rparr>) rules)"

definition complete_rule :: "Rule \<Rightarrow> bool" where
  "complete_rule r =
     (rule_PrincipalReference r \<noteq> [] \<and> rule_Action r \<noteq> [] \<and> rule_ResourceType r \<noteq> [] \<and> rule_ResourceKey r \<noteq> [])"

definition rule_matches :: "Rule \<Rightarrow> Request \<Rightarrow> bool" where
  "rule_matches r q =
     (complete_rule r \<and> rule_PrincipalReference r = PrincipalReference q \<and> rule_Action r = Action q \<and>
      rule_ResourceType r = ResourceType q \<and> rule_ResourceKey r = ResourceKey q \<and>
      rule_OrganizationID r = OrganizationID q)"

definition validAssurance :: "string \<Rightarrow> bool" where
  "validAssurance a = (a = ''aal1'' \<or> a = ''aal2'' \<or> a = ''aal3'')"

definition fakeDecisionID :: string where
  "fakeDecisionID = ''dec_FAKE00000000000000000000000''"

definition rule_allow :: "Rule \<Rightarrow> Request \<Rightarrow> Decision" where
  "rule_allow r q =
     (if rule_MinimumAssurance r \<noteq> [] \<and> \<not> validAssurance (rule_MinimumAssurance r)
      then Local Malformed (Some BadRule)
      else if rule_RepositoryScope r \<noteq> [] \<and>
        (rule_RepositoryScope r \<noteq> ScopeOrganization \<or> rule_RepositoryAllowlist r \<noteq> None)
      then Local Malformed (Some BadRule)
      else FromWire
        \<lparr>w_Allowed = True, w_Reason = AllowedByRole, w_DecisionID = fakeDecisionID, w_PrincipalID = ''prn_FAKE'',
         w_Organization = OrganizationID q, w_HasOrg = (OrganizationID q \<noteq> []), w_PolicyRevision = 0,
         w_ExpiresAt = zero_time, w_Cacheable = False,
         w_Obligations = NewObligations
           \<lparr>spec_Tenant = rule_TenantScope r, spec_Scope = rule_RepositoryScope r,
            spec_Allowlist = rule_RepositoryAllowlist r,
            spec_Redaction = (case rule_Redaction r of None \<Rightarrow> [] | Some l \<Rightarrow> l),
            spec_Assurance = rule_MinimumAssurance r, spec_StepUp = rule_StepUp r\<rparr>\<rparr>)"

definition Fake_Decide :: "Rule list option \<Rightarrow> Request \<Rightarrow> Decision" where
  "Fake_Decide f req =
     (case f of
        None \<Rightarrow> zero_Decision
      | Some rules \<Rightarrow>
          (case find (\<lambda>r. rule_matches r req) rules of
             Some r \<Rightarrow> rule_allow r req
           | None \<Rightarrow> zero_Decision))"

definition Fake_DecideBatch :: "Rule list option \<Rightarrow> Request list \<Rightarrow> Decision list" where
  "Fake_DecideBatch f reqs = map (Fake_Decide f) reqs"

section \<open>Properties\<close>

lemma rule_allow_wf: "granted (Decision_Obligations (rule_allow r q)) \<longleftrightarrow> Allowed (rule_allow r q)"
  by (simp add: rule_allow_def Local_def FromWire_def Let_def Allowed_def Decision_Obligations_def zero_Decision_def
      zero_Obligations_def allowReason_def)

lemma zero_grants: "granted (Decision_Obligations zero_Decision) \<longleftrightarrow> Allowed zero_Decision"
  by (simp add: Allowed_def Decision_Obligations_def zero_Decision_def zero_Obligations_def)

lemma Fake_wf: "granted (Decision_Obligations (Fake_Decide f q)) \<longleftrightarrow> Allowed (Fake_Decide f q)"
  by (auto simp: Fake_Decide_def rule_allow_wf zero_grants split: option.split)

interpretation fake_decider: decider "\<lambda>f. True" Fake_Decide Fake_DecideBatch
  by unfold_locales (auto simp: Fake_wf Fake_DecideBatch_def)

lemma clone_id [simp]: "cloneNilable s = s"
  by (simp add: cloneNilable_def split: option.split)

lemma New_keeps_rules: "Fake_New rules = Some rules"
  by (simp add: Fake_New_def)

text \<open>
  The fake cannot be built allow-by-default: it allows a request only when one of the rules
  it was built from names all four of principal reference, action, resource type and resource
  key and every field of that rule, the organization included, equals the request's.
\<close>

theorem fake_allows_only_rules:
  assumes "Allowed (Fake_Decide (Fake_New rules) req)"
  shows "\<exists>r \<in> set rules. rule_PrincipalReference r = PrincipalReference req \<and> rule_Action r = Action req \<and>
    rule_ResourceType r = ResourceType req \<and> rule_ResourceKey r = ResourceKey req \<and>
    rule_OrganizationID r = OrganizationID req \<and>
    [] \<notin> {PrincipalReference req, Action req, ResourceType req, ResourceKey req}"
proof -
  obtain r where "find (\<lambda>r. rule_matches r req) rules = Some r"
    using assms by (auto simp: Fake_Decide_def New_keeps_rules Allowed_def zero_Decision_def split: option.splits)
  then have "r \<in> set rules" "rule_matches r req" by (auto simp: find_Some_iff)
  then show ?thesis by (auto simp: rule_matches_def complete_rule_def)
qed

definition sample_rule :: Rule where
  "sample_rule = \<lparr>rule_PrincipalReference = ''ref'', rule_Action = ''repo.read'', rule_ResourceType = ''repository'',
     rule_ResourceKey = ''acme/web'', rule_OrganizationID = ''org'', rule_TenantScope = [], rule_RepositoryScope = [],
     rule_RepositoryAllowlist = None, rule_Redaction = None, rule_MinimumAssurance = [], rule_StepUp = False\<rparr>"

definition sample_question :: Request where
  "sample_question = \<lparr>PrincipalReference = ''ref'', Action = ''repo.read'', ResourceType = ''repository'',
     ResourceKey = ''acme/web'', OrganizationID = ''org'', RequestID = []\<rparr>"

theorem fake_allows_only_rules_witness:
  "\<exists>r \<in> {sample_rule}. rule_OrganizationID r = OrganizationID sample_question"
proof -
  have "Allowed (Fake_Decide (Fake_New [sample_rule]) sample_question)" by code_simp
  from fake_allows_only_rules [OF this] show ?thesis by auto
qed

text \<open>The decision id of the fake is one character too long for the wire pattern.\<close>

lemma fake_id_not_wire: "\<not> matches decisionIDPattern fakeDecisionID"
  by code_simp

end
