(* ===== verification/Pep_Cached_Samples.thy ===== *)
theory Pep_Cached_Samples
  imports Pep_Cached Pep_Fake Pep_Samples
begin

text \<open>A cache with one stored allow, and calls over it at which the properties of the cached client apply.\<close>

definition web :: Request where
  "web = \<lparr>PrincipalReference = ''principal-000001'', Action = ''repo.read'', ResourceType = ''repository'',
     ResourceKey = ''acme/web'', OrganizationID = ''org'', RequestID = []\<rparr>"

definition plain_quote :: "string \<Rightarrow> string" where
  "plain_quote s = [CHR 0x22] @ s @ [CHR 0x22]"

lemma web_valid: "Request_valid web"
  by code_simp

theorem cacheKey_separates_witness:
  "cacheKey plain_quote (\<lambda>x. x) (web\<lparr>RequestID := []\<rparr>) = cacheKey plain_quote (\<lambda>x. x) web \<and>
   (web\<lparr>RequestID := []\<rparr>)\<lparr>RequestID := ''x''\<rparr> = web\<lparr>RequestID := ''x''\<rparr>"
proof -
  have w: "web\<lparr>RequestID := []\<rparr> = web" by (simp add: web_def)
  have "inj plain_quote" by (auto simp: inj_def plain_quote_def)
  from cacheKey_separates [OF this _ _ web_valid web_valid, where sha = "\<lambda>x. x" and x = "''x''"]
  show ?thesis by (simp add: w plain_quote_def)
qed

text \<open>
  A client whose policy decision point answered one question with an allow, stored for its
  resource key, and a second question the cache does not have. Between the sections of the
  calls another caller reads the cache and invalidates it.
\<close>

definition web_allow :: Decision where
  "web_allow = decodeDecision sample_tree sample_request 0"

definition pdp_cache :: cache where
  "pdp_cache = (case NewCachedClient (Some sample_pdp) 2 0 of Inr c \<Rightarrow> c | Inl _ \<Rightarrow> undefined)"

definition web_cache :: cache where
  "web_cache = observe pdp_cache ''acme/web'' web_allow 0 4 5"

definition sample_ask :: ask_env where
  "sample_ask = \<lparr>before_stamp = [OpGet ''acme/web'' 9], stamp_at = 6,
     pdp = sample_env\<lparr>Do := (\<lambda>_ _. Inr \<lparr>StatusCode = 200, media = Some ''application/json'', ContentLength = -1,
       stream = sample_batch, stream_err = None\<rparr>)\<rparr>,
     before_observe = (\<lambda>_. [OpInvalidateAll]), observe_at = (\<lambda>_. 8)\<rparr>"

definition sample_call :: call_env where
  "sample_call = \<lparr>before_get = (\<lambda>_. []), get_at = (\<lambda>_. 9), ask_misses = sample_ask,
     before_check = [OpGet ''acme/web'' 9, OpInvalidateAll], ask_hits = sample_ask\<rparr>"

definition questions :: "Request list" where
  "questions = [sample_request, sample_request\<lparr>ResourceKey := ''acme/api''\<rparr>]"

lemma pdp_cache_new: "NewCachedClient (Some sample_pdp) 2 0 = Inr pdp_cache"
  by (simp add: pdp_cache_def NewCachedClient_def sample_pdp_def ready_def DefaultCacheTTL_def second_def)

lemma web_reached: "reached ResourceKey web_cache"
proof -
  have "keyed ResourceKey (Some sample_pdp) ''acme/web'' web_allow"
    using keyed_Decide [of ResourceKey "Some sample_pdp" sample_request sample_env] sample_doc_decided sample_doc_parsed
    by (simp add: web_allow_def sample_request_def)
  moreover have "client pdp_cache = Some sample_pdp"
    by (simp add: pdp_cache_def NewCachedClient_def sample_pdp_def ready_def DefaultCacheTTL_def second_def)
  ultimately show ?thesis unfolding web_cache_def by (intro reached_observe reached_new [OF pdp_cache_new]) simp
qed

lemma sample_call_ok: "call_ok ResourceKey cl sample_call"
  by (simp add: call_ok_def ask_ok_def ops_ok_def sample_call_def sample_ask_def)

lemma web_scan: "snd (scan ResourceKey sample_call 0 web_cache questions) = [Some web_allow, None]"
  by code_simp

theorem batch_hits_current_witness:
  "\<exists>ds. snd (Cached_DecideBatch ResourceKey sample_call web_cache questions) = ds \<and>
    ((\<exists>er. Reason_Local (e_reason er) \<and> ds = denyAll er 2) \<or> PolicyRevision (ds ! 1) \<le> PolicyRevision (ds ! 0) \<or>
     ds ! 0 = DecideBatch (client web_cache) (pdp sample_ask) [sample_request] ! 0)"
proof -
  obtain c1 where s: "scan ResourceKey sample_call 0 web_cache questions = (c1, [Some web_allow, None])"
    using web_scan by (metis prod.collapse)
  obtain c' ds where d: "Cached_DecideBatch ResourceKey sample_call web_cache questions = (c', ds)" by fastforce
  have o: "open_until_check sample_call" by (simp add: open_until_check_def sample_call_def sample_ask_def)
  have "hits [Some web_allow, None] = [0]" by (simp add: hits_def)
  with batch_hits_current [OF web_reached sample_call_ok o s d, of 0 1] d show ?thesis
    by (auto simp: questions_def numeral_2_eq_2 sample_call_def)
qed

lemma web_hit: "snd (Cached_DecideBatch ResourceKey sample_call web_cache [sample_request]) = [web_allow]"
  by code_simp


end
