(* ===== verification/Go_Base64.thy ===== *)
theory Go_Base64
  imports Prelude
begin

text \<open>
  Go's \<open>base64.RawURLEncoding\<close>, lenient and \<open>Strict()\<close>: the alphabet, decoding as
  the decoder does it (carriage returns and line feeds are skipped, one left-over character is
  an error, left-over bits must be zero in strict mode) and encoding, to state that strict
  decoding inverts it.
\<close>

section \<open>The alphabet\<close>

definition sextet :: "char \<Rightarrow> nat option" where
  "sextet c =
     (let n = byte c in
      if 65 \<le> n \<and> n \<le> 90 then Some (n - 65)
      else if 97 \<le> n \<and> n \<le> 122 then Some (n - 71)
      else if 48 \<le> n \<and> n \<le> 57 then Some (n + 4)
      else if n = 45 then Some 62
      else if n = 95 then Some 63
      else None)"

definition sextet_char :: "nat \<Rightarrow> char" where
  "sextet_char n =
     chr (if n < 26 then n + 65 else if n < 52 then n + 71 else if n < 62 then n - 4 else if n = 62 then 45 else 95)"

lemma sextet_bound: "sextet c = Some n \<Longrightarrow> n < 64"
  by (auto simp: sextet_def Let_def split: if_splits)

lemma sextet_char_inv: "n < 64 \<Longrightarrow> sextet (sextet_char n) = Some n"
  by (auto simp: sextet_def sextet_char_def Let_def)

lemma sextet_inv: "sextet c = Some n \<Longrightarrow> sextet_char n = c"
proof -
  assume "sextet c = Some n"
  then have "(if n < 26 then n + 65 else if n < 52 then n + 71 else if n < 62 then n - 4 else if n = 62 then 45 else 95) = byte c"
    by (auto simp: sextet_def Let_def split: if_splits)
  then show ?thesis by (simp add: sextet_char_def)
qed

section \<open>Decoding\<close>

fun decode_quanta :: "bool \<Rightarrow> nat list \<Rightarrow> bytes option" where
  "decode_quanta strict [] = Some []"
| "decode_quanta strict [a] = None"
| "decode_quanta strict [a, b] =
     (if strict \<and> b mod 16 \<noteq> 0 then None else Some [chr (a * 4 + b div 16)])"
| "decode_quanta strict [a, b, c] =
     (if strict \<and> c mod 4 \<noteq> 0 then None
      else Some [chr (a * 4 + b div 16), chr (b mod 16 * 16 + c div 4)])"
| "decode_quanta strict (a # b # c # d # ns) =
     map_option (\<lambda>bs. chr (a * 4 + b div 16) # chr (b mod 16 * 16 + c div 4) # chr (c mod 4 * 64 + d) # bs)
       (decode_quanta strict ns)"

definition newline :: "char \<Rightarrow> bool" where
  "newline c = (c = chr 10 \<or> c = chr 13)"

definition DecodeString :: "bool \<Rightarrow> string \<Rightarrow> bytes option" where
  "DecodeString strict s =
     Option.bind (those (map sextet (filter (\<lambda>c. \<not> newline c) s))) (decode_quanta strict)"

section \<open>Encoding\<close>

fun encode_quanta :: "nat list \<Rightarrow> nat list" where
  "encode_quanta [] = []"
| "encode_quanta [x] = [x div 4, x mod 4 * 16]"
| "encode_quanta [x, y] = [x div 4, x mod 4 * 16 + y div 16, y mod 16 * 4]"
| "encode_quanta (x # y # z # ns) =
     x div 4 # (x mod 4 * 16 + y div 16) # (y mod 16 * 4 + z div 64) # (z mod 64) # encode_quanta ns"

definition EncodeToString :: "bytes \<Rightarrow> string" where
  "EncodeToString bs = map sextet_char (encode_quanta (map byte bs))"

section \<open>Strict decoding inverts encoding\<close>

text \<open>The bit fields of one quantum, both ways.\<close>

lemma pack: "r < k \<Longrightarrow> (q * k + r) div k = q" "r < k \<Longrightarrow> (q * k + r) mod k = (r :: nat)"
  by simp_all

lemma byte_div:
  fixes x :: nat
  shows "x < 256 \<Longrightarrow> x div 16 < 16" "x < 256 \<Longrightarrow> x div 64 < 4" "x < 64 \<Longrightarrow> x div 16 < 4"
    "x < 64 \<Longrightarrow> x div 4 < 16" "x < 256 \<Longrightarrow> x div 4 < 64"
  by (simp_all add: less_mult_imp_div_less)

lemma mod_bound [simp]: "(x :: nat) mod 4 < 4" "(y :: nat) mod 16 < 16" "(z :: nat) mod 64 < 64"
  by simp_all

lemma split_fields:
  fixes x y z :: nat
  assumes "x < 256" and "y < 256" and "z < 256"
  shows "x div 4 * 4 + (x mod 4 * 16 + y div 16) div 16 = x" "x div 4 * 4 + x mod 4 * 16 div 16 = x"
    "(x mod 4 * 16 + y div 16) mod 16 * 16 + (y mod 16 * 4 + z div 64) div 4 = y"
    "(x mod 4 * 16 + y div 16) mod 16 * 16 + y mod 16 * 4 div 4 = y"
    "(y mod 16 * 4 + z div 64) mod 4 * 64 + z mod 64 = z"
  using assms by (simp_all add: pack byte_div)

lemma split_bounds:
  fixes x y z :: nat
  assumes "x < 256" and "y < 256" and "z < 256"
  shows "x div 4 < 64" "x mod 4 * 16 + y div 16 < 64" "x mod 4 * 16 < 64" "y mod 16 * 4 + z div 64 < 64"
    "y mod 16 * 4 < 64" "z mod 64 < 64"
proof -
  show "x div 4 < 64" "z mod 64 < 64" using assms by simp_all
  have "x mod 4 \<le> 3" "y mod 16 \<le> 15" using mod_bound(1) [of x] mod_bound(2) [of y] by linarith+
  then show "x mod 4 * 16 + y div 16 < 64" "x mod 4 * 16 < 64" "y mod 16 * 4 + z div 64 < 64" "y mod 16 * 4 < 64"
    using byte_div [of y] byte_div [of z] assms by linarith+
qed

lemma join_fields:
  fixes a b c d :: nat
  assumes "a < 64" and "b < 64" and "c < 64" and "d < 64"
  shows "(a * 4 + b div 16) div 4 = a" "(a * 4 + b div 16) mod 4 * 16 + (b mod 16 * 16 + c div 4) div 16 = b"
    "b mod 16 = 0 \<Longrightarrow> (a * 4 + b div 16) mod 4 * 16 = b"
    "(b mod 16 * 16 + c div 4) mod 16 * 4 + (c mod 4 * 64 + d) div 64 = c"
    "c mod 4 = 0 \<Longrightarrow> (b mod 16 * 16 + c div 4) mod 16 * 4 = c" "(c mod 4 * 64 + d) mod 64 = d"
  using assms by (auto simp: pack byte_div)

lemma join_bounds:
  fixes a b c d :: nat
  assumes "a < 64" and "b < 64" and "c < 64" and "d < 64"
  shows "a * 4 + b div 16 < 256" "b mod 16 * 16 + c div 4 < 256" "c mod 4 * 64 + d < 256"
  using assms byte_div [of b] byte_div [of c] by simp_all

lemma encode_quanta_bound: "\<forall>x \<in> set ns. x < 256 \<Longrightarrow> \<forall>x \<in> set (encode_quanta ns). x < 64"
proof (induction ns rule: encode_quanta.induct)
  case (2 x)
  then show ?case using split_bounds(1,3) [of x 0 0] by simp
next
  case (3 x y)
  then show ?case using split_bounds [of x y 0] by simp
next
  case (4 x y z ns)
  then show ?case using split_bounds [of x y z] by simp
qed simp

lemma decode_encode_quanta:
  "\<forall>x \<in> set ns. x < 256 \<Longrightarrow> decode_quanta strict (encode_quanta ns) = Some (map chr ns)"
proof (induction ns rule: encode_quanta.induct)
  case (2 x)
  then show ?case using split_fields(2) [of x 0 0] by simp
next
  case (3 x y)
  then show ?case using split_fields(1,4) [of x y 0] by simp
next
  case (4 x y z ns)
  then show ?case using split_fields(1,3,5) [of x y z] by simp
qed simp

lemma encode_decode_quanta:
  "decode_quanta True ns = Some bs \<Longrightarrow> \<forall>x \<in> set ns. x < 64 \<Longrightarrow> encode_quanta (map byte bs) = ns"
proof (induction True ns arbitrary: bs rule: decode_quanta.induct)
  case (3 a b)
  then show ?case using join_fields(1,3) [of a b 0 0] join_bounds(1) [of a b 0 0] by (auto split: if_splits)
next
  case (4 a b c)
  then show ?case using join_fields(1,2,5) [of a b c 0] join_bounds(1,2) [of a b c 0] by (auto split: if_splits)
next
  case (5 a b c d ns)
  then obtain cs where cs: "decode_quanta True ns = Some cs"
    "bs = chr (a * 4 + b div 16) # chr (b mod 16 * 16 + c div 4) # chr (c mod 4 * 64 + d) # cs" by auto
  have "encode_quanta (map byte cs) = ns" using 5(1) [OF cs(1)] 5(3) by simp
  then show ?case using 5(3) join_fields(1,2,4,6) [of a b c d] join_bounds [of a b c d] by (simp add: cs(2))
qed simp_all

lemma those_map: "those (map f xs) = Some ys \<longleftrightarrow> list_all2 (\<lambda>x y. f x = Some y) xs ys"
proof (induction xs arbitrary: ys)
  case Nil
  then show ?case by auto
next
  case (Cons x xs)
  then show ?case by (cases ys) (auto split: option.splits)
qed

lemma sextets_iff:
  "those (map sextet s) = Some ns \<longleftrightarrow> s = map sextet_char ns \<and> (\<forall>n \<in> set ns. n < 64)"
  unfolding those_map
proof (induction s arbitrary: ns)
  case Nil
  then show ?case by auto
next
  case (Cons c s)
  then show ?case by (cases ns) (auto dest: sextet_bound sextet_inv sextet_char_inv)
qed

definition plain_base64 :: "string \<Rightarrow> bool" where
  "plain_base64 s = list_all (\<lambda>c. sextet c \<noteq> None) s"

lemma plain_no_newline: "plain_base64 s \<Longrightarrow> filter (\<lambda>c. \<not> newline c) s = s"
  by (induction s) (auto simp: plain_base64_def newline_def sextet_def Let_def)

lemma sextet_char_plain: "n < 64 \<Longrightarrow> sextet (sextet_char n) \<noteq> None"
  by (simp add: sextet_char_inv)

text \<open>
  Strict base64url is canonical: on a text of alphabet characters, strict decoding yields
  bytes exactly when the text is the encoding of those bytes. So no two texts of a token part
  decode to the same bytes.
\<close>

lemma strict_base64_canonical:
  "plain_base64 s \<and> DecodeString True s = Some bs \<longleftrightarrow> s = EncodeToString bs"
proof
  assume a: "plain_base64 s \<and> DecodeString True s = Some bs"
  then obtain ns where ns: "those (map sextet s) = Some ns" "decode_quanta True ns = Some bs"
    by (auto simp: DecodeString_def plain_no_newline bind_eq_Some_conv)
  then show "s = EncodeToString bs" using encode_decode_quanta [OF ns(2)] by (simp add: sextets_iff EncodeToString_def)
next
  assume s: "s = EncodeToString bs"
  let ?ns = "encode_quanta (map byte bs)"
  have b: "\<forall>x \<in> set (map byte bs). x < 256" by auto
  have ns: "those (map sextet s) = Some ?ns" unfolding sextets_iff using encode_quanta_bound [OF b] by (simp add: s EncodeToString_def)
  have "plain_base64 s" using encode_quanta_bound [OF b] sextet_char_plain
    by (auto simp: s plain_base64_def list_all_iff EncodeToString_def)
  moreover have "decode_quanta True ?ns = Some bs" using decode_encode_quanta [OF b] by (simp add: comp_def)
  ultimately show "plain_base64 s \<and> DecodeString True s = Some bs" using ns
    by (simp add: DecodeString_def plain_no_newline)
qed

end
