(* ===== verification/Auth_Wire.thy ===== *)
theory Auth_Wire
  imports Pep_Strict Go_Base64
begin

text \<open>
  authverify/jwks.go and accesstoken_wire.go: the strict reading of JSON objects and of compact
  tokens that every verifier of the package shares. \<open>fold_name\<close> stands for Unicode simple
  case folding: \<open>strings.EqualFold(a, b)\<close> is \<open>fold_name a = fold_name b\<close>, and it is also
  the folding by which \<open>encoding/json\<close> binds member names to struct fields.
\<close>

section \<open>Documents without repeated members\<close>

fun scanValue :: "(string \<Rightarrow> string) \<Rightarrow> nat \<Rightarrow> decoder \<Rightarrow> decoder option"
  and scan_array :: "(string \<Rightarrow> string) \<Rightarrow> nat \<Rightarrow> decoder \<Rightarrow> decoder option"
  and scan_object :: "(string \<Rightarrow> string) \<Rightarrow> nat \<Rightarrow> string list \<Rightarrow> decoder \<Rightarrow> decoder option" where
  "scanValue fold_name 0 dec = None"
| "scanValue fold_name (Suc n) dec =
     (case Token dec of
        Got (Tok v) dec' \<Rightarrow> Some dec'
      | Got (Delim c) dec' \<Rightarrow>
          (if c = CHR ''['' then Option.bind (scan_array fold_name n dec') close_token
           else if c = CHR ''{'' then Option.bind (scan_object fold_name n [] dec') close_token
           else None)
      | _ \<Rightarrow> None)"
| "scan_array fold_name 0 dec = None"
| "scan_array fold_name (Suc n) dec =
     (if More dec
      then (case scanValue fold_name n dec of None \<Rightarrow> None | Some dec' \<Rightarrow> scan_array fold_name n dec')
      else Some dec)"
| "scan_object fold_name 0 seen dec = None"
| "scan_object fold_name (Suc n) seen dec =
     (if More dec
      then
        (case Token dec of
           Got (Tok (JStr name)) dec' \<Rightarrow>
             (if list_ex (\<lambda>previous. fold_name previous = fold_name name) seen then None
              else (case scanValue fold_name n dec' of
                      None \<Rightarrow> None
                    | Some dec'' \<Rightarrow> scan_object fold_name n (seen @ [name]) dec''))
         | _ \<Rightarrow> None)
      else Some dec)"

definition singleDocumentWithoutDuplicateMembers :: "(string \<Rightarrow> string) \<Rightarrow> bytes \<Rightarrow> bool" where
  "singleDocumentWithoutDuplicateMembers fold_name encoded =
     (case scanValue fold_name (2 * length encoded + 1) (NewDecoder encoded) of
        None \<Rightarrow> False
      | Some dec \<Rightarrow> Token dec = TokEOF)"

interpretation auth_walk: duplicate_walk "\<lambda>n k. scanValue fold_name n" "\<lambda>n k. scan_array fold_name n"
  "\<lambda>n k. scan_object fold_name n" "\<lambda>k. False" "\<lambda>seen name. list_ex (\<lambda>p. fold_name p = fold_name name) seen"
  for fold_name
  by unfold_locales (auto split: option.splits bind_splits)

text \<open>No object repeats a member name up to folding, at any depth.\<close>

fun fold_distinct :: "(string \<Rightarrow> string) \<Rightarrow> json \<Rightarrow> bool" where
  "fold_distinct f (JArr vs) = list_all (fold_distinct f) vs"
| "fold_distinct f (JObj ms) = (distinct (map (f \<circ> fst) ms) \<and> list_all (\<lambda>m. fold_distinct f (snd m)) ms)"
| "fold_distinct f (JNum t) = float_ok t"
| "fold_distinct f v = True"

lemma no_repeats_fold:
  "no_repeats (\<lambda>seen name. list_ex (\<lambda>p. f p = f name) seen) seen ks \<longleftrightarrow>
     distinct (map f ks) \<and> f ` set ks \<inter> f ` set seen = {}"
  by (induction ks arbitrary: seen) (auto simp: list_ex_iff image_iff)

lemma strict_fold:
  "strict (\<lambda>k. False) (\<lambda>seen name. list_ex (\<lambda>p. f p = f name) seen) k v \<longleftrightarrow> fold_distinct f v"
proof (induction "\<lambda>k :: nat. False" "\<lambda>seen name. list_ex (\<lambda>p. f p = f name) seen" k v rule: strict.induct)
  case (1 k vs)
  then show ?case by (simp add: list_all_iff)
next
  case (2 k ms)
  then show ?case by (auto simp: list_all_iff no_repeats_fold)
qed auto

lemma single_document_iff:
  "singleDocumentWithoutDuplicateMembers f s \<longleftrightarrow> (\<exists>v. json_text s v \<and> fold_distinct f v)"
proof -
  have "singleDocumentWithoutDuplicateMembers f s \<longleftrightarrow>
      (\<exists>d. scanValue f (2 * length s + 1) (NewDecoder s) = Some d \<and> Token d = TokEOF)"
    by (auto simp: singleDocumentWithoutDuplicateMembers_def split: option.splits)
  then show ?thesis using auth_walk.accepts_iff [of s "2 * length s + 1" f] by (simp add: strict_fold)
qed

section \<open>Objects\<close>

type_synonym members = "(string \<times> json) list"

text \<open>
  \<open>decoder.Decode\<close> into a map, numbers kept as text: the members of the one object of the
  document. A JSON \<open>null\<close> leaves the map nil.
\<close>

definition decodeObject :: "(string \<Rightarrow> string) \<Rightarrow> bytes \<Rightarrow> members option" where
  "decodeObject fold_name raw =
     (if \<not> singleDocumentWithoutDuplicateMembers fold_name raw then None
      else (case json_unmarshal raw of Some (JObj ms) \<Rightarrow> Some ms | _ \<Rightarrow> None))"

lemma decodeObject_tree:
  assumes "decodeObject f raw = Some ms"
  shows "json_text raw (JObj ms)" "fold_distinct f (JObj ms)"
proof -
  have "json_parse raw = Some (JObj ms)" and d: "singleDocumentWithoutDuplicateMembers f raw"
    using assms by (auto simp: decodeObject_def json_unmarshal_def split: if_splits option.splits json.splits)
  then show "json_text raw (JObj ms)" by (simp add: json_parse_iff)
  with d show "fold_distinct f (JObj ms)" using json_parse_iff unfolding single_document_iff by (metis option.inject)
qed

definition closedSet :: "members \<Rightarrow> string list \<Rightarrow> string list \<Rightarrow> bool" where
  "closedSet ob allow required =
     (list_all (\<lambda>(name, v). contains allow name) ob \<and> list_all (\<lambda>name. obj_get ob name \<noteq> None) required)"

text \<open>The pattern is \<open>None\<close> for a nil \<open>*regexp.Regexp\<close>.\<close>

definition stringMember :: "members \<Rightarrow> string \<Rightarrow> re option \<Rightarrow> string option" where
  "stringMember ob name pattern =
     (case obj_get ob name of
        Some (JStr v) \<Rightarrow> (case pattern of Some r \<Rightarrow> if matches r v then Some v else None | None \<Rightarrow> Some v)
      | _ \<Rightarrow> None)"

definition maxNumericDate :: int where
  "maxNumericDate = 253402300799"

definition digitsOnly :: re where
  "digitsOnly = r_plus (RCls [crange CHR ''0'' CHR ''9''])"

definition numericDate :: "members \<Rightarrow> string \<Rightarrow> int option" where
  "numericDate ob name =
     (case obj_get ob name of
        Some (JNum t) \<Rightarrow>
          if \<not> matches digitsOnly t \<or> length t > 12 then None
          else
            (case ParseInt64 t of
               None \<Rightarrow> None
             | Some v \<Rightarrow> if v < 1 \<or> v > maxNumericDate then None else Some v)
      | _ \<Rightarrow> None)"

lemma numericDate_bounds: "numericDate ob name = Some v \<Longrightarrow> 1 \<le> v \<and> v \<le> maxNumericDate"
  by (auto simp: numericDate_def split: option.splits json.splits if_splits)

lemma stringMember_get:
  "stringMember ob name p = Some v \<Longrightarrow>
     obj_get ob name = Some (JStr v) \<and> (\<forall>r. p = Some r \<longrightarrow> matches r v)"
  by (auto simp: stringMember_def split: option.splits json.splits if_splits)

section \<open>Compact tokens\<close>

definition maxTokenBytes :: nat where
  "maxTokenBytes = 8192"

definition base64URLAlphabet :: "string \<Rightarrow> bool" where
  "base64URLAlphabet s =
     list_all (\<lambda>c. let n = byte c in 65 \<le> n \<and> n \<le> 90 \<or> 97 \<le> n \<and> n \<le> 122 \<or> 48 \<le> n \<and> n \<le> 57 \<or> n = 45 \<or> n = 95) s"

definition splitCompact :: "string \<Rightarrow> (string \<times> string \<times> string) option" where
  "splitCompact token =
     (if length token > maxTokenBytes \<or> trim_space token \<noteq> token then None
      else
        (case split_on CHR ''.'' token of
           [h, p, s] \<Rightarrow> if list_all base64URLAlphabet [h, p, s] then Some (h, p, s) else None
         | _ \<Rightarrow> None))"

lemma alphabet_plain: "base64URLAlphabet s \<longleftrightarrow> plain_base64 s"
  by (induction s) (auto simp: base64URLAlphabet_def plain_base64_def sextet_def Let_def)

lemma splitCompact_token:
  assumes "splitCompact token = Some (h, p, s)"
  shows "token = h @ ''.'' @ p @ ''.'' @ s" "plain_base64 h" "plain_base64 p" "plain_base64 s"
    "length token \<le> 8192"
proof -
  have sp: "split_on CHR ''.'' token = [h, p, s]" and a: "list_all base64URLAlphabet [h, p, s]" "length token \<le> 8192"
    using assms by (auto simp: splitCompact_def maxTokenBytes_def split: if_splits list.splits)
  show "token = h @ ''.'' @ p @ ''.'' @ s" using join_split_on [of "CHR ''.''" token] by (simp add: sp)
  show "plain_base64 h" "plain_base64 p" "plain_base64 s" using a by (simp_all add: alphabet_plain)
  show "length token \<le> 8192" using a(2) .
qed

lemma plain_chars: "plain_base64 s \<Longrightarrow> list_all visible s \<and> CHR ''.'' \<notin> set s"
  by (induction s) (auto simp: plain_base64_def visible_def sextet_def Let_def split: if_splits)

lemma splitCompact_parts:
  assumes "plain_base64 h" and "plain_base64 p" and "plain_base64 s" and "length (h @ ''.'' @ p @ ''.'' @ s) \<le> 8192"
  shows "splitCompact (h @ ''.'' @ p @ ''.'' @ s) = Some (h, p, s)"
proof -
  note c = plain_chars [OF assms(1)] plain_chars [OF assms(2)] plain_chars [OF assms(3)]
  have "trim_space (h @ ''.'' @ p @ ''.'' @ s) = h @ ''.'' @ p @ ''.'' @ s"
    using c by (intro trim_visible) (simp add: visible_def)
  moreover have "split_on CHR ''.'' (h @ ''.'' @ p @ ''.'' @ s) = [h, p, s]"
    using c split_on_append split_on_single by simp
  ultimately show ?thesis using assms by (simp add: splitCompact_def maxTokenBytes_def alphabet_plain)
qed

end
