(* ===== verification/Auth_Token.thy ===== *)
theory Auth_Token
  imports Auth_Wire "HOL-Library.Monad_Syntax"
begin

text \<open>
  authverify/accesstoken.go, accesstoken_wire.go, workload_token.go and
  service_account_token.go: the three token verifiers. Each reads a compact token strictly,
  finds the key by key id, checks the Ed25519 signature and then issuer, audience and the
  validity window, and returns the first refusal. \<open>ed\<close> stands for
  \<open>ed25519.Verify(key, message, signature)\<close>.
\<close>

section \<open>Refusals and key sources\<close>

datatype Refusal_Reason =
  ReasonContract | ReasonUnknownKid | ReasonSignature | ReasonIssuer | ReasonAudience | ReasonNotYetValid
  | ReasonExpired

datatype verify_error = RefusalError Refusal_Reason | UnavailableError

definition ReasonOf :: "verify_error \<Rightarrow> Refusal_Reason option" where
  "ReasonOf e = (case e of RefusalError r \<Rightarrow> Some r | UnavailableError \<Rightarrow> None)"

abbreviation refuse :: "Refusal_Reason \<Rightarrow> verify_error" where
  "refuse \<equiv> RefusalError"

text \<open>
  A key source: \<open>PublicKey\<close> alone, or with \<open>ResolveKey\<close>, which tells an unknown key id
  (\<open>Inr None\<close>) from a source that could not be read (\<open>Inl ()\<close>).
\<close>

datatype KeySource = Keys_by_PublicKey "string \<Rightarrow> bytes option" | Keys_by_ResolveKey "string \<Rightarrow> unit + bytes option"

definition PublicKeySize :: nat where "PublicKeySize = 32"
definition SignatureSize :: nat where "SignatureSize = 64"

definition lookupKey :: "KeySource \<Rightarrow> string \<Rightarrow> verify_error + bytes option" where
  "lookupKey keys kid =
     (case keys of
        Keys_by_ResolveKey resolve \<Rightarrow>
          (case resolve kid of Inl _ \<Rightarrow> Inl UnavailableError | Inr key \<Rightarrow> Inr key)
      | Keys_by_PublicKey pub \<Rightarrow> Inr (pub kid))"

lemma lookupKey_refuses_nothing [simp]: "lookupKey ks kid \<noteq> Inl (RefusalError r)"
  by (auto simp: lookupKey_def split: KeySource.splits sum.splits)

definition StaticKeys_PublicKey :: "(string \<rightharpoonup> bytes) \<Rightarrow> string \<Rightarrow> bytes option" where
  "StaticKeys_PublicKey m kid =
     (case m kid of Some key \<Rightarrow> if length key = PublicKeySize then Some key else None | None \<Rightarrow> None)"

section \<open>Patterns and closed sets\<close>

abbreviation A_Z :: "nat \<times> nat" where "A_Z \<equiv> crange CHR ''A'' CHR ''Z''"
abbreviation a_z :: "nat \<times> nat" where "a_z \<equiv> crange CHR ''a'' CHR ''z''"
abbreviation d_d :: "nat \<times> nat" where "d_d \<equiv> crange CHR ''0'' CHR ''9''"

definition url_chars :: "(nat \<times> nat) list" where
  "url_chars = [A_Z, a_z, d_d, cone CHR ''_'', cone CHR ''-'']"

definition kidPattern :: re where
  "kidPattern = r_reps (RCls [crange CHR ''!'' CHR ''~'']) 1 256"

definition issuerPattern :: re where
  "issuerPattern =
     (let ld = RCls [a_z, d_d] in
      seqs [lits ''https://'', ld,
            r_opt (RSeq (r_reps (RCls [a_z, d_d, cone CHR ''.'', cone CHR ''-'']) 0 251) ld),
            r_opt (RSeq (lit CHR '':'') (r_reps (RCls [d_d]) 1 5)),
            r_reps (seqs [lit CHR ''/'',
                          RCls [A_Z, a_z, d_d, cone CHR ''_'', cone CHR ''~'', cone CHR ''-''],
                          r_reps (RCls [A_Z, a_z, d_d, cone CHR ''.'', cone CHR ''_'', cone CHR ''~'', cone CHR ''-'']) 0 63])
              0 8])"

definition subjectPattern :: re where
  "subjectPattern = RSeq (lits ''prn_'') (r_plus (RCls url_chars))"

definition sessionPattern :: re where
  "sessionPattern = RSeq (lits ''ses_'') (r_reps (RCls url_chars) 22 64)"

definition jtiPattern :: re where
  "jtiPattern = r_reps (RCls url_chars) 22 64"

definition orgIDPattern :: re where
  "orgIDPattern =
     (let hex = RCls [d_d, crange CHR ''a'' CHR ''f''] in
      seqs [r_times hex 8, lit CHR ''-'', r_times hex 4, lit CHR ''-'', r_times hex 4, lit CHR ''-'',
            r_times hex 4, lit CHR ''-'', r_times hex 12])"

definition credentialIDPattern :: re where
  "credentialIDPattern = RSeq (lits ''crd_'') (r_reps (RCls url_chars) 1 64)"

definition algEdDSA :: string where "algEdDSA = ''EdDSA''"
definition typAccessToken :: string where "typAccessToken = ''at+jwt''"
definition typWorkloadToken :: string where "typWorkloadToken = ''workload+jwt''"
definition typServiceAccountToken :: string where "typServiceAccountToken = ''sa+jwt''"

definition scopeByAudience :: "string \<Rightarrow> string option" where
  "scopeByAudience aud =
     (if aud = ''dev-health-api'' then Some ''api:access''
      else if aud = ''auth-service'' then Some ''auth:session''
      else if aud = ''acr-api'' then Some ''acr:api''
      else if aud = ''acr-mcp'' then Some ''acr:mcp''
      else None)"

definition workloadAudiences :: "string list" where
  "workloadAudiences = [''auth-service'', ''dev-health-api'']"
definition serviceAccountVerifierAudiences :: "string list" where
  "serviceAccountVerifierAudiences = [''auth-service'', ''dev-health-api'']"
definition serviceAccountTokenAudience :: string where
  "serviceAccountTokenAudience = ''dev-health-api''"

definition headerMembers :: "string list" where "headerMembers = [''alg'', ''typ'', ''kid'']"
definition claimsMembers :: "string list" where
  "claimsMembers =
     [''iss'', ''aud'', ''sub'', ''principal_type'', ''sid'', ''jti'', ''iat'', ''nbf'', ''exp'', ''org_id'', ''act'', ''scope'']"
definition claimsRequired :: "string list" where
  "claimsRequired =
     [''iss'', ''aud'', ''sub'', ''principal_type'', ''sid'', ''jti'', ''iat'', ''nbf'', ''exp'', ''scope'']"
definition actMembers :: "string list" where "actMembers = [''sub'']"
definition workloadHeaderMembers :: "string list" where "workloadHeaderMembers = [''alg'', ''typ'', ''kid'']"
definition workloadClaimsMembers :: "string list" where
  "workloadClaimsMembers = [''iss'', ''aud'', ''sub'', ''principal_type'', ''jti'', ''iat'', ''nbf'', ''exp'']"
definition serviceAccountHeaderMembers :: "string list" where
  "serviceAccountHeaderMembers = [''alg'', ''typ'', ''kid'']"
definition serviceAccountClaimsMembers :: "string list" where
  "serviceAccountClaimsMembers =
     [''iss'', ''aud'', ''sub'', ''principal_type'', ''org_id'', ''cid'', ''jti'', ''iat'', ''nbf'', ''exp'']"

text \<open>Ceilings on \<open>exp - iat\<close>, in seconds, and on the configured clock skew.\<close>

definition lifetimeCeiling :: int where "lifetimeCeiling = 60 * 60"
definition WorkloadTokenLifetimeCeiling :: duration where "WorkloadTokenLifetimeCeiling = 300 * second"
definition workloadLifetimeCeiling :: int where
  "workloadLifetimeCeiling = WorkloadTokenLifetimeCeiling div second"
definition serviceAccountLifetimeCeiling :: int where
  "serviceAccountLifetimeCeiling = WorkloadTokenLifetimeCeiling div second"
definition MaxLeeway :: duration where "MaxLeeway = 60 * second"
definition MaxWorkloadLeeway :: duration where "MaxWorkloadLeeway = 30 * second"
definition MaxServiceAccountLeeway :: duration where "MaxServiceAccountLeeway = 30 * second"

section \<open>Claims\<close>

record AccessClaims =
  ac_Issuer :: string
  ac_Audience :: string
  ac_Subject :: string
  ac_SessionID :: string
  ac_TokenID :: string
  ac_Scope :: string
  ac_OrgID :: "string option"
  ac_ActorSubject :: "string option"
  ac_IssuedAt :: int
  ac_NotBefore :: int
  ac_ExpiresAt :: int

record WorkloadClaims =
  wc_Issuer :: string
  wc_Audience :: string
  wc_Subject :: string
  wc_TokenID :: string
  wc_IssuedAt :: int
  wc_NotBefore :: int
  wc_ExpiresAt :: int

record ServiceAccountClaims =
  sc_Issuer :: string
  sc_Audience :: string
  sc_Subject :: string
  sc_OrgID :: string
  sc_CredentialID :: string
  sc_TokenID :: string
  sc_IssuedAt :: int
  sc_NotBefore :: int
  sc_ExpiresAt :: int

text \<open>An optional member that must be well formed when it is there: \<open>Some None\<close> is absent.\<close>

definition optional_org :: "members \<Rightarrow> string option option" where
  "optional_org ob =
     (case obj_get ob ''org_id'' of
        None \<Rightarrow> Some None
      | Some _ \<Rightarrow> map_option Some (stringMember ob ''org_id'' (Some orgIDPattern)))"

definition optional_actor :: "members \<Rightarrow> string option option" where
  "optional_actor ob =
     (case obj_get ob ''act'' of
        None \<Rightarrow> Some None
      | Some (JObj act) \<Rightarrow>
          if \<not> closedSet act actMembers actMembers then None
          else map_option Some (stringMember act ''sub'' (Some subjectPattern))
      | Some _ \<Rightarrow> None)"

definition require :: "bool \<Rightarrow> unit option" where
  "require b = (if b then Some () else None)"

lemma require_Some [simp]: "require b = Some u \<longleftrightarrow> b"
  by (simp add: require_def)

definition parseAccessHeader :: "(string \<Rightarrow> string) \<Rightarrow> bytes \<Rightarrow> string option" where
  "parseAccessHeader f raw = do {
     ob \<leftarrow> decodeObject f raw;
     _ \<leftarrow> require (closedSet ob headerMembers headerMembers);
     alg \<leftarrow> stringMember ob ''alg'' None;
     _ \<leftarrow> require (alg = algEdDSA);
     typ \<leftarrow> stringMember ob ''typ'' None;
     _ \<leftarrow> require (typ = typAccessToken);
     stringMember ob ''kid'' (Some kidPattern)
   }"

definition parseAccessClaims :: "(string \<Rightarrow> string) \<Rightarrow> bytes \<Rightarrow> AccessClaims option" where
  "parseAccessClaims f raw = do {
     ob \<leftarrow> decodeObject f raw;
     _ \<leftarrow> require (closedSet ob claimsMembers claimsRequired);
     iss \<leftarrow> stringMember ob ''iss'' (Some issuerPattern);
     aud \<leftarrow> stringMember ob ''aud'' None;
     sub \<leftarrow> stringMember ob ''sub'' (Some subjectPattern);
     sid \<leftarrow> stringMember ob ''sid'' (Some sessionPattern);
     jti \<leftarrow> stringMember ob ''jti'' (Some jtiPattern);
     scope \<leftarrow> stringMember ob ''scope'' None;
     _ \<leftarrow> require (scopeByAudience aud = Some scope);
     ptype \<leftarrow> stringMember ob ''principal_type'' None;
     _ \<leftarrow> require (ptype = ''human'');
     org \<leftarrow> optional_org ob;
     actor \<leftarrow> optional_actor ob;
     iat \<leftarrow> numericDate ob ''iat'';
     nbf \<leftarrow> numericDate ob ''nbf'';
     exp \<leftarrow> numericDate ob ''exp'';
     _ \<leftarrow> require (\<not> (nbf < iat \<or> exp \<le> nbf \<or> exp - iat > lifetimeCeiling));
     Some \<lparr>ac_Issuer = iss, ac_Audience = aud, ac_Subject = sub, ac_SessionID = sid, ac_TokenID = jti,
       ac_Scope = scope, ac_OrgID = org, ac_ActorSubject = actor, ac_IssuedAt = iat, ac_NotBefore = nbf,
       ac_ExpiresAt = exp\<rparr>
   }"

definition parseWorkloadHeader :: "(string \<Rightarrow> string) \<Rightarrow> bytes \<Rightarrow> string option" where
  "parseWorkloadHeader f raw = do {
     ob \<leftarrow> decodeObject f raw;
     _ \<leftarrow> require (closedSet ob workloadHeaderMembers workloadHeaderMembers);
     alg \<leftarrow> stringMember ob ''alg'' None;
     _ \<leftarrow> require (alg = algEdDSA);
     typ \<leftarrow> stringMember ob ''typ'' None;
     _ \<leftarrow> require (typ = typWorkloadToken);
     stringMember ob ''kid'' (Some kidPattern)
   }"

definition parseWorkloadClaims :: "(string \<Rightarrow> string) \<Rightarrow> bytes \<Rightarrow> WorkloadClaims option" where
  "parseWorkloadClaims f raw = do {
     ob \<leftarrow> decodeObject f raw;
     _ \<leftarrow> require (closedSet ob workloadClaimsMembers workloadClaimsMembers);
     iss \<leftarrow> stringMember ob ''iss'' (Some issuerPattern);
     aud \<leftarrow> stringMember ob ''aud'' None;
     sub \<leftarrow> stringMember ob ''sub'' (Some subjectPattern);
     jti \<leftarrow> stringMember ob ''jti'' (Some jtiPattern);
     _ \<leftarrow> require (aud \<in> set workloadAudiences);
     ptype \<leftarrow> stringMember ob ''principal_type'' None;
     _ \<leftarrow> require (ptype = ''workload'');
     iat \<leftarrow> numericDate ob ''iat'';
     nbf \<leftarrow> numericDate ob ''nbf'';
     exp \<leftarrow> numericDate ob ''exp'';
     _ \<leftarrow> require (\<not> (nbf < iat \<or> exp \<le> nbf \<or> exp - iat > workloadLifetimeCeiling));
     Some \<lparr>wc_Issuer = iss, wc_Audience = aud, wc_Subject = sub, wc_TokenID = jti, wc_IssuedAt = iat,
       wc_NotBefore = nbf, wc_ExpiresAt = exp\<rparr>
   }"

definition parseServiceAccountHeader :: "(string \<Rightarrow> string) \<Rightarrow> bytes \<Rightarrow> string option" where
  "parseServiceAccountHeader f raw = do {
     ob \<leftarrow> decodeObject f raw;
     _ \<leftarrow> require (closedSet ob serviceAccountHeaderMembers serviceAccountHeaderMembers);
     alg \<leftarrow> stringMember ob ''alg'' None;
     _ \<leftarrow> require (alg = algEdDSA);
     typ \<leftarrow> stringMember ob ''typ'' None;
     _ \<leftarrow> require (typ = typServiceAccountToken);
     stringMember ob ''kid'' (Some kidPattern)
   }"

definition parseServiceAccountClaims :: "(string \<Rightarrow> string) \<Rightarrow> bytes \<Rightarrow> ServiceAccountClaims option" where
  "parseServiceAccountClaims f raw = do {
     ob \<leftarrow> decodeObject f raw;
     _ \<leftarrow> require (closedSet ob serviceAccountClaimsMembers serviceAccountClaimsMembers);
     iss \<leftarrow> stringMember ob ''iss'' (Some issuerPattern);
     aud \<leftarrow> stringMember ob ''aud'' None;
     sub \<leftarrow> stringMember ob ''sub'' (Some subjectPattern);
     org \<leftarrow> stringMember ob ''org_id'' (Some orgIDPattern);
     cid \<leftarrow> stringMember ob ''cid'' (Some credentialIDPattern);
     jti \<leftarrow> stringMember ob ''jti'' (Some jtiPattern);
     _ \<leftarrow> require (aud = serviceAccountTokenAudience);
     ptype \<leftarrow> stringMember ob ''principal_type'' None;
     _ \<leftarrow> require (ptype = ''service_account'');
     iat \<leftarrow> numericDate ob ''iat'';
     nbf \<leftarrow> numericDate ob ''nbf'';
     exp \<leftarrow> numericDate ob ''exp'';
     _ \<leftarrow> require (\<not> (nbf < iat \<or> exp \<le> nbf \<or> exp - iat > serviceAccountLifetimeCeiling));
     Some \<lparr>sc_Issuer = iss, sc_Audience = aud, sc_Subject = sub, sc_OrgID = org, sc_CredentialID = cid,
       sc_TokenID = jti, sc_IssuedAt = iat, sc_NotBefore = nbf, sc_ExpiresAt = exp\<rparr>
   }"

section \<open>Verifiers\<close>

text \<open>
  The three verifier structs have the same fields; \<open>v_leeway\<close> is in seconds. A nil
  \<open>KeySource\<close> in a configuration is \<open>None\<close>.
\<close>

record Verifier =
  v_issuer :: string
  v_audience :: string
  v_keys :: KeySource
  v_denied :: "string list"
  v_leeway :: int

record VerifierConfig =
  cfg_Issuer :: string
  cfg_Audience :: string
  cfg_Keys :: "KeySource option"
  cfg_DeniedKids :: "string list"
  cfg_Leeway :: duration

datatype verifier_error = NeedsIssuerAndKeys | UnknownAudience | LeewayOutOfBounds

definition bad_leeway :: "duration \<Rightarrow> duration \<Rightarrow> bool" where
  "bad_leeway most l = (l < 0 \<or> l > most \<or> l mod second \<noteq> 0)"

definition NewVerifier :: "VerifierConfig \<Rightarrow> verifier_error + Verifier" where
  "NewVerifier cfg =
     (case cfg_Keys cfg of
        None \<Rightarrow> Inl NeedsIssuerAndKeys
      | Some ks \<Rightarrow>
          if \<not> matches issuerPattern (cfg_Issuer cfg) then Inl NeedsIssuerAndKeys
          else if scopeByAudience (cfg_Audience cfg) = None then Inl UnknownAudience
          else if bad_leeway MaxLeeway (cfg_Leeway cfg) then Inl LeewayOutOfBounds
          else Inr \<lparr>v_issuer = cfg_Issuer cfg, v_audience = cfg_Audience cfg, v_keys = ks,
                    v_denied = cfg_DeniedKids cfg, v_leeway = cfg_Leeway cfg div second\<rparr>)"

definition NewWorkloadVerifier :: "VerifierConfig \<Rightarrow> verifier_error + Verifier" where
  "NewWorkloadVerifier cfg =
     (case cfg_Keys cfg of
        None \<Rightarrow> Inl NeedsIssuerAndKeys
      | Some ks \<Rightarrow>
          if \<not> matches issuerPattern (cfg_Issuer cfg) then Inl NeedsIssuerAndKeys
          else if cfg_Audience cfg \<notin> set workloadAudiences then Inl UnknownAudience
          else if bad_leeway MaxWorkloadLeeway (cfg_Leeway cfg) then Inl LeewayOutOfBounds
          else Inr \<lparr>v_issuer = cfg_Issuer cfg, v_audience = cfg_Audience cfg, v_keys = ks,
                    v_denied = cfg_DeniedKids cfg, v_leeway = cfg_Leeway cfg div second\<rparr>)"

definition NewServiceAccountVerifier :: "VerifierConfig \<Rightarrow> verifier_error + Verifier" where
  "NewServiceAccountVerifier cfg =
     (case cfg_Keys cfg of
        None \<Rightarrow> Inl NeedsIssuerAndKeys
      | Some ks \<Rightarrow>
          if \<not> matches issuerPattern (cfg_Issuer cfg) then Inl NeedsIssuerAndKeys
          else
            (let aud = (if cfg_Audience cfg = [] then serviceAccountTokenAudience else cfg_Audience cfg) in
             if aud \<notin> set serviceAccountVerifierAudiences then Inl UnknownAudience
             else if bad_leeway MaxServiceAccountLeeway (cfg_Leeway cfg) then Inl LeewayOutOfBounds
             else Inr \<lparr>v_issuer = cfg_Issuer cfg, v_audience = aud, v_keys = ks,
                       v_denied = cfg_DeniedKids cfg, v_leeway = cfg_Leeway cfg div second\<rparr>))"

definition Verify ::
  "(bytes \<Rightarrow> bytes \<Rightarrow> bytes \<Rightarrow> bool) \<Rightarrow> (string \<Rightarrow> string) \<Rightarrow> Verifier \<Rightarrow> string \<Rightarrow> instant \<Rightarrow> verify_error + AccessClaims" where
  "Verify ed f v token now =
     and_then (give (refuse ReasonContract) (splitCompact token)) (\<lambda>(headerPart, payloadPart, signaturePart).
     and_then (give (refuse ReasonContract) (DecodeString True headerPart)) (\<lambda>headerRaw.
     and_then (give (refuse ReasonContract) (DecodeString True payloadPart)) (\<lambda>payloadRaw.
     and_then (give (refuse ReasonContract) (parseAccessHeader f headerRaw)) (\<lambda>kid.
     and_then (give (refuse ReasonContract) (parseAccessClaims f payloadRaw)) (\<lambda>claims.
     and_then (demand (refuse ReasonUnknownKid) (kid \<notin> set (v_denied v))) (\<lambda>_.
     and_then (lookupKey (v_keys v) kid) (\<lambda>known.
     and_then (give (refuse ReasonUnknownKid) known) (\<lambda>key.
     and_then (demand (refuse ReasonUnknownKid) (length key = PublicKeySize)) (\<lambda>_.
     and_then (give (refuse ReasonSignature) (DecodeString True signaturePart)) (\<lambda>sig.
     and_then (demand (refuse ReasonSignature)
       (length sig = SignatureSize \<and> ed key (headerPart @ ''.'' @ payloadPart) sig)) (\<lambda>_.
     and_then (demand (refuse ReasonIssuer) (ac_Issuer claims = v_issuer v)) (\<lambda>_.
     and_then (demand (refuse ReasonAudience) (ac_Audience claims = v_audience v)) (\<lambda>_.
     and_then (demand (refuse ReasonNotYetValid) (\<not> unix_seconds now + v_leeway v < ac_NotBefore claims)) (\<lambda>_.
     and_then (demand (refuse ReasonExpired) (\<not> unix_seconds now - v_leeway v \<ge> ac_ExpiresAt claims)) (\<lambda>_.
     Inr claims)))))))))))))))"

definition Workload_Verify ::
  "(bytes \<Rightarrow> bytes \<Rightarrow> bytes \<Rightarrow> bool) \<Rightarrow> (string \<Rightarrow> string) \<Rightarrow> Verifier \<Rightarrow> string \<Rightarrow> instant \<Rightarrow> verify_error + WorkloadClaims" where
  "Workload_Verify ed f v token now =
     and_then (give (refuse ReasonContract) (splitCompact token)) (\<lambda>(headerPart, payloadPart, signaturePart).
     and_then (give (refuse ReasonContract) (DecodeString True headerPart)) (\<lambda>headerRaw.
     and_then (give (refuse ReasonContract) (DecodeString True payloadPart)) (\<lambda>payloadRaw.
     and_then (give (refuse ReasonContract) (parseWorkloadHeader f headerRaw)) (\<lambda>kid.
     and_then (give (refuse ReasonContract) (parseWorkloadClaims f payloadRaw)) (\<lambda>claims.
     and_then (demand (refuse ReasonUnknownKid) (kid \<notin> set (v_denied v))) (\<lambda>_.
     and_then (lookupKey (v_keys v) kid) (\<lambda>known.
     and_then (give (refuse ReasonUnknownKid) known) (\<lambda>key.
     and_then (demand (refuse ReasonUnknownKid) (length key = PublicKeySize)) (\<lambda>_.
     and_then (give (refuse ReasonSignature) (DecodeString True signaturePart)) (\<lambda>sig.
     and_then (demand (refuse ReasonSignature)
       (length sig = SignatureSize \<and> ed key (headerPart @ ''.'' @ payloadPart) sig)) (\<lambda>_.
     and_then (demand (refuse ReasonIssuer) (wc_Issuer claims = v_issuer v)) (\<lambda>_.
     and_then (demand (refuse ReasonAudience) (wc_Audience claims = v_audience v)) (\<lambda>_.
     and_then (demand (refuse ReasonNotYetValid) (\<not> unix_seconds now + v_leeway v < wc_NotBefore claims)) (\<lambda>_.
     and_then (demand (refuse ReasonExpired) (\<not> unix_seconds now - v_leeway v \<ge> wc_ExpiresAt claims)) (\<lambda>_.
     Inr claims)))))))))))))))"

definition ServiceAccount_Verify ::
  "(bytes \<Rightarrow> bytes \<Rightarrow> bytes \<Rightarrow> bool) \<Rightarrow> (string \<Rightarrow> string) \<Rightarrow> Verifier \<Rightarrow> string \<Rightarrow> instant \<Rightarrow> verify_error + ServiceAccountClaims" where
  "ServiceAccount_Verify ed f v token now =
     and_then (give (refuse ReasonContract) (splitCompact token)) (\<lambda>(headerPart, payloadPart, signaturePart).
     and_then (give (refuse ReasonContract) (DecodeString True headerPart)) (\<lambda>headerRaw.
     and_then (give (refuse ReasonContract) (DecodeString True payloadPart)) (\<lambda>payloadRaw.
     and_then (give (refuse ReasonContract) (parseServiceAccountHeader f headerRaw)) (\<lambda>kid.
     and_then (give (refuse ReasonContract) (parseServiceAccountClaims f payloadRaw)) (\<lambda>claims.
     and_then (demand (refuse ReasonUnknownKid) (kid \<notin> set (v_denied v))) (\<lambda>_.
     and_then (lookupKey (v_keys v) kid) (\<lambda>known.
     and_then (give (refuse ReasonUnknownKid) known) (\<lambda>key.
     and_then (demand (refuse ReasonUnknownKid) (length key = PublicKeySize)) (\<lambda>_.
     and_then (give (refuse ReasonSignature) (DecodeString True signaturePart)) (\<lambda>sig.
     and_then (demand (refuse ReasonSignature)
       (length sig = SignatureSize \<and> ed key (headerPart @ ''.'' @ payloadPart) sig)) (\<lambda>_.
     and_then (demand (refuse ReasonIssuer) (sc_Issuer claims = v_issuer v)) (\<lambda>_.
     and_then (demand (refuse ReasonAudience) (sc_Audience claims = v_audience v)) (\<lambda>_.
     and_then (demand (refuse ReasonNotYetValid) (\<not> unix_seconds now + v_leeway v < sc_NotBefore claims)) (\<lambda>_.
     and_then (demand (refuse ReasonExpired) (\<not> unix_seconds now - v_leeway v \<ge> sc_ExpiresAt claims)) (\<lambda>_.
     Inr claims)))))))))))))))"

section \<open>What the three verifiers have in common\<close>

text \<open>
  The contract of a token class: how its verifier composes the shared steps, what its header
  parser guarantees of the header document and what its claims parser guarantees of the times.
\<close>

definition signed_by :: "(bytes \<Rightarrow> bytes \<Rightarrow> bytes \<Rightarrow> bool) \<Rightarrow> Verifier \<Rightarrow> string \<Rightarrow> string \<Rightarrow> bytes \<Rightarrow> bool" where
  "signed_by ed v kid message sig \<longleftrightarrow>
     kid \<notin> set (v_denied v) \<and>
     (\<exists>key. lookupKey (v_keys v) kid = Inr (Some key) \<and> length key = PublicKeySize \<and>
        length sig = SignatureSize \<and> ed key message sig)"

definition token_parts :: "string \<Rightarrow> bytes \<Rightarrow> bytes \<Rightarrow> bytes \<Rightarrow> bool" where
  "token_parts token hr pr sig \<longleftrightarrow>
     length token \<le> 8192 \<and>
     token = EncodeToString hr @ ''.'' @ EncodeToString pr @ ''.'' @ EncodeToString sig"

abbreviation signing_input :: "bytes \<Rightarrow> bytes \<Rightarrow> string" where
  "signing_input hr pr \<equiv> EncodeToString hr @ ''.'' @ EncodeToString pr"

locale token_class =
  fixes verify :: "Verifier \<Rightarrow> string \<Rightarrow> instant \<Rightarrow> verify_error + 'c"
    and ed :: "bytes \<Rightarrow> bytes \<Rightarrow> bytes \<Rightarrow> bool"
    and f :: "string \<Rightarrow> string"
    and kind :: string
    and header :: "bytes \<Rightarrow> string option"
    and claims_of :: "bytes \<Rightarrow> 'c option"
    and iss :: "'c \<Rightarrow> string"
    and aud :: "'c \<Rightarrow> string"
    and iat :: "'c \<Rightarrow> int"
    and nbf :: "'c \<Rightarrow> int"
    and exp_of :: "'c \<Rightarrow> int"
    and most :: int
  assumes header_law: "header raw = Some kid \<Longrightarrow>
      \<exists>ob. decodeObject f raw = Some ob \<and> obj_get ob ''alg'' = Some (JStr algEdDSA) \<and>
        obj_get ob ''typ'' = Some (JStr kind) \<and> obj_get ob ''kid'' = Some (JStr kid) \<and>
        fst ` set ob \<subseteq> {''alg'', ''typ'', ''kid''}"
    and claims_law: "claims_of raw = Some c \<Longrightarrow> iat c \<le> nbf c \<and> nbf c < exp_of c \<and> exp_of c - iat c \<le> most"
    and verify_law: "verify v token now =
      and_then (give (refuse ReasonContract) (splitCompact token)) (\<lambda>(h, p, s).
      and_then (give (refuse ReasonContract) (DecodeString True h)) (\<lambda>hr.
      and_then (give (refuse ReasonContract) (DecodeString True p)) (\<lambda>pr.
      and_then (give (refuse ReasonContract) (header hr)) (\<lambda>kid.
      and_then (give (refuse ReasonContract) (claims_of pr)) (\<lambda>c.
      and_then (demand (refuse ReasonUnknownKid) (kid \<notin> set (v_denied v))) (\<lambda>_.
      and_then (lookupKey (v_keys v) kid) (\<lambda>known.
      and_then (give (refuse ReasonUnknownKid) known) (\<lambda>key.
      and_then (demand (refuse ReasonUnknownKid) (length key = PublicKeySize)) (\<lambda>_.
      and_then (give (refuse ReasonSignature) (DecodeString True s)) (\<lambda>sig.
      and_then (demand (refuse ReasonSignature) (length sig = SignatureSize \<and> ed key (h @ ''.'' @ p) sig)) (\<lambda>_.
      and_then (demand (refuse ReasonIssuer) (iss c = v_issuer v)) (\<lambda>_.
      and_then (demand (refuse ReasonAudience) (aud c = v_audience v)) (\<lambda>_.
      and_then (demand (refuse ReasonNotYetValid) (\<not> unix_seconds now + v_leeway v < nbf c)) (\<lambda>_.
      and_then (demand (refuse ReasonExpired) (\<not> unix_seconds now - v_leeway v \<ge> exp_of c)) (\<lambda>_.
      Inr c)))))))))))))))"
begin

lemma parts:
  assumes "splitCompact token = Some (h, p, s)" and "DecodeString True h = Some hr"
    and "DecodeString True p = Some pr" and "DecodeString True s = Some sig"
  shows "token_parts token hr pr sig" and "h = EncodeToString hr" and "p = EncodeToString pr"
proof -
  note t = splitCompact_token [OF assms(1)]
  show h: "h = EncodeToString hr" and p: "p = EncodeToString pr"
    using t(2,3) assms(2,3) strict_base64_canonical by blast+
  have "s = EncodeToString sig" using t(4) assms(4) strict_base64_canonical by blast
  then show "token_parts token hr pr sig" using t(1,5) h p by (simp add: token_parts_def)
qed

lemma accepted:
  assumes "verify v token now = Inr c"
  obtains hr pr sig kid where "token_parts token hr pr sig" and "header hr = Some kid" and "claims_of pr = Some c"
    and "signed_by ed v kid (signing_input hr pr) sig" and "iss c = v_issuer v" and "aud c = v_audience v"
    and "nbf c \<le> unix_seconds now + v_leeway v" and "unix_seconds now - v_leeway v < exp_of c"
proof -
  obtain h p s hr pr kid key sig where
    a: "splitCompact token = Some (h, p, s)" "DecodeString True h = Some hr" "DecodeString True p = Some pr"
       "DecodeString True s = Some sig"
    and b: "header hr = Some kid" "claims_of pr = Some c" "kid \<notin> set (v_denied v)"
       "lookupKey (v_keys v) kid = Inr (Some key)" "length key = PublicKeySize" "length sig = SignatureSize"
       "ed key (h @ ''.'' @ p) sig" "iss c = v_issuer v" "aud c = v_audience v"
       "nbf c \<le> unix_seconds now + v_leeway v" "unix_seconds now - v_leeway v < exp_of c"
    using assms unfolding verify_law by (auto simp: and_then_Inr)
  note t = parts [OF a]
  then have "signed_by ed v kid (signing_input hr pr) sig" using b by (auto simp: signed_by_def)
  with t b that show thesis by blast
qed

lemma accepts:
  assumes "token_parts token hr pr sig" and "header hr = Some kid" and "claims_of pr = Some c"
    and "signed_by ed v kid (signing_input hr pr) sig" and "iss c = v_issuer v" and "aud c = v_audience v"
    and "nbf c \<le> unix_seconds now + v_leeway v" and "unix_seconds now - v_leeway v < exp_of c"
  shows "verify v token now = Inr c"
proof -
  have e: "plain_base64 (EncodeToString x)" "DecodeString True (EncodeToString x) = Some x" for x
    using strict_base64_canonical by blast+
  have "splitCompact token = Some (EncodeToString hr, EncodeToString pr, EncodeToString sig)"
    using assms(1) splitCompact_parts [OF e(1) e(1) e(1)] by (auto simp: token_parts_def)
  then show ?thesis using assms e(2) unfolding verify_law by (auto simp: and_then_Inr signed_by_def)
qed

lemma times:
  assumes "verify v token now = Inr c"
  shows "unix_seconds now < iat c + most + v_leeway v" and "iat c \<le> unix_seconds now + v_leeway v"
    and "exp_of c - iat c \<le> most"
proof -
  obtain pr where "claims_of pr = Some c" "nbf c \<le> unix_seconds now + v_leeway v"
    "unix_seconds now - v_leeway v < exp_of c" using accepted [OF assms] by blast
  with claims_law show "unix_seconds now < iat c + most + v_leeway v" "iat c \<le> unix_seconds now + v_leeway v"
    "exp_of c - iat c \<le> most" by force+
qed

lemma names_class:
  assumes "verify v token now = Inr c"
  obtains hr pr sig ob where "token_parts token hr pr sig" and "decodeObject f hr = Some ob"
    and "obj_get ob ''typ'' = Some (JStr kind)"
  using accepted [OF assms] header_law by metis

text \<open>A reason past the signature is given only to a token with a valid signature.\<close>

lemma late_reason:
  assumes "verify v token now = Inl (RefusalError r)"
    and "r \<in> {ReasonIssuer, ReasonAudience, ReasonNotYetValid, ReasonExpired}"
  shows "\<exists>hr pr sig kid. token_parts token hr pr sig \<and> header hr = Some kid \<and>
    signed_by ed v kid (signing_input hr pr) sig"
proof -
  obtain h p s hr pr kid key sig where
    a: "splitCompact token = Some (h, p, s)" "DecodeString True h = Some hr" "DecodeString True p = Some pr"
       "DecodeString True s = Some sig"
    and b: "header hr = Some kid" "kid \<notin> set (v_denied v)" "lookupKey (v_keys v) kid = Inr (Some key)"
       "length key = PublicKeySize" "length sig = SignatureSize" "ed key (h @ ''.'' @ p) sig"
    using assms unfolding verify_law
    by (simp add: and_then_Inl split: prod.splits) blast
  note t = parts [OF a]
  then have "signed_by ed v kid (signing_input hr pr) sig" using b by (auto simp: signed_by_def)
  with t b show ?thesis by blast
qed

text \<open>A contract refusal depends on the token alone.\<close>

lemma contract_first:
  "verify v token now = Inl (RefusalError ReasonContract) \<Longrightarrow>
   verify v' token now' = Inl (RefusalError ReasonContract)"
  unfolding verify_law
  by (auto simp: and_then_Inl)

end

section \<open>The three token classes\<close>

lemma closedSet_names: "closedSet ob allow required \<Longrightarrow> fst ` set ob \<subseteq> set allow"
  by (auto simp: closedSet_def list_all_iff)

lemmas header_defs = parseAccessHeader_def parseWorkloadHeader_def parseServiceAccountHeader_def
  headerMembers_def workloadHeaderMembers_def serviceAccountHeaderMembers_def

text \<open>The three header parsers are one composition, at three types.\<close>

lemma header_shape:
  assumes "do {
     ob \<leftarrow> decodeObject f raw;
     _ \<leftarrow> require (closedSet ob [''alg'', ''typ'', ''kid''] [''alg'', ''typ'', ''kid'']);
     alg \<leftarrow> stringMember ob ''alg'' None;
     _ \<leftarrow> require (alg = algEdDSA);
     typ \<leftarrow> stringMember ob ''typ'' None;
     _ \<leftarrow> require (typ = kind);
     stringMember ob ''kid'' (Some kidPattern)
   } = Some kid"
  shows "\<exists>ob. decodeObject f raw = Some ob \<and> obj_get ob ''alg'' = Some (JStr algEdDSA) \<and>
      obj_get ob ''typ'' = Some (JStr kind) \<and> obj_get ob ''kid'' = Some (JStr kid) \<and>
      fst ` set ob \<subseteq> {''alg'', ''typ'', ''kid''}"
proof -
  obtain ob where ob: "decodeObject f raw = Some ob" "closedSet ob [''alg'', ''typ'', ''kid''] [''alg'', ''typ'', ''kid'']"
    "stringMember ob ''alg'' None = Some algEdDSA" "stringMember ob ''typ'' None = Some kind"
    "stringMember ob ''kid'' (Some kidPattern) = Some kid"
    using assms by (auto simp: bind_eq_Some_conv)
  have "fst ` set ob \<subseteq> {''alg'', ''typ'', ''kid''}" using closedSet_names [OF ob(2)] by simp
  then show ?thesis using ob(1) stringMember_get [OF ob(3)] stringMember_get [OF ob(4)] stringMember_get [OF ob(5)]
    by blast
qed

interpretation access: token_class "Verify ed f" ed f typAccessToken "parseAccessHeader f" "parseAccessClaims f"
  ac_Issuer ac_Audience ac_IssuedAt ac_NotBefore ac_ExpiresAt lifetimeCeiling
  for ed f
proof
  show "parseAccessHeader f raw = Some kid \<Longrightarrow> \<exists>ob. decodeObject f raw = Some ob \<and>
      obj_get ob ''alg'' = Some (JStr algEdDSA) \<and> obj_get ob ''typ'' = Some (JStr typAccessToken) \<and>
      obj_get ob ''kid'' = Some (JStr kid) \<and> fst ` set ob \<subseteq> {''alg'', ''typ'', ''kid''}" for raw kid
    unfolding header_defs by (rule header_shape)
  show "parseAccessClaims f raw = Some c \<Longrightarrow> ac_IssuedAt c \<le> ac_NotBefore c \<and> ac_NotBefore c < ac_ExpiresAt c \<and>
      ac_ExpiresAt c - ac_IssuedAt c \<le> lifetimeCeiling" for raw c
    by (auto simp: parseAccessClaims_def bind_eq_Some_conv)
qed (simp add: Verify_def)

interpretation workload: token_class "Workload_Verify ed f" ed f typWorkloadToken "parseWorkloadHeader f"
  "parseWorkloadClaims f" wc_Issuer wc_Audience wc_IssuedAt wc_NotBefore wc_ExpiresAt workloadLifetimeCeiling
  for ed f
proof
  show "parseWorkloadHeader f raw = Some kid \<Longrightarrow> \<exists>ob. decodeObject f raw = Some ob \<and>
      obj_get ob ''alg'' = Some (JStr algEdDSA) \<and> obj_get ob ''typ'' = Some (JStr typWorkloadToken) \<and>
      obj_get ob ''kid'' = Some (JStr kid) \<and> fst ` set ob \<subseteq> {''alg'', ''typ'', ''kid''}" for raw kid
    unfolding header_defs by (rule header_shape)
  show "parseWorkloadClaims f raw = Some c \<Longrightarrow> wc_IssuedAt c \<le> wc_NotBefore c \<and> wc_NotBefore c < wc_ExpiresAt c \<and>
      wc_ExpiresAt c - wc_IssuedAt c \<le> workloadLifetimeCeiling" for raw c
    by (auto simp: parseWorkloadClaims_def bind_eq_Some_conv)
qed (simp add: Workload_Verify_def)

interpretation service_account: token_class "ServiceAccount_Verify ed f" ed f typServiceAccountToken
  "parseServiceAccountHeader f" "parseServiceAccountClaims f" sc_Issuer sc_Audience sc_IssuedAt sc_NotBefore
  sc_ExpiresAt serviceAccountLifetimeCeiling
  for ed f
proof
  show "parseServiceAccountHeader f raw = Some kid \<Longrightarrow> \<exists>ob. decodeObject f raw = Some ob \<and>
      obj_get ob ''alg'' = Some (JStr algEdDSA) \<and> obj_get ob ''typ'' = Some (JStr typServiceAccountToken) \<and>
      obj_get ob ''kid'' = Some (JStr kid) \<and> fst ` set ob \<subseteq> {''alg'', ''typ'', ''kid''}" for raw kid
    unfolding header_defs by (rule header_shape)
  show "parseServiceAccountClaims f raw = Some c \<Longrightarrow> sc_IssuedAt c \<le> sc_NotBefore c \<and>
      sc_NotBefore c < sc_ExpiresAt c \<and> sc_ExpiresAt c - sc_IssuedAt c \<le> serviceAccountLifetimeCeiling" for raw c
    by (auto simp: parseServiceAccountClaims_def bind_eq_Some_conv)
qed (simp add: ServiceAccount_Verify_def)

lemma encoded_parts_unique:
  assumes "token_parts token hr pr sig" and "token_parts token hr' pr' sig'"
  shows "hr = hr'"
proof -
  have dot: "CHR ''.'' \<notin> set (EncodeToString x)" for x
    using strict_base64_canonical [of "EncodeToString x" x]
    by (auto simp: plain_base64_def list_all_iff sextet_def Let_def)
  have "EncodeToString hr = EncodeToString hr'"
    using assms split_on_append [OF dot] unfolding token_parts_def by (metis append_Cons append_Nil list.inject)
  then show ?thesis using strict_base64_canonical by (metis option.inject)
qed

lemma New_bounds:
  "NewVerifier cfg = Inr v \<Longrightarrow> 0 \<le> v_leeway v \<and> v_leeway v \<le> 60 \<and> v_issuer v = cfg_Issuer cfg \<and>
     v_audience v = cfg_Audience cfg \<and> Some (v_keys v) = cfg_Keys cfg \<and> v_denied v = cfg_DeniedKids cfg"
  "NewWorkloadVerifier cfg = Inr w \<Longrightarrow> 0 \<le> v_leeway w \<and> v_leeway w \<le> 30"
  "NewServiceAccountVerifier cfg = Inr u \<Longrightarrow> 0 \<le> v_leeway u \<and> v_leeway u \<le> 30"
  by (auto simp: NewVerifier_def NewWorkloadVerifier_def NewServiceAccountVerifier_def bad_leeway_def MaxLeeway_def
      MaxWorkloadLeeway_def MaxServiceAccountLeeway_def second_def Let_def split: option.splits if_splits)

section \<open>Properties of the verifiers\<close>

text \<open>
  C6. A verified access token is authentic, current and canonical. When a configured verifier
  accepts a token, the token is exactly the three canonical base64url encodings of a header, a
  payload and a signature; the header is an unambiguous JSON object with only \<open>alg\<close>
  EdDSA, \<open>typ\<close> at+jwt and a \<open>kid\<close> that is not denied; the key the configured source
  holds for that \<open>kid\<close> verifies the signature over header and payload; the claims are the
  payload's, name the configured issuer and audience and the scope of that audience; the
  token lives at most an hour, and the time is within its window widened by at most a minute.
\<close>

theorem access_token_sound:
  assumes "NewVerifier cfg = Inr v" and "Verify ed f v token now = Inr c"
  shows "\<exists>hr pr sig ob kid key ks. token_parts token hr pr sig \<and>
    json_text hr (JObj ob) \<and> fold_distinct f (JObj ob) \<and> fst ` set ob \<subseteq> {''alg'', ''typ'', ''kid''} \<and>
    obj_get ob ''alg'' = Some (JStr ''EdDSA'') \<and> obj_get ob ''typ'' = Some (JStr ''at+jwt'') \<and>
    obj_get ob ''kid'' = Some (JStr kid) \<and> kid \<notin> set (cfg_DeniedKids cfg) \<and>
    cfg_Keys cfg = Some ks \<and> lookupKey ks kid = Inr (Some key) \<and> ed key (signing_input hr pr) sig \<and>
    parseAccessClaims f pr = Some c \<and> ac_Issuer c = cfg_Issuer cfg \<and> ac_Audience c = cfg_Audience cfg \<and>
    scopeByAudience (ac_Audience c) = Some (ac_Scope c) \<and>
    ac_ExpiresAt c - ac_IssuedAt c \<le> 3600 \<and>
    ac_NotBefore c - 60 \<le> unix_seconds now \<and> unix_seconds now < ac_ExpiresAt c + 60"
proof -
  note b = New_bounds(1) [OF assms(1)]
  obtain hr pr sig kid where a: "token_parts token hr pr sig" "parseAccessHeader f hr = Some kid"
    "parseAccessClaims f pr = Some c" "signed_by ed v kid (signing_input hr pr) sig" "ac_Issuer c = v_issuer v"
    "ac_Audience c = v_audience v" "ac_NotBefore c \<le> unix_seconds now + v_leeway v"
    "unix_seconds now - v_leeway v < ac_ExpiresAt c" using access.accepted [OF assms(2)] by blast
  obtain ob where ob: "decodeObject f hr = Some ob" "obj_get ob ''alg'' = Some (JStr algEdDSA)"
    "obj_get ob ''typ'' = Some (JStr typAccessToken)" "obj_get ob ''kid'' = Some (JStr kid)"
    "fst ` set ob \<subseteq> {''alg'', ''typ'', ''kid''}" using access.header_law [OF a(2)] by blast
  obtain key where key: "kid \<notin> set (cfg_DeniedKids cfg)" "lookupKey (v_keys v) kid = Inr (Some key)"
    "ed key (signing_input hr pr) sig" using a(4) b by (auto simp: signed_by_def)
  have "scopeByAudience (ac_Audience c) = Some (ac_Scope c)"
    using a(3) by (auto simp: parseAccessClaims_def bind_eq_Some_conv)
  moreover have "ac_ExpiresAt c - ac_IssuedAt c \<le> 3600"
    using access.times(3) [OF assms(2)] by (simp add: lifetimeCeiling_def)
  moreover have "ac_NotBefore c - 60 \<le> unix_seconds now" "unix_seconds now < ac_ExpiresAt c + 60" using a(7,8) b by auto
  moreover note decodeObject_tree [OF ob(1)]
  ultimately show ?thesis using a(1,3,5,6) ob(2-5) key b by (metis algEdDSA_def typAccessToken_def)
qed

text \<open>
  C10. No token is good for two classes: whatever the verifiers, their keys and the times, a
  token that one of the access, workload and service account verifiers accepts is refused by
  the other two.
\<close>

theorem token_classes_disjoint:
  "\<not> (\<exists>c d. Verify ed f v token now = Inr c \<and> Workload_Verify ed' f v' token now' = Inr d) \<and>
   \<not> (\<exists>c d. Verify ed f v token now = Inr c \<and> ServiceAccount_Verify ed' f v' token now' = Inr d) \<and>
   \<not> (\<exists>c d. Workload_Verify ed f v token now = Inr c \<and> ServiceAccount_Verify ed' f v' token now' = Inr d)"
proof -
  have same: False if "token_parts token hr pr sig" "decodeObject f hr = Some ob" "obj_get ob ''typ'' = Some (JStr t)"
    "token_parts token hr' pr' sig'" "decodeObject f hr' = Some ob'" "obj_get ob' ''typ'' = Some (JStr t')" "t \<noteq> t'"
    for hr pr sig ob t hr' pr' sig' ob' t'
    using encoded_parts_unique [OF that(1,4)] that by simp
  have ne: "typAccessToken \<noteq> typWorkloadToken" "typAccessToken \<noteq> typServiceAccountToken"
    "typWorkloadToken \<noteq> typServiceAccountToken"
    by (simp_all add: typAccessToken_def typWorkloadToken_def typServiceAccountToken_def)
  show ?thesis
    using access.names_class workload.names_class service_account.names_class same ne by metis
qed

text \<open>
  C11. Refusals leak nothing about unsigned claims: a verifier refuses for the issuer, the
  audience or the times only a token whose signature a trusted key verifies, and whether a
  token breaks the contract does not depend on keys, configuration or time.
\<close>

theorem refusal_order:
  "(Verify ed f v token now = Inl (RefusalError r) \<and> r \<in> {ReasonIssuer, ReasonAudience, ReasonNotYetValid, ReasonExpired} \<longrightarrow>
     (\<exists>hr pr sig kid. token_parts token hr pr sig \<and> parseAccessHeader f hr = Some kid \<and>
        signed_by ed v kid (signing_input hr pr) sig)) \<and>
   (Verify ed f v token now = Inl (RefusalError ReasonContract) \<longleftrightarrow>
    Verify ed f v' token now' = Inl (RefusalError ReasonContract))"
  using access.late_reason [of ed f v token now r] access.contract_first by blast

text \<open>
  C12. Short-lived tokens stay short: a workload or service account token accepted by a
  configured verifier was issued at most 300 seconds, plus at most 30 seconds of skew, before
  the time of the check, and names a service audience.
\<close>

theorem short_tokens:
  "(NewWorkloadVerifier wcfg = Inr w \<and> Workload_Verify ed f w token now = Inr c \<longrightarrow>
     unix_seconds now < wc_IssuedAt c + 330 \<and> wc_IssuedAt c \<le> unix_seconds now + 30 \<and>
     wc_Audience c \<in> {''auth-service'', ''dev-health-api''}) \<and>
   (NewServiceAccountVerifier scfg = Inr u \<and> ServiceAccount_Verify ed f u token' now = Inr d \<longrightarrow>
     unix_seconds now < sc_IssuedAt d + 330 \<and> sc_IssuedAt d \<le> unix_seconds now + 30 \<and>
     sc_Audience d = ''dev-health-api'' \<and> v_audience u = ''dev-health-api'')"
proof (intro conjI impI)
  assume a: "NewWorkloadVerifier wcfg = Inr w \<and> Workload_Verify ed f w token now = Inr c"
  then have v: "Workload_Verify ed f w token now = Inr c" and l: "0 \<le> v_leeway w" "v_leeway w \<le> 30"
    using New_bounds(2) by blast+
  show "unix_seconds now < wc_IssuedAt c + 330" "wc_IssuedAt c \<le> unix_seconds now + 30"
    using workload.times [OF v] l
    by (simp_all add: workloadLifetimeCeiling_def WorkloadTokenLifetimeCeiling_def second_def)
  obtain pr where "parseWorkloadClaims f pr = Some c" using workload.accepted [OF v] by blast
  then show "wc_Audience c \<in> {''auth-service'', ''dev-health-api''}"
    by (auto simp: parseWorkloadClaims_def bind_eq_Some_conv workloadAudiences_def)
next
  assume a: "NewServiceAccountVerifier scfg = Inr u \<and> ServiceAccount_Verify ed f u token' now = Inr d"
  then have v: "ServiceAccount_Verify ed f u token' now = Inr d" and l: "0 \<le> v_leeway u" "v_leeway u \<le> 30"
    using New_bounds(3) by blast+
  show "unix_seconds now < sc_IssuedAt d + 330" "sc_IssuedAt d \<le> unix_seconds now + 30"
    using service_account.times [OF v] l
    by (simp_all add: serviceAccountLifetimeCeiling_def WorkloadTokenLifetimeCeiling_def second_def)
  obtain pr where p: "parseServiceAccountClaims f pr = Some d" "sc_Audience d = v_audience u"
    using service_account.accepted [OF v] by blast
  then show "sc_Audience d = ''dev-health-api''"
    by (auto simp: parseServiceAccountClaims_def bind_eq_Some_conv serviceAccountTokenAudience_def)
  with p show "v_audience u = ''dev-health-api''" by simp
qed

end
