(* ===== verification/Go_Struct.thy ===== *)
theory Go_Struct
  imports Go_Json
begin

text \<open>
  \<open>json.Unmarshal\<close> into a struct goes through the members of an object in order: a member
  binds to the field it names, or names up to folding; \<open>null\<close> leaves a field alone; a
  repeated member is decoded over the earlier value; unknown members are skipped, and a value
  of another type is an error. \<open>f\<close> is Unicode simple folding.
\<close>

definition field_of :: "(string \<Rightarrow> string) \<Rightarrow> string list \<Rightarrow> string \<Rightarrow> string option" where
  "field_of f fs n =
     (if n \<in> set fs then Some n else find (\<lambda>k. f k = f n) fs)"

definition into_string :: "json \<Rightarrow> string \<Rightarrow> string option" where
  "into_string v s = (case v of JNull \<Rightarrow> Some s | JStr x \<Rightarrow> Some x | _ \<Rightarrow> None)"

definition into_bool :: "json \<Rightarrow> bool \<Rightarrow> bool option" where
  "into_bool v b = (case v of JNull \<Rightarrow> Some b | JBool x \<Rightarrow> Some x | _ \<Rightarrow> None)"

text \<open>Decoding an object over a struct, member by member.\<close>

fun into_fields :: "(string \<Rightarrow> string) \<Rightarrow> string list \<Rightarrow> (string \<Rightarrow> json \<Rightarrow> 'a \<Rightarrow> 'a option) \<Rightarrow> (string \<times> json) list \<Rightarrow> 'a \<Rightarrow> 'a option" where
  "into_fields f fs put [] x = Some x"
| "into_fields f fs put ((n, v) # ms) x =
     (case field_of f fs n of
        None \<Rightarrow> into_fields f fs put ms x
      | Some k \<Rightarrow> Option.bind (put k v x) (into_fields f fs put ms))"

definition into_struct :: "(string \<Rightarrow> string) \<Rightarrow> string list \<Rightarrow> (string \<Rightarrow> json \<Rightarrow> 'a \<Rightarrow> 'a option) \<Rightarrow> json \<Rightarrow> 'a \<Rightarrow> 'a option" where
  "into_struct f fs put v x =
     (case v of JNull \<Rightarrow> Some x | JObj ms \<Rightarrow> into_fields f fs put ms x | _ \<Rightarrow> None)"

text \<open>A pointer field: \<open>null\<close> makes it nil, anything else is decoded over what it points to.\<close>

definition into_ptr :: "'a \<Rightarrow> (json \<Rightarrow> 'a \<Rightarrow> 'a option) \<Rightarrow> json \<Rightarrow> 'a option \<Rightarrow> 'a option option" where
  "into_ptr zero put v p =
     (case v of
        JNull \<Rightarrow> Some None
      | _ \<Rightarrow> map_option Some (put v (case p of None \<Rightarrow> zero | Some x \<Rightarrow> x)))"

text \<open>
  A slice keeps its array when a repeated member is decoded over it: a \<open>null\<close> element
  leaves what the array holds there. \<open>grow\<close> is the capacity the runtime gives a slice that
  must hold one more element, which the language does not fix.
\<close>

record 'a slice =
  arr :: "'a list"
  len :: nat

definition nil_slice :: "'a slice" where
  "nil_slice = \<lparr>arr = [], len = 0\<rparr>"

definition elems_of :: "'a slice \<Rightarrow> 'a list" where
  "elems_of s = take (len s) (arr s)"

definition grown :: "(nat \<Rightarrow> nat) \<Rightarrow> 'a \<Rightarrow> nat \<Rightarrow> 'a slice \<Rightarrow> 'a slice" where
  "grown grow zero i s =
     (let s1 = (if i \<ge> length (arr s)
                then s\<lparr>arr := take (len s) (arr s) @ replicate (max (grow i) (Suc i) - len s) zero\<rparr> else s)
      in if i \<ge> len s1 then s1\<lparr>len := Suc i\<rparr> else s1)"

fun fill_slice ::
  "(nat \<Rightarrow> nat) \<Rightarrow> 'a \<Rightarrow> (json \<Rightarrow> 'a \<Rightarrow> 'a option) \<Rightarrow> json list \<Rightarrow> nat \<Rightarrow> 'a slice \<Rightarrow> 'a slice option" where
  "fill_slice grow zero put [] i s = Some (if i = 0 then nil_slice else s\<lparr>len := i\<rparr>)"
| "fill_slice grow zero put (v # vs) i s =
     (let s1 = grown grow zero i s in
      case put v (arr s1 ! i) of
        None \<Rightarrow> None
      | Some x \<Rightarrow> fill_slice grow zero put vs (Suc i) (s1\<lparr>arr := (arr s1)[i := x]\<rparr>))"

definition into_slice ::
  "(nat \<Rightarrow> nat) \<Rightarrow> 'a \<Rightarrow> (json \<Rightarrow> 'a \<Rightarrow> 'a option) \<Rightarrow> json \<Rightarrow> 'a slice \<Rightarrow> 'a slice option" where
  "into_slice grow zero put v s =
     (case v of JNull \<Rightarrow> Some nil_slice | JArr vs \<Rightarrow> fill_slice grow zero put vs 0 s | _ \<Rightarrow> None)"

end
