(* ===== verification/Auth_Jwks.thy ===== *)
theory Auth_Jwks
  imports Auth_Token Go_Struct
begin

text \<open>
  authverify/jwks.go: the strict JWKS parser that the file reader and the HTTP client share.
  Decoding into the structs is \<open>encoding/json\<close>'s: a member binds to the field whose name
  it equals, or equals up to folding; an unknown member and a value of the wrong type are
  errors; \<open>null\<close> leaves a string or a slice at its zero value. Names are distinct up to
  folding by then, so a field has at most one member.
\<close>

section \<open>Decoding into structs\<close>

definition known_members :: "(string \<Rightarrow> string) \<Rightarrow> string list \<Rightarrow> members \<Rightarrow> bool" where
  "known_members f fs ms = list_all (\<lambda>(n, v). field_of f fs n \<noteq> None) ms"

definition field_value :: "(string \<Rightarrow> string) \<Rightarrow> string list \<Rightarrow> members \<Rightarrow> string \<Rightarrow> json option" where
  "field_value f fs ms k = map_option snd (find (\<lambda>(n, v). field_of f fs n = Some k) ms)"

definition string_value :: "json option \<Rightarrow> string option" where
  "string_value v =
     (case v of None \<Rightarrow> Some [] | Some JNull \<Rightarrow> Some [] | Some (JStr s) \<Rightarrow> Some s | Some _ \<Rightarrow> None)"

section \<open>The retire_after member\<close>

definition retireAfterGrammar :: re where
  "retireAfterGrammar =
     (let d = RCls [d_d]; dd = r_times d 2 in
      seqs [r_times d 4, lit CHR ''-'', dd, lit CHR ''-'', dd, RCls [cone CHR ''T'', cone CHR ''t''],
            dd, lit CHR '':'', dd, lit CHR '':'', dd, r_opt (RSeq (lit CHR ''.'') (r_plus d)),
            alts [RCls [cone CHR ''Z'', cone CHR ''z''], lits ''+00:00'', lits ''-00:00'']])"

text \<open>
  The groups of the grammar are at fixed positions: the date, hour, minute and second, and the
  digits after the dot. \<open>None\<close> is \<open>ErrInvalidJWKS\<close>.
\<close>

definition retire_time :: "string \<Rightarrow> instant option" where
  "retire_time text =
     (if \<not> matches retireAfterGrammar text then None
      else
        (let date = take 10 text; hour = take 2 (drop 11 text); minute = take 2 (drop 14 text);
             second = take 2 (drop 17 text); fraction = take 9 (frac_digits text);
             clock = hour @ '':'' @ minute @ '':'' @ second @ (if fraction = [] then [] else ''.'' @ fraction)
         in if second = ''60'' then None else parse_rfc3339 (date @ ''T'' @ clock @ ''Z'')))"

text \<open>\<open>Some None\<close>: the member is absent. A \<open>null\<close> reaches the method as the empty text.\<close>

definition retire_value :: "json option \<Rightarrow> instant option option" where
  "retire_value v =
     (case v of
        None \<Rightarrow> Some None
      | Some (JStr text) \<Rightarrow> map_option Some (retire_time text)
      | Some JNull \<Rightarrow> map_option Some (retire_time [])
      | Some _ \<Rightarrow> None)"

text \<open>The instant read from the grammar, with the fraction rounded down to nanoseconds.\<close>

lemma scale_down: "m \<le> n \<Longrightarrow> x * 10 ^ n div 10 ^ m = (x * 10 ^ (n - m) :: int)"
proof -
  assume "m \<le> n"
  then have "(10 :: int) ^ n = 10 ^ (n - m) * 10 ^ m" by (metis le_add_diff_inverse2 power_add)
  then have "x * 10 ^ n = (x * 10 ^ (n - m)) * 10 ^ m" by (simp only: mult.assoc)
  then show ?thesis by (simp only: nonzero_mult_div_cancel_right power_eq_0_iff zero_neq_numeral)
     simp
qed

lemma frac_nanos_floor:
  assumes "list_all is_digit ds"
  shows "frac_nanos (take 9 ds) = dec_value ds * 10 ^ 9 div 10 ^ length ds"
proof (cases "length ds \<le> 9")
  case True
  then show ?thesis unfolding scale_down [OF True] frac_nanos_def by simp
next
  case False
  let ?a = "take 9 ds" and ?b = "drop 9 ds"
  have "list_all is_digit ?b" using assms by (metis append_take_drop_id list_all_append)
  then have b: "0 \<le> dec_value ?b" "dec_value ?b < 10 ^ length ?b" using dec_value_bound dec_value_nonneg by blast+
  have v: "dec_value ds = dec_value ?a * 10 ^ length ?b + dec_value ?b"
    using dec_value_append [of ?a ?b] by simp
  have l: "length ds = 9 + length ?b" using False by simp
  have "dec_value ds * 10 ^ 9 div 10 ^ length ds = dec_value ds * 10 ^ 9 div (10 ^ 9 * 10 ^ length ?b)"
    by (subst l) (simp only: power_add)
  also have "\<dots> = dec_value ds div 10 ^ length ?b"
    by (subst mult.commute) (rule div_mult_mult1, simp)
  also have "\<dots> = dec_value ?a" unfolding v using b by (subst div_add1_eq) (simp add: div_pos_pos_trivial)
  finally show ?thesis using False by (simp add: frac_nanos_def)
qed

lemma frac_digits_digits: "list_all is_digit (frac_digits s)"
  by (auto simp: frac_digits_def list_all_iff dest: set_takeWhileD split: list.splits)

lemma takeWhile_digits: "list_all is_digit ds \<Longrightarrow> takeWhile is_digit (ds @ ''Z'') = ds"
  by (induction ds) (auto simp: is_digit_def less_eq_char_def)

lemma recomposed_time:
  assumes len: "length date = 10" "length h = 2" "length mi = 2" "length s = 2" and fr: "list_all is_digit fr"
  shows "parse_rfc3339 (date @ ''T'' @ (h @ '':'' @ mi @ '':'' @ s @ (if fr = [] then [] else ''.'' @ fr)) @ ''Z'') =
    (if field 5 2 date < 1 \<or> 12 < field 5 2 date \<or> field 8 2 date < 1 \<or>
        days_in_month (field 0 4 date) (field 5 2 date) < field 8 2 date \<or>
        24 \<le> dec_value h \<or> 60 \<le> dec_value mi \<or> 60 \<le> dec_value s then None
     else Some (Date_UTC (field 0 4 date) (field 5 2 date) (field 8 2 date) (dec_value h) (dec_value mi) (dec_value s)
       (frac_nanos fr)))"
proof -
  let ?t = "if fr = [] then ''Z'' else ''.'' @ fr @ ''Z''"
  let ?s = "date @ ''T'' @ h @ '':'' @ mi @ '':'' @ s @ ?t"
  have eq: "date @ ''T'' @ (h @ '':'' @ mi @ '':'' @ s @ (if fr = [] then [] else ''.'' @ fr)) @ ''Z'' = ?s" by simp
  have f: "field 0 4 ?s = field 0 4 date" "field 5 2 ?s = field 5 2 date" "field 8 2 ?s = field 8 2 date"
    "field 11 2 ?s = dec_value h" "field 14 2 ?s = dec_value mi" "field 17 2 ?s = dec_value s" "drop 19 ?s = ?t"
    using len by (simp_all add: field_def)
  have d: "frac_digits ?s = fr" unfolding frac_digits_def f(7) using takeWhile_digits [OF fr] by simp
  have tail: "drop (19 + n) ?s = drop n ?t" for n using drop_drop [of n 19 ?s] f(7) by (simp only: add.commute)
  have z: "drop (19 + (if fr = [] then 0 else 1 + length fr)) ?s = ''Z''" unfolding tail by simp
  show ?thesis unfolding eq parse_rfc3339_def Let_def f(1-6) d z by (simp add: zone_offset_def)
qed

lemma retire_time_fields:
  assumes "retire_time w = Some t"
  shows "t = Date_UTC (field 0 4 w) (field 5 2 w) (field 8 2 w) (field 11 2 w) (field 14 2 w) (field 17 2 w)
    (dec_value (frac_digits w) * 10 ^ 9 div 10 ^ length (frac_digits w))"
proof -
  have "matches retireAfterGrammar w" using assms by (auto simp: retire_time_def split: if_splits)
  from matches_min_length [OF this] have len: "20 \<le> length w" by (simp add: retireAfterGrammar_def Let_def lit_def)
  let ?fr = "take 9 (frac_digits w)"
  have fr: "list_all is_digit ?fr" using frac_digits_digits [of w] by (metis append_take_drop_id list_all_append)
  have l: "length (take 10 w) = 10" "length (take 2 (drop 11 w)) = 2" "length (take 2 (drop 14 w)) = 2"
    "length (take 2 (drop 17 w)) = 2" using len by simp_all
  have d: "field 0 4 (take 10 w) = field 0 4 w" "field 5 2 (take 10 w) = field 5 2 w"
    "field 8 2 (take 10 w) = field 8 2 w" by (simp_all add: field_def drop_take)
  have "t = Date_UTC (field 0 4 w) (field 5 2 w) (field 8 2 w) (dec_value (take 2 (drop 11 w)))
      (dec_value (take 2 (drop 14 w))) (dec_value (take 2 (drop 17 w))) (frac_nanos ?fr)"
    using assms recomposed_time [OF l fr] unfolding d by (simp add: retire_time_def Let_def split: if_splits)
  then show ?thesis unfolding frac_nanos_floor [OF frac_digits_digits] by (simp add: field_def)
qed

section \<open>Keys\<close>

record jwk =
  KeyType :: string
  Curve :: string
  KeyID :: string
  Use :: string
  Alg :: string
  X :: string
  RetireAfter :: "instant option"

definition jwk_fields :: "string list" where
  "jwk_fields = [''kty'', ''crv'', ''kid'', ''use'', ''alg'', ''x'', ''retire_after'']"

definition zero_jwk :: jwk where
  "zero_jwk = \<lparr>KeyType = [], Curve = [], KeyID = [], Use = [], Alg = [], X = [], RetireAfter = None\<rparr>"

definition decode_jwk :: "(string \<Rightarrow> string) \<Rightarrow> json \<Rightarrow> jwk option" where
  "decode_jwk f v =
     (case v of
        JNull \<Rightarrow> Some zero_jwk
      | JObj ms \<Rightarrow> do {
          _ \<leftarrow> require (known_members f jwk_fields ms);
          kty \<leftarrow> string_value (field_value f jwk_fields ms ''kty'');
          crv \<leftarrow> string_value (field_value f jwk_fields ms ''crv'');
          kid \<leftarrow> string_value (field_value f jwk_fields ms ''kid'');
          use \<leftarrow> string_value (field_value f jwk_fields ms ''use'');
          alg \<leftarrow> string_value (field_value f jwk_fields ms ''alg'');
          x \<leftarrow> string_value (field_value f jwk_fields ms ''x'');
          at \<leftarrow> retire_value (field_value f jwk_fields ms ''retire_after'');
          Some \<lparr>KeyType = kty, Curve = crv, KeyID = kid, Use = use, Alg = alg, X = x, RetireAfter = at\<rparr>
        }
      | _ \<Rightarrow> None)"

text \<open>\<open>decoder.Decode(&document)\<close> with unknown fields disallowed: the keys of the document.\<close>

definition decode_jwks :: "(string \<Rightarrow> string) \<Rightarrow> bytes \<Rightarrow> jwk list option" where
  "decode_jwks f encoded =
     (case json_unmarshal encoded of
        Some JNull \<Rightarrow> Some []
      | Some (JObj ms) \<Rightarrow>
          if \<not> known_members f [''keys''] ms then None
          else
            (case field_value f [''keys''] ms ''keys'' of
               None \<Rightarrow> Some []
             | Some JNull \<Rightarrow> Some []
             | Some (JArr vs) \<Rightarrow> those (map (decode_jwk f) vs)
             | Some _ \<Rightarrow> None)
      | _ \<Rightarrow> None)"

record JWKSKey =
  Public :: bytes
  key_RetireAfter :: "instant option"

definition validKeyID :: "string \<Rightarrow> bool" where
  "validKeyID value = (let v = trim_space value in v \<noteq> [] \<and> length v \<le> 256)"

text \<open>One pass of the loop over the candidates; the keys are in the order of the document.\<close>

definition check_key :: "bool \<Rightarrow> jwk \<Rightarrow> (string \<times> JWKSKey) list \<Rightarrow> (string \<times> JWKSKey) list option" where
  "check_key admitRetireAfter candidate ks =
     (case DecodeString False (X candidate) of
        None \<Rightarrow> None
      | Some key \<Rightarrow>
          if KeyType candidate \<noteq> ''OKP'' \<or> Curve candidate \<noteq> ''Ed25519'' \<or> Alg candidate \<noteq> ''EdDSA'' \<or>
             (Use candidate \<noteq> [] \<and> Use candidate \<noteq> ''sig'') \<or> \<not> validKeyID (KeyID candidate) \<or>
             length key \<noteq> PublicKeySize then None
          else if map_of ks (KeyID candidate) \<noteq> None then None
          else if RetireAfter candidate \<noteq> None \<and> \<not> admitRetireAfter then None
          else Some (ks @ [(KeyID candidate, \<lparr>Public = key, key_RetireAfter = RetireAfter candidate\<rparr>)]))"

fun check_keys :: "bool \<Rightarrow> jwk list \<Rightarrow> (string \<times> JWKSKey) list \<Rightarrow> (string \<times> JWKSKey) list option" where
  "check_keys admit [] ks = Some ks"
| "check_keys admit (c # cs) ks =
     (case check_key admit c ks of None \<Rightarrow> None | Some ks' \<Rightarrow> check_keys admit cs ks')"

definition parseJWKSDocument :: "(string \<Rightarrow> string) \<Rightarrow> bytes \<Rightarrow> bool \<Rightarrow> (string \<times> JWKSKey) list option" where
  "parseJWKSDocument f encoded admitRetireAfter =
     (if \<not> singleDocumentWithoutDuplicateMembers f encoded then None
      else
        (case decode_jwks f encoded of
           None \<Rightarrow> None
         | Some cs \<Rightarrow> if cs = [] then None else check_keys admitRetireAfter cs []))"

definition parseJWKS :: "(string \<Rightarrow> string) \<Rightarrow> bytes \<Rightarrow> (string \<times> bytes) list option" where
  "parseJWKS f encoded =
     map_option (map (\<lambda>(kid, key). (kid, Public key))) (parseJWKSDocument f encoded False)"

text \<open>\<open>read\<close> is what \<open>os.ReadFile\<close> gives for the path; an error is returned unwrapped.\<close>

datatype keyset_error = ReadError | ErrInvalidJWKS

definition KeySet :: "(string \<Rightarrow> string) \<Rightarrow> bytes option \<Rightarrow> keyset_error + (string \<times> JWKSKey) list" where
  "KeySet f read =
     (case read of
        None \<Rightarrow> Inl ReadError
      | Some encoded \<Rightarrow> give ErrInvalidJWKS (parseJWKSDocument f encoded True))"

definition Keys :: "(string \<Rightarrow> string) \<Rightarrow> bytes option \<Rightarrow> keyset_error + (string \<times> bytes) list" where
  "Keys f read = and_then (KeySet f read) (\<lambda>ks. Inr (map (\<lambda>(kid, key). (kid, Public key)) ks))"

section \<open>Properties\<close>

lemma check_key_cases:
  assumes "check_key admit c ks = Some ks'"
  obtains key where "DecodeString False (X c) = Some key" and "length key = 32" and "KeyType c = ''OKP''"
    and "Curve c = ''Ed25519''" and "Alg c = ''EdDSA''" and "Use c = [] \<or> Use c = ''sig''" and "validKeyID (KeyID c)" and "KeyID c \<notin> fst ` set ks"
    and "RetireAfter c \<noteq> None \<longrightarrow> admit"
    and "ks' = ks @ [(KeyID c, \<lparr>Public = key, key_RetireAfter = RetireAfter c\<rparr>)]"
  using assms by (auto simp: check_key_def PublicKeySize_def map_of_eq_None_iff split: option.splits if_splits)

text \<open>What a key of the result says about the candidate it was built from.\<close>

definition key_from :: "jwk \<Rightarrow> string \<times> JWKSKey \<Rightarrow> bool" where
  "key_from c e \<longleftrightarrow>
     fst e = KeyID c \<and> KeyType c = ''OKP'' \<and> Curve c = ''Ed25519'' \<and> Alg c = ''EdDSA'' \<and>
     (Use c = [] \<or> Use c = ''sig'') \<and> validKeyID (KeyID c) \<and>
     DecodeString False (X c) = Some (Public (snd e)) \<and> length (Public (snd e)) = 32 \<and>
     key_RetireAfter (snd e) = RetireAfter c"

lemma check_keys_spec:
  "check_keys admit cs ks = Some ks' \<Longrightarrow> distinct (map fst ks) \<Longrightarrow>
     \<exists>new. ks' = ks @ new \<and> list_all2 key_from cs new \<and> distinct (map fst ks') \<and>
       (\<forall>e \<in> set new. key_RetireAfter (snd e) \<noteq> None \<longrightarrow> admit)"
proof (induction cs arbitrary: ks)
  case Nil
  then show ?case by auto
next
  case (Cons c cs)
  then obtain ks1 where k: "check_key admit c ks = Some ks1" "check_keys admit cs ks1 = Some ks'"
    by (auto split: option.splits)
  from k(1) obtain key where key: "DecodeString False (X c) = Some key" "length key = 32" "KeyType c = ''OKP''"
    "Curve c = ''Ed25519''" "Alg c = ''EdDSA''" "Use c = [] \<or> Use c = ''sig''" "validKeyID (KeyID c)" "KeyID c \<notin> fst ` set ks"
    "RetireAfter c \<noteq> None \<longrightarrow> admit" "ks1 = ks @ [(KeyID c, \<lparr>Public = key, key_RetireAfter = RetireAfter c\<rparr>)]"
    by (rule check_key_cases)
  have "distinct (map fst ks1)" using key(8,10) Cons.prems(2) by simp
  from Cons.IH [OF k(2) this] obtain new where new: "ks' = ks1 @ new" "list_all2 key_from cs new"
    "distinct (map fst ks')" "\<forall>e \<in> set new. key_RetireAfter (snd e) \<noteq> None \<longrightarrow> admit" by blast
  have "key_from c (KeyID c, \<lparr>Public = key, key_RetireAfter = RetireAfter c\<rparr>)" using key by (simp add: key_from_def)
  with new key(9,10) show ?case
    by (intro exI [of _ "(KeyID c, \<lparr>Public = key, key_RetireAfter = RetireAfter c\<rparr>) # new"]) auto
qed

lemma check_keys_admit: "check_keys False cs ks = Some ks' \<Longrightarrow> check_keys True cs ks = Some ks'"
proof (induction cs arbitrary: ks)
  case (Cons c cs)
  moreover have "check_key False c ks = Some k \<Longrightarrow> check_key True c ks = Some k" for k
    by (auto simp: check_key_def split: option.splits if_splits)
  ultimately show ?case by (auto split: option.splits)
qed simp

lemma parseJWKS_key_length:
  assumes "parseJWKS f encoded = Some ks" and "(kid, key) \<in> set ks"
  shows "length key = 32"
proof -
  obtain cs full where "check_keys False cs [] = Some full" "ks = map (\<lambda>(kid, key). (kid, Public key)) full"
    using assms(1) by (auto simp: parseJWKS_def parseJWKSDocument_def split: if_splits option.splits)
  with check_keys_spec [of False cs "[]" full] assms(2) show ?thesis
    by (fastforce simp: key_from_def list_all2_conv_all_nth in_set_conv_nth)
qed

text \<open>
  C13. A JWKS document yields only Ed25519 signing keys. The keys of an accepted document are,
  in order, exactly the candidates of an unambiguous JSON document that is not empty: each of
  type OKP, curve Ed25519 and algorithm EdDSA, for signatures (its use is empty or
  \<open>sig\<close>), with a 32-byte public key and a valid key id;
  key ids are distinct; and a retirement time appears only where the caller admits it.
\<close>

theorem jwks_keys_sound:
  assumes "parseJWKSDocument f encoded admit = Some ks"
  shows "\<exists>cs v. json_text encoded v \<and> fold_distinct f v \<and> decode_jwks f encoded = Some cs \<and> ks \<noteq> [] \<and>
    list_all2 key_from cs ks \<and> distinct (map fst ks) \<and>
    (\<forall>e \<in> set ks. key_RetireAfter (snd e) \<noteq> None \<longrightarrow> admit)"
proof -
  obtain cs where cs: "decode_jwks f encoded = Some cs" "cs \<noteq> []" "check_keys admit cs [] = Some ks"
    and s: "singleDocumentWithoutDuplicateMembers f encoded"
    using assms by (auto simp: parseJWKSDocument_def split: if_splits option.splits)
  from check_keys_spec [OF cs(3)] have k: "list_all2 key_from cs ks" "distinct (map fst ks)"
    "\<forall>e \<in> set ks. key_RetireAfter (snd e) \<noteq> None \<longrightarrow> admit" by auto
  moreover have "ks \<noteq> []" using k(1) cs(2) by auto
  ultimately show ?thesis using s cs(1) by (auto simp: single_document_iff)
qed

text \<open>
  C15. The file path and the HTTP path agree: every document the HTTP client's parser accepts,
  the file parser accepts with the same keys and no retirement times.
\<close>

theorem jwks_paths_agree:
  assumes "parseJWKS f encoded = Some ks"
  shows "Keys f (Some encoded) = Inr ks \<and>
    (\<exists>set'. KeySet f (Some encoded) = Inr set' \<and> (\<forall>e \<in> set set'. key_RetireAfter (snd e) = None))"
proof -
  obtain full where full: "parseJWKSDocument f encoded False = Some full" "ks = map (\<lambda>(kid, key). (kid, Public key)) full"
    using assms by (auto simp: parseJWKS_def)
  then obtain cs where cs: "decode_jwks f encoded = Some cs" "cs \<noteq> []" "check_keys False cs [] = Some full"
    by (auto simp: parseJWKSDocument_def split: if_splits option.splits)
  have t: "parseJWKSDocument f encoded True = Some full"
    using full(1) cs(1,2) check_keys_admit [OF cs(3)] by (auto simp: parseJWKSDocument_def split: if_splits)
  moreover have "\<forall>e \<in> set full. key_RetireAfter (snd e) = None" using check_keys_spec [OF cs(3)] by auto
  ultimately show ?thesis using full(2) by (auto simp: Keys_def KeySet_def give_def)
qed

text \<open>
  A retirement time is never read late: the instant of an accepted \<open>retire_after\<close> has
  the stated date and time of day in UTC, and its nanoseconds are the stated fraction of a
  second, of any number of digits, rounded down.
\<close>

theorem retire_after_rounds_down:
  assumes "retire_time w = Some t"
  shows "\<exists>q. t = Date_UTC (field 0 4 w) (field 5 2 w) (field 8 2 w) (field 11 2 w) (field 14 2 w) (field 17 2 w) q \<and>
    q * 10 ^ length (frac_digits w) \<le> dec_value (frac_digits w) * 10 ^ 9 \<and>
    dec_value (frac_digits w) * 10 ^ 9 < (q + 1) * 10 ^ length (frac_digits w)"
proof -
  let ?n = "dec_value (frac_digits w) * 10 ^ 9" and ?m = "(10 :: int) ^ length (frac_digits w)"
  have m: "0 < ?m" by simp
  have "?n div ?m * ?m \<le> ?n" "?n < (?n div ?m + 1) * ?m"
    using m by (simp_all add: minus_mod_eq_div_mult [symmetric] distrib_right pos_mod_bound pos_mod_sign)
  then show ?thesis using retire_time_fields [OF assms] by blast
qed

theorem retire_after_rounds_down_witness:
  "\<exists>t. retire_time ''2026-01-02t03:04:05.1234567899z'' = Some t \<and>
     (\<exists>q. t = Date_UTC 2026 1 2 3 4 5 q \<and> q * 10 ^ 10 \<le> 1234567899 * 10 ^ 9)"
proof -
  let ?w = "''2026-01-02t03:04:05.1234567899z''"
  have "retire_time ?w \<noteq> None" by code_simp
  then obtain t where t: "retire_time ?w = Some t" by blast
  have f: "field 0 4 ?w = 2026" "field 5 2 ?w = 1" "field 8 2 ?w = 2" "field 11 2 ?w = 3" "field 14 2 ?w = 4"
    "field 17 2 ?w = 5" "frac_digits ?w = ''1234567899''" "dec_value ''1234567899'' = 1234567899" by code_simp+
  from retire_after_rounds_down [OF t] show ?thesis using t unfolding f by auto
qed

end
