(* ===== verification/Auth_Jwks_Client.thy ===== *)
theory Auth_Jwks_Client
  imports Auth_Jwks
begin

text \<open>
  authverify/jwks_client.go: the key source over HTTPS from one pinned issuer. The state of
  the client is a record; each section the code runs under its mutex is one function of it, a
  shared refresh is the pair of its first and its last section with the fetch between them,
  and a run interleaves the refreshes and the lookups of any number of callers. \<open>http\<close>
  stands for the transport: the status, the bytes the body yields and whether it ends without
  an error, or \<open>None\<close> for a failed request.
\<close>

section \<open>Configuration\<close>

record JWKSClientConfig =
  cfg_Issuer :: string
  cfg_Timeout :: duration
  cfg_MaxBodyBytes :: int
  cfg_MaxKeys :: int
  cfg_CacheTTL :: duration
  cfg_RefreshFloor :: duration
  cfg_OutageGrace :: duration

record JWKSClient =
  cfg :: JWKSClientConfig
  held :: "(string \<times> bytes) list option"
  fetchedAt :: instant
  lastAttempt :: instant
  attempted :: bool
  inflight :: bool
  lastErr :: bool

datatype jwks_client_error = NeedsIssuer | LimitsOutOfBounds

definition or_default :: "int \<Rightarrow> int \<Rightarrow> int" where
  "or_default d x = (if x = 0 then d else x)"

definition NewJWKSClient :: "JWKSClientConfig \<Rightarrow> jwks_client_error + JWKSClient" where
  "NewJWKSClient c0 =
     (if \<not> matches issuerPattern (cfg_Issuer c0) then Inl NeedsIssuer
      else
        (let c = \<lparr>cfg_Issuer = cfg_Issuer c0, cfg_Timeout = or_default (5 * second) (cfg_Timeout c0),
                  cfg_MaxBodyBytes = or_default 65536 (cfg_MaxBodyBytes c0), cfg_MaxKeys = or_default 32 (cfg_MaxKeys c0),
                  cfg_CacheTTL = or_default (5 * minute) (cfg_CacheTTL c0),
                  cfg_RefreshFloor = or_default (30 * second) (cfg_RefreshFloor c0),
                  cfg_OutageGrace = or_default (10 * minute) (cfg_OutageGrace c0)\<rparr>
         in if cfg_Timeout c < 0 \<or> cfg_Timeout c > 30 * second \<or> cfg_MaxBodyBytes c < 0 \<or> cfg_MaxKeys c < 0 \<or>
               cfg_CacheTTL c < 0 \<or> cfg_CacheTTL c > hour \<or> cfg_RefreshFloor c < 0 \<or> cfg_RefreshFloor c > cfg_CacheTTL c \<or>
               cfg_OutageGrace c < 0 \<or> cfg_OutageGrace c > hour then Inl LimitsOutOfBounds
            else Inr \<lparr>cfg = c, held = None, fetchedAt = zero_time, lastAttempt = zero_time, attempted = False,
                      inflight = False, lastErr = False\<rparr>))"

section \<open>Fetching\<close>

type_synonym transport = "string \<Rightarrow> (int \<times> bytes \<times> bool) option"

definition discoveryPath :: string where "discoveryPath = ''/.well-known/openid-configuration''"
definition jwksPath :: string where "jwksPath = ''/.well-known/jwks.json''"
definition discoveryMembers :: "string list" where
  "discoveryMembers = [''issuer'', ''jwks_uri'', ''id_token_signing_alg_values_supported'']"

text \<open>
  \<open>io.ReadAll\<close> over a reader limited to one byte more than the cap, computed in
  \<open>int64\<close>. A read error is met only when the body ends before the limit.
\<close>

definition http_get :: "JWKSClientConfig \<Rightarrow> transport \<Rightarrow> string \<Rightarrow> bytes option" where
  "http_get c http url =
     (case http url of
        None \<Rightarrow> None
      | Some (status, body, ends_well) \<Rightarrow>
          if status \<noteq> 200 then None
          else
            (let n = nat (wrap_int64 (cfg_MaxBodyBytes c + 1)); got = take n body in
             if length body < n \<and> \<not> ends_well then None
             else if int (length got) > cfg_MaxBodyBytes c then None
             else Some got))"

definition discoveryValid :: "(string \<Rightarrow> string) \<Rightarrow> JWKSClientConfig \<Rightarrow> bytes \<Rightarrow> bool" where
  "discoveryValid f c raw =
     (case decodeObject f raw of
        None \<Rightarrow> False
      | Some ob \<Rightarrow>
          closedSet ob discoveryMembers discoveryMembers \<and>
          stringMember ob ''issuer'' None = Some (cfg_Issuer c) \<and>
          stringMember ob ''jwks_uri'' None = Some (cfg_Issuer c @ jwksPath) \<and>
          obj_get ob ''id_token_signing_alg_values_supported'' = Some (JArr [JStr algEdDSA]))"

definition fetch :: "(string \<Rightarrow> string) \<Rightarrow> JWKSClientConfig \<Rightarrow> transport \<Rightarrow> (string \<times> bytes) list option" where
  "fetch f c http = do {
     discovery \<leftarrow> http_get c http (cfg_Issuer c @ discoveryPath);
     _ \<leftarrow> require (discoveryValid f c discovery);
     body \<leftarrow> http_get c http (cfg_Issuer c @ jwksPath);
     ks \<leftarrow> parseJWKS f body;
     _ \<leftarrow> require (int (length ks) \<le> cfg_MaxKeys c);
     Some ks
   }"

section \<open>Lookups and the shared refresh\<close>

definition cached :: "JWKSClient \<Rightarrow> string \<Rightarrow> instant \<Rightarrow> bool \<Rightarrow> bytes option" where
  "cached c kid now afterRefresh =
     (case held c of
        None \<Rightarrow> None
      | Some ks \<Rightarrow>
          (let age = time_sub now (fetchedAt c) in
           if age \<ge> cfg_CacheTTL (cfg c) \<and>
              (\<not> afterRefresh \<or> age \<ge> cfg_CacheTTL (cfg c) + cfg_OutageGrace (cfg c)) then None
           else
             (case map_of ks kid of
                Some key \<Rightarrow> if length key = PublicKeySize then Some key else None
              | None \<Rightarrow> None)))"

datatype refresh_start = JoinFlight | TooSoon | Fetch JWKSClient

definition refresh_begin :: "JWKSClient \<Rightarrow> instant \<Rightarrow> refresh_start" where
  "refresh_begin c now =
     (if inflight c then JoinFlight
      else if attempted c \<and> time_sub now (lastAttempt c) < cfg_RefreshFloor (cfg c) then TooSoon
      else Fetch (c\<lparr>inflight := True, lastAttempt := now, attempted := True\<rparr>))"

definition refresh_end :: "JWKSClient \<Rightarrow> (string \<times> bytes) list option \<Rightarrow> instant \<Rightarrow> JWKSClient" where
  "refresh_end c result now =
     (let c1 = (case result of None \<Rightarrow> c | Some ks \<Rightarrow> c\<lparr>held := Some ks, fetchedAt := now\<rparr>)
      in c1\<lparr>lastErr := (result = None), inflight := False\<rparr>)"

text \<open>
  The mutex is free between the sections of a call. A section of another caller's refresh that
  runs there is a \<open>jwks_op\<close>: the first section of a refresh, or the end of the pending
  fetch, over the transport of the caller that started it. Lookups change nothing.
\<close>

datatype jwks_op = OpBegin instant | OpEnd transport instant

fun perform_jwks :: "(string \<Rightarrow> string) \<Rightarrow> jwks_op \<Rightarrow> JWKSClient \<Rightarrow> JWKSClient" where
  "perform_jwks f (OpBegin now) c = (case refresh_begin c now of Fetch c' \<Rightarrow> c' | _ \<Rightarrow> c)"
| "perform_jwks f (OpEnd h now) c = (if inflight c then refresh_end c (fetch f (cfg c) h) now else c)"

text \<open>
  What a call meets: its clock readings, its own fetch, the fetch it waits for when another
  caller's is pending (\<open>flight_http\<close> and \<open>flight_end\<close> belong to that caller), and
  what the other callers do between its sections.
\<close>

record lookup_env =
  at_lookup :: instant
  before_refresh :: "jwks_op list"
  at_begin :: instant
  http :: transport
  at_end :: instant
  flight_http :: transport
  flight_end :: instant
  before_decide :: "jwks_op list"
  at_decide :: instant
  before_err :: "jwks_op list"

datatype refresh_error = ErrRefreshTooSoon | FetchFailed

definition flight_err :: "(string \<times> bytes) list option \<Rightarrow> refresh_error option" where
  "flight_err result = (case result of None \<Rightarrow> Some FetchFailed | Some _ \<Rightarrow> None)"

definition refresh ::
  "(string \<Rightarrow> string) \<Rightarrow> lookup_env \<Rightarrow> JWKSClient \<Rightarrow> JWKSClient \<times> refresh_error option" where
  "refresh f e c =
     (case refresh_begin c (at_begin e) of
        JoinFlight \<Rightarrow>
          (let result = fetch f (cfg c) (flight_http e) in (refresh_end c result (flight_end e), flight_err result))
      | TooSoon \<Rightarrow> (c, Some ErrRefreshTooSoon)
      | Fetch c' \<Rightarrow>
          (let result = fetch f (cfg c') (http e) in (refresh_end c' result (at_end e), flight_err result)))"

definition PublicKey :: "(string \<Rightarrow> string) \<Rightarrow> lookup_env \<Rightarrow> JWKSClient \<Rightarrow> string \<Rightarrow> JWKSClient \<times> bytes option" where
  "PublicKey f e c kid =
     (case cached c kid (at_lookup e) False of
        Some key \<Rightarrow> (c, Some key)
      | None \<Rightarrow>
          (let c1 = fold (perform_jwks f) (before_refresh e) c;
               c2 = fst (refresh f e c1);
               c3 = fold (perform_jwks f) (before_decide e) c2
           in (c3, cached c3 kid (at_decide e) True)))"

definition ResolveKey :: "(string \<Rightarrow> string) \<Rightarrow> lookup_env \<Rightarrow> JWKSClient \<Rightarrow> string \<Rightarrow> JWKSClient \<times> (unit + bytes option)" where
  "ResolveKey f e c kid =
     (case PublicKey f e c kid of
        (c', Some key) \<Rightarrow> (c', Inr (Some key))
      | (c', None) \<Rightarrow>
          (let c4 = fold (perform_jwks f) (before_err e) c' in (c4, if lastErr c4 then Inl () else Inr None)))"

section \<open>Runs\<close>

text \<open>
  Any number of callers, each between two sections of a call: outside every call, about to
  call \<open>refresh\<close> (for the key id it missed, or for none under \<open>Refresh\<close>), fetching,
  waiting for another caller's fetch, or back from \<open>refresh\<close>.
\<close>

datatype phase =
    Idle
  | Wants "string option"
  | Fetching "string option"
  | Waiting "string option"
  | Tried "string option"

fun wake :: "phase \<Rightarrow> phase" where
  "wake (Waiting q) = Tried q"
| "wake p = p"

text \<open>
  The events of a run, newest first, each with its caller. Clock readings are arbitrary. Only
  a caller back from \<open>refresh\<close> looks up with \<open>afterRefresh\<close>.
\<close>

datatype jevent =
    JMiss nat string instant
  | JRefresh nat
  | JBegin nat instant
  | JJoin nat
  | JSoon nat instant
  | JEnd nat transport instant
  | JServe nat string bytes instant bool
  | JNone nat string instant
  | JDone nat

inductive jrun :: "(string \<Rightarrow> string) \<Rightarrow> JWKSClient \<Rightarrow> jevent list \<Rightarrow> JWKSClient \<Rightarrow> (nat \<Rightarrow> phase) \<Rightarrow> bool"
  for f :: "string \<Rightarrow> string" and c0 :: JWKSClient where
  jinit: "jrun f c0 [] c0 (\<lambda>_. Idle)"
| jhit: "jrun f c0 t c ph \<Longrightarrow> ph i = Idle \<Longrightarrow> cached c kid now False = Some key \<Longrightarrow>
    jrun f c0 (JServe i kid key now False # t) c ph"
| jmiss: "jrun f c0 t c ph \<Longrightarrow> ph i = Idle \<Longrightarrow> cached c kid now False = None \<Longrightarrow>
    jrun f c0 (JMiss i kid now # t) c (ph(i := Wants (Some kid)))"
| jrefresh: "jrun f c0 t c ph \<Longrightarrow> ph i = Idle \<Longrightarrow> jrun f c0 (JRefresh i # t) c (ph(i := Wants None))"
| jbegin: "jrun f c0 t c ph \<Longrightarrow> ph i = Wants q \<Longrightarrow> refresh_begin c now = Fetch c' \<Longrightarrow>
    jrun f c0 (JBegin i now # t) c' (ph(i := Fetching q))"
| jjoin: "jrun f c0 t c ph \<Longrightarrow> ph i = Wants q \<Longrightarrow> refresh_begin c now = JoinFlight \<Longrightarrow>
    jrun f c0 (JJoin i # t) c (ph(i := Waiting q))"
| jsoon: "jrun f c0 t c ph \<Longrightarrow> ph i = Wants q \<Longrightarrow> refresh_begin c now = TooSoon \<Longrightarrow>
    jrun f c0 (JSoon i now # t) c (ph(i := Tried q))"
| jend: "jrun f c0 t c ph \<Longrightarrow> ph i = Fetching q \<Longrightarrow>
    jrun f c0 (JEnd i h now # t) (refresh_end c (fetch f (cfg c) h) now) ((wake \<circ> ph)(i := Tried q))"
| jserve: "jrun f c0 t c ph \<Longrightarrow> ph i = Tried (Some kid) \<Longrightarrow> cached c kid now True = Some key \<Longrightarrow>
    jrun f c0 (JServe i kid key now True # t) c (ph(i := Idle))"
| jnone: "jrun f c0 t c ph \<Longrightarrow> ph i = Tried (Some kid) \<Longrightarrow> cached c kid now True = None \<Longrightarrow>
    jrun f c0 (JNone i kid now # t) c (ph(i := Idle))"
| jdone: "jrun f c0 t c ph \<Longrightarrow> ph i = Tried None \<Longrightarrow> jrun f c0 (JDone i # t) c (ph(i := Idle))"

inductive_cases jrun_serveE: "jrun f c0 (JServe i kid key now after # t) c ph"
inductive_cases jrun_beginE: "jrun f c0 (JBegin i now # t) c ph"
inductive_cases jrun_ConsE: "jrun f c0 (e # t) c ph"

lemma jrun_suffix: "jrun f c0 (t' @ t) c ph \<Longrightarrow> \<exists>c' ph'. jrun f c0 t c' ph'"
  by (induction t' arbitrary: c ph) (auto elim: jrun_ConsE)

text \<open>What the events say about the state.\<close>

primrec in_flight :: "jevent list \<Rightarrow> bool" where
  "in_flight [] = False"
| "in_flight (e # t) = (case e of JBegin _ _ \<Rightarrow> True | JEnd _ _ _ \<Rightarrow> False | _ \<Rightarrow> in_flight t)"

primrec last_begin :: "jevent list \<Rightarrow> instant option" where
  "last_begin [] = None"
| "last_begin (e # t) = (case e of JBegin _ now \<Rightarrow> Some now | _ \<Rightarrow> last_begin t)"

primrec last_good :: "(string \<Rightarrow> string) \<Rightarrow> JWKSClientConfig \<Rightarrow> jevent list \<Rightarrow> ((string \<times> bytes) list \<times> instant) option" where
  "last_good f k [] = None"
| "last_good f k (e # t) =
     (case e of
        JEnd _ h now \<Rightarrow> (case fetch f k h of Some ks \<Rightarrow> Some (ks, now) | None \<Rightarrow> last_good f k t)
      | _ \<Rightarrow> last_good f k t)"

definition jinv :: "(string \<Rightarrow> string) \<Rightarrow> JWKSClientConfig \<Rightarrow> jevent list \<Rightarrow> JWKSClient \<Rightarrow> bool" where
  "jinv f k t c \<longleftrightarrow>
     cfg c = k \<and> inflight c = in_flight t \<and> (attempted c \<longleftrightarrow> last_begin t \<noteq> None) \<and>
     (\<forall>a. last_begin t = Some a \<longrightarrow> lastAttempt c = a) \<and>
     held c = map_option fst (last_good f k t) \<and> (\<forall>g. last_good f k t = Some g \<longrightarrow> fetchedAt c = snd g)"

lemma new_client:
  assumes "NewJWKSClient k = Inr c0"
  shows "jinv f (cfg c0) [] c0" and "0 \<le> cfg_CacheTTL (cfg c0)" and "cfg_CacheTTL (cfg c0) \<le> hour"
    and "0 \<le> cfg_RefreshFloor (cfg c0)" and "cfg_RefreshFloor (cfg c0) \<le> cfg_CacheTTL (cfg c0)"
    and "0 \<le> cfg_OutageGrace (cfg c0)" and "cfg_OutageGrace (cfg c0) \<le> hour"
  using assms by (auto simp: NewJWKSClient_def jinv_def Let_def split: if_splits)

lemma refresh_begin_Fetch:
  "refresh_begin c now = Fetch c' \<longleftrightarrow>
     \<not> inflight c \<and> (attempted c \<longrightarrow> cfg_RefreshFloor (cfg c) \<le> time_sub now (lastAttempt c)) \<and>
     c' = c\<lparr>inflight := True, lastAttempt := now, attempted := True\<rparr>"
  by (auto simp: refresh_begin_def)

lemma jrun_invariant:
  assumes "jrun f c0 t c ph" and "jinv f k [] c0"
  shows "jinv f k t c"
  using assms(1)
proof (induction rule: jrun.induct)
  case jinit
  show ?case by (rule assms(2))
next
  case (jend t c ph i q h now)
  then show ?case by (auto simp: jinv_def refresh_end_def split: option.splits)
qed (auto simp: jinv_def refresh_begin_Fetch)

section \<open>Properties\<close>

lemma last_begin_append: "\<forall>j b. JBegin j b \<notin> set t2 \<Longrightarrow> last_begin (t2 @ t) = last_begin t"
  by (induction t2) (auto split: jevent.splits)

lemma in_flight_append:
  "\<forall>j b. JBegin j b \<notin> set t2 \<Longrightarrow> \<forall>j h w. JEnd j h w \<notin> set t2 \<Longrightarrow> in_flight (t2 @ t) = in_flight t"
  by (induction t2) (fastforce split: jevent.splits)+

lemma last_good_append:
  "\<forall>j h w. JEnd j h w \<in> set t2 \<longrightarrow> fetch f k h = None \<Longrightarrow> last_good f k (t2 @ t) = last_good f k t"
  by (induction t2) (auto split: jevent.splits option.splits)

lemma last_goodD:
  "last_good f k t = Some (ks, w) \<Longrightarrow>
     \<exists>t2 j h t1. t = t2 @ JEnd j h w # t1 \<and> fetch f k h = Some ks \<and>
       (\<forall>j' h' w'. JEnd j' h' w' \<in> set t2 \<longrightarrow> fetch f k h' = None)"
proof (induction t)
  case (Cons e t)
  show ?case
  proof (cases "last_good f k t = Some (ks, w) \<and> (\<forall>j' h' w'. e = JEnd j' h' w' \<longrightarrow> fetch f k h' = None)")
    case True
    then obtain t2 j h t1 where "t = t2 @ JEnd j h w # t1" "fetch f k h = Some ks"
      "\<forall>j' h' w'. JEnd j' h' w' \<in> set t2 \<longrightarrow> fetch f k h' = None" using Cons.IH by blast
    with True show ?thesis by (intro exI [of _ "e # t2"]) auto
  next
    case False
    with Cons.prems obtain j h where "e = JEnd j h w" "fetch f k h = Some ks" by (cases e) (auto split: option.splits)
    then show ?thesis by (intro exI [of _ "[]"]) auto
  qed
qed simp

lemma cached_Some:
  "cached c kid now after = Some key \<longleftrightarrow>
     (\<exists>ks. held c = Some ks \<and> map_of ks kid = Some key \<and> length key = PublicKeySize \<and>
       (time_sub now (fetchedAt c) < cfg_CacheTTL (cfg c) \<or>
        after \<and> time_sub now (fetchedAt c) < cfg_CacheTTL (cfg c) + cfg_OutageGrace (cfg c)))"
  by (auto simp: cached_def Let_def not_le split: option.splits if_splits)

lemma sub_limit:
  assumes "0 \<le> d" and "d \<le> 2 * hour"
  shows "time_sub now w < d \<longleftrightarrow> now - w < d"
  using assms by (intro time_sub_less) (auto simp: hour_def minute_def second_def max_duration_def min_duration_def)

lemma served_limit:
  assumes "NewJWKSClient k = Inr c0"
  shows "time_sub now w < cfg_CacheTTL (cfg c0) \<longleftrightarrow> now - w < cfg_CacheTTL (cfg c0)"
    and "time_sub now w < cfg_CacheTTL (cfg c0) + cfg_OutageGrace (cfg c0) \<longleftrightarrow>
      now - w < cfg_CacheTTL (cfg c0) + cfg_OutageGrace (cfg c0)"
  using new_client(2,3,6,7) [OF assms] by (auto intro!: sub_limit)

text \<open>
  Where a caller is, read off the events: since its miss it started a fetch, joined one, or
  came back from \<open>refresh\<close>, because the floor had not passed or because the fetch it
  started or joined ended.
\<close>

definition refresh_returned :: "nat \<Rightarrow> jevent list \<Rightarrow> bool" where
  "refresh_returned i u \<longleftrightarrow>
     (\<exists>now. JSoon i now \<in> set u) \<or>
     (\<exists>u2 j h w u1. u = u2 @ JEnd j h w # u1 \<and> ((\<exists>b. JBegin i b \<in> set u1) \<or> JJoin i \<in> set u1))"

definition since_miss :: "nat \<Rightarrow> string \<Rightarrow> (jevent list \<Rightarrow> bool) \<Rightarrow> jevent list \<Rightarrow> bool" where
  "since_miss i kid P t \<longleftrightarrow> (\<exists>u m t1. t = u @ JMiss i kid m # t1 \<and> P u)"

fun placed :: "nat \<Rightarrow> jevent list \<Rightarrow> phase \<Rightarrow> bool" where
  "placed i t (Wants (Some kid)) = since_miss i kid (\<lambda>_. True) t"
| "placed i t (Fetching (Some kid)) = since_miss i kid (\<lambda>u. \<exists>b. JBegin i b \<in> set u) t"
| "placed i t (Waiting (Some kid)) = since_miss i kid (\<lambda>u. JJoin i \<in> set u) t"
| "placed i t (Tried (Some kid)) = since_miss i kid (refresh_returned i) t"
| "placed i t _ = True"

lemma since_miss_Cons:
  assumes "since_miss i kid P t" and "\<And>u. P u \<Longrightarrow> Q (e # u)"
  shows "since_miss i kid Q (e # t)"
proof -
  obtain u m t1 where "t = u @ JMiss i kid m # t1" "P u" using assms(1) by (auto simp: since_miss_def)
  then show ?thesis using assms(2) unfolding since_miss_def
    by (intro exI [of _ "e # u"] exI [of _ m] exI [of _ t1]) simp
qed

lemma since_miss_new: "P [] \<Longrightarrow> since_miss i kid P (JMiss i kid m # t)"
  unfolding since_miss_def by (intro exI [of _ "[]"]) simp

lemma returned_Cons: "refresh_returned i u \<Longrightarrow> refresh_returned i (e # u)"
  unfolding refresh_returned_def by (metis append_Cons list.set_intros(2))

lemma returned_end: "(\<exists>b. JBegin i b \<in> set u) \<or> JJoin i \<in> set u \<Longrightarrow> refresh_returned i (JEnd j h w # u)"
  unfolding refresh_returned_def by (metis append_Nil)

lemma placed_Cons: "placed i t p \<Longrightarrow> placed i (e # t) p"
  by (induction i t p rule: placed.induct) (auto elim!: since_miss_Cons simp: returned_Cons)

lemma placed_wake: "placed i t p \<Longrightarrow> placed i (JEnd j h w # t) (wake p)"
  using placed_Cons [of i t p "JEnd j h w"]
  by (induction i t p rule: placed.induct) (auto elim!: since_miss_Cons simp: returned_end)

lemma placed_own:
  "placed i t (Wants q) \<Longrightarrow> placed i (JBegin i b # t) (Fetching q)"
  "placed i t (Wants q) \<Longrightarrow> placed i (JJoin i # t) (Waiting q)"
  "placed i t (Wants q) \<Longrightarrow> placed i (JSoon i b # t) (Tried q)"
  "placed i t (Fetching q) \<Longrightarrow> placed i (JEnd i h w # t) (Tried q)"
  by (cases q; auto elim!: since_miss_Cons simp: returned_end; auto simp: refresh_returned_def)+

lemma jrun_placed: "jrun f c0 t c ph \<Longrightarrow> placed i t (ph i)"
proof (induction arbitrary: i rule: jrun.induct)
  case (jmiss t c ph i' kid now)
  then show ?case by (auto simp: placed_Cons since_miss_new)
next
  case (jbegin t c ph i' q now c')
  then show ?case using placed_own(1) by (metis fun_upd_apply placed_Cons)
next
  case (jjoin t c ph i' q now)
  then show ?case using placed_own(2) by (metis fun_upd_apply placed_Cons)
next
  case (jsoon t c ph i' q now)
  then show ?case using placed_own(3) by (metis fun_upd_apply placed_Cons)
next
  case (jend t c ph i' q h now)
  then show ?case using placed_own(4) [of i' t q h now] placed_wake [OF jend.IH [of i], of i' h now]
    by (cases "i = i'") (metis fun_upd_same, simp)
qed (auto intro: placed_Cons)

text \<open>
  C7. A served key is a key of the newest successful fetch from the pinned issuer. Every
  fetch that ended since failed, the key has 32 bytes, and the fetch ended less than the cache
  TTL before the lookup. Only for a caller that missed the same key id and whose call of
  \<open>refresh\<close> has returned since (too soon after the last attempt, or after the fetch it
  started or joined ended) the outage grace is added to the TTL.
\<close>

theorem jwks_served_recent:
  assumes "NewJWKSClient k = Inr c0" and "jrun f c0 (JServe i kid key now after # t) c ph"
  shows "\<exists>t2 j h w t1 ks. t = t2 @ JEnd j h w # t1 \<and> fetch f (cfg c0) h = Some ks \<and>
    (\<forall>j' h' w'. JEnd j' h' w' \<in> set t2 \<longrightarrow> fetch f (cfg c0) h' = None) \<and>
    map_of ks kid = Some key \<and> length key = 32 \<and>
    (now - w < cfg_CacheTTL (cfg c0) \<or>
     now - w < cfg_CacheTTL (cfg c0) + cfg_OutageGrace (cfg c0) \<and>
       (\<exists>u m u1. t = u @ JMiss i kid m # u1 \<and> refresh_returned i u))"
proof -
  obtain ph' where r: "jrun f c0 t c ph'" and s: "cached c kid now after = Some key"
    and after: "after \<Longrightarrow> ph' i = Tried (Some kid)" using assms(2) by (auto elim: jrun_serveE)
  have i: "jinv f (cfg c0) t c" using jrun_invariant [OF r new_client(1) [OF assms(1)]] .
  from s i obtain ks w where g: "last_good f (cfg c0) t = Some (ks, w)" "fetchedAt c = w" and key: "map_of ks kid = Some key"
    "length key = 32" by (fastforce simp: cached_Some jinv_def PublicKeySize_def)
  have k: "cfg c = cfg c0" using i by (simp add: jinv_def)
  have "after \<Longrightarrow> since_miss i kid (refresh_returned i) t" using jrun_placed [OF r, of i] after by simp
  then have "now - w < cfg_CacheTTL (cfg c0) \<or>
     now - w < cfg_CacheTTL (cfg c0) + cfg_OutageGrace (cfg c0) \<and> since_miss i kid (refresh_returned i) t"
    using s unfolding cached_Some g(2) k served_limit [OF assms(1)] by blast
  with last_goodD [OF g(1)] key show ?thesis unfolding since_miss_def by blast
qed

text \<open>
  C8. Fetches are shared and floored. Between two consecutive starts of a fetch the earlier
  one has ended, whoever the callers are, and their clock readings are at least the refresh
  floor apart.
\<close>

theorem jwks_refresh_floor:
  assumes "NewJWKSClient k = Inr c0" and "jrun f c0 (t3 @ JBegin j b # t2 @ JBegin i a # t1) c ph"
    and "\<forall>l x. JBegin l x \<notin> set t2"
  shows "(\<exists>l h w. JEnd l h w \<in> set t2) \<and> cfg_RefreshFloor (cfg c0) \<le> b - a"
proof -
  note n = new_client [OF assms(1)]
  let ?t = "t2 @ JBegin i a # t1"
  obtain c2 ph2 where "jrun f c0 (JBegin j b # ?t) c2 ph2" using jrun_suffix [OF assms(2)] by blast
  then obtain c1 ph1 c' where r: "jrun f c0 ?t c1 ph1" and s: "refresh_begin c1 b = Fetch c'" by (auto elim: jrun_beginE)
  have i: "jinv f (cfg c0) ?t c1" using jrun_invariant [OF r n(1)] .
  have l: "last_begin ?t = Some a" using last_begin_append [OF assms(3)] by simp
  have fl: "\<not> in_flight ?t" and w: "cfg_RefreshFloor (cfg c0) \<le> time_sub b a"
    using s i l by (auto simp: refresh_begin_Fetch jinv_def)
  have "\<exists>l h w. JEnd l h w \<in> set t2" using in_flight_append [OF assms(3)] fl by force
  moreover have "cfg_RefreshFloor (cfg c0) \<le> b - a"
    using w n by (auto simp: time_sub_def max_def min_def min_duration_def hour_def minute_def second_def split: if_splits)
  ultimately show ?thesis ..
qed

lemma parseJWKS_nonempty: "parseJWKS f b = Some ks \<Longrightarrow> ks \<noteq> []"
  by (auto simp: parseJWKS_def parseJWKSDocument_def split: if_splits option.splits dest!: check_keys_spec)

lemma obj_get_name: "obj_get ob n \<noteq> None \<Longrightarrow> n \<in> fst ` set ob"
  by (force simp: obj_get_def dest: map_of_SomeD)

lemma closedSet_exact: "closedSet ob ns ns \<Longrightarrow> fst ` set ob = set ns"
  using closedSet_names [of ob ns ns] obj_get_name [of ob] by (auto simp: closedSet_def list_all_iff)

lemma http_get_Some:
  assumes "0 \<le> cfg_MaxBodyBytes c" and "cfg_MaxBodyBytes c < 2 ^ 63 - 1"
  shows "http_get c h url = Some b \<longleftrightarrow> h url = Some (200, b, True) \<and> int (length b) \<le> cfg_MaxBodyBytes c"
proof -
  have "wrap_int64 (cfg_MaxBodyBytes c + 1) = cfg_MaxBodyBytes c + 1" using assms by (intro wrap_int64_id) simp_all
  then show ?thesis using assms(1)
    by (auto simp: http_get_def Let_def min_def nat_less_iff le_nat_iff split: option.splits if_splits)
qed

text \<open>
  C9. Keys come only from the pinned issuer. A fetch that succeeds read two complete 200
  responses within the body cap: the discovery document at the issuer's discovery path, with
  exactly the three members of the contract, naming that issuer, that issuer's JWKS path and
  EdDSA alone; and the JWKS at that path, which the strict parser accepts with at least one
  and at most the configured number of keys.
\<close>

theorem jwks_fetch_pinned:
  assumes "0 \<le> cfg_MaxBodyBytes c" and "cfg_MaxBodyBytes c < 2 ^ 63 - 1" and "fetch f c h = Some ks"
  shows "\<exists>d ob b. h (cfg_Issuer c @ discoveryPath) = Some (200, d, True) \<and> int (length d) \<le> cfg_MaxBodyBytes c \<and>
    decodeObject f d = Some ob \<and> fst ` set ob = set discoveryMembers \<and>
    obj_get ob ''issuer'' = Some (JStr (cfg_Issuer c)) \<and>
    obj_get ob ''jwks_uri'' = Some (JStr (cfg_Issuer c @ jwksPath)) \<and>
    obj_get ob ''id_token_signing_alg_values_supported'' = Some (JArr [JStr ''EdDSA'']) \<and>
    h (cfg_Issuer c @ jwksPath) = Some (200, b, True) \<and> int (length b) \<le> cfg_MaxBodyBytes c \<and>
    parseJWKS f b = Some ks \<and> 0 < length ks \<and> int (length ks) \<le> cfg_MaxKeys c"
proof -
  obtain d b where d: "http_get c h (cfg_Issuer c @ discoveryPath) = Some d" "discoveryValid f c d"
    and b: "http_get c h (cfg_Issuer c @ jwksPath) = Some b" "parseJWKS f b = Some ks" "int (length ks) \<le> cfg_MaxKeys c"
    using assms(3) by (auto simp: fetch_def require_def split: Option.bind_splits if_splits)
  have ks: "ks \<noteq> []" using parseJWKS_nonempty [OF b(2)] .
  from d(2) obtain ob where ob: "decodeObject f d = Some ob" "closedSet ob discoveryMembers discoveryMembers"
    "stringMember ob ''issuer'' None = Some (cfg_Issuer c)" "stringMember ob ''jwks_uri'' None = Some (cfg_Issuer c @ jwksPath)"
    "obj_get ob ''id_token_signing_alg_values_supported'' = Some (JArr [JStr ''EdDSA''])"
    by (auto simp: discoveryValid_def algEdDSA_def split: option.splits)
  show ?thesis
    using d(1) b ks ob closedSet_exact [OF ob(2)] stringMember_get [OF ob(3)] stringMember_get [OF ob(4)]
    unfolding http_get_Some [OF assms(1,2)] by blast
qed

lemma fetch_key_length: "fetch f k h = Some ks \<Longrightarrow> map_of ks kid = Some key \<Longrightarrow> length key = 32"
  using parseJWKS_key_length
  by (fastforce simp: fetch_def require_def dest: map_of_SomeD split: Option.bind_splits if_splits)

text \<open>
  C14. The client recovers, after an outage of any length and whatever the other callers do.
  When every fetch that was started has ended, successfully or not, and the floor has passed
  since the last start, a caller that missed a key id starts a fetch at once. Whenever a fetch
  then ends with that key, and no later one ended successfully, a lookup less than the TTL
  and the grace after that end finds exactly that key.
\<close>

theorem jwks_recovers:
  assumes "NewJWKSClient k = Inr c0" and "jrun f c0 t c ph" and "ph i = Wants (Some kid)"
    and "\<not> in_flight t" and "\<forall>a. last_begin t = Some a \<longrightarrow> cfg_RefreshFloor (cfg c0) \<le> now - a"
  shows "(\<exists>c'. refresh_begin c now = Fetch c' \<and> jrun f c0 (JBegin i now # t) c' (ph(i := Fetching (Some kid)))) \<and>
    (\<forall>t3 j h w t2 c2 ph2 ks key d.
       jrun f c0 (t3 @ JEnd j h w # t2 @ JBegin i now # t) c2 ph2 \<longrightarrow>
       fetch f (cfg c0) h = Some ks \<longrightarrow> map_of ks kid = Some key \<longrightarrow>
       (\<forall>j' h' w'. JEnd j' h' w' \<in> set t3 \<longrightarrow> fetch f (cfg c0) h' = None) \<longrightarrow>
       d - w < cfg_CacheTTL (cfg c0) + cfg_OutageGrace (cfg c0) \<longrightarrow>
       cached c2 kid d True = Some key)"
proof (intro conjI allI impI)
  note n = new_client [OF assms(1)]
  have i: "jinv f (cfg c0) t c" using jrun_invariant [OF assms(2) n(1)] .
  have "cfg_RefreshFloor (cfg c0) \<le> time_sub now a" if "last_begin t = Some a" for a
    using assms(5) that n by (auto simp: time_sub_def max_duration_def hour_def minute_def second_def)
  then obtain c' where "refresh_begin c now = Fetch c'"
    using i assms(4) unfolding refresh_begin_Fetch jinv_def by auto
  with jbegin [OF assms(2,3) this]
  show "\<exists>c'. refresh_begin c now = Fetch c' \<and> jrun f c0 (JBegin i now # t) c' (ph(i := Fetching (Some kid)))" by blast
  fix t3 j h w t2 c2 ph2 ks key d
  assume r: "jrun f c0 (t3 @ JEnd j h w # t2 @ JBegin i now # t) c2 ph2" and fetched: "fetch f (cfg c0) h = Some ks"
    and key: "map_of ks kid = Some key"
    and later: "\<forall>j' h' w'. JEnd j' h' w' \<in> set t3 \<longrightarrow> fetch f (cfg c0) h' = None"
    and d: "d - w < cfg_CacheTTL (cfg c0) + cfg_OutageGrace (cfg c0)"
  have "last_good f (cfg c0) (t3 @ JEnd j h w # t2 @ JBegin i now # t) = Some (ks, w)"
    using last_good_append [OF later] fetched by simp
  then have "held c2 = Some ks" "fetchedAt c2 = w" "cfg c2 = cfg c0"
    using jrun_invariant [OF r n(1)] by (auto simp: jinv_def)
  then show "cached c2 kid d True = Some key"
    using key fetch_key_length [OF fetched key] served_limit(2) [OF assms(1), of d w] d by (simp add: cached_Some PublicKeySize_def)
qed

section \<open>A call is a stretch of a run\<close>

text \<open>
  Some caller is always outside every call, and a pending fetch has a caller; so what the
  others do between two sections is a stretch of a run that leaves a given caller in place.
\<close>

lemma finite_busy: "finite {j. ph j \<noteq> Idle} \<Longrightarrow> finite {j. (ph(i := p)) j \<noteq> Idle}"
  by (rule finite_subset [of _ "insert i {j. ph j \<noteq> Idle}"]) auto

lemma wake_Idle [simp]: "wake p = Idle \<longleftrightarrow> p = Idle"
  by (cases p) auto

lemma jrun_finite: "jrun f c0 t c ph \<Longrightarrow> finite {j. ph j \<noteq> Idle}"
proof (induction rule: jrun.induct)
  case (jend t c ph i q h now)
  then show ?case by (intro finite_busy) simp
qed (simp_all only: finite_busy, simp)

lemma owner_kept: "ph j = Fetching q \<Longrightarrow> \<forall>q. ph i \<noteq> Fetching q \<Longrightarrow> \<exists>j q. (ph(i := p)) j = Fetching q"
  by (intro exI [of _ j] exI [of _ q]) auto

lemma jrun_owner: "jrun f c0 t c ph \<Longrightarrow> \<not> inflight c0 \<Longrightarrow> inflight c \<Longrightarrow> \<exists>j q. ph j = Fetching q"
proof (induction rule: jrun.induct)
  case (jend t c ph i q h now)
  then show ?case by (simp add: refresh_end_def)
next
  case (jbegin t c ph i q now c')
  then show ?case by auto
qed (auto simp del: fun_upd_apply intro: owner_kept)

lemma idle_caller:
  assumes "jrun f c0 t c ph"
  obtains j where "ph j = Idle" "j \<noteq> i"
  using ex_new_if_finite [OF infinite_UNIV_nat, of "insert i {j. ph j \<noteq> Idle}"] jrun_finite [OF assms] by auto

definition placid :: "phase \<Rightarrow> bool" where
  "placid p \<longleftrightarrow> wake p = p \<and> (\<forall>q. p \<noteq> Fetching q)"

lemma others_step:
  assumes "jrun f c0 t c ph" and "\<not> inflight c0" and "placid (ph i)"
  shows "\<exists>t' ph'. jrun f c0 (t' @ t) (perform_jwks f op c) ph' \<and> ph' i = ph i"
proof -
  have stay: ?thesis if "perform_jwks f op c = c" using assms(1) that by (intro exI [of _ "[]"]) auto
  show ?thesis
  proof (cases op)
    case (OpBegin now)
    show ?thesis
    proof (cases "refresh_begin c now")
      case (Fetch c')
      obtain j where j: "ph j = Idle" "j \<noteq> i" using idle_caller [OF assms(1)] .
      from jbegin [OF jrefresh [OF assms(1) j(1)] _ Fetch, of j None]
      show ?thesis using j(2) by (intro exI [of _ "[JBegin j now, JRefresh j]"]) (auto simp: OpBegin Fetch)
    qed (use stay OpBegin in auto)
  next
    case (OpEnd h now)
    show ?thesis
    proof (cases "inflight c")
      case True
      then obtain j q where j: "ph j = Fetching q" using jrun_owner [OF assms(1,2)] by blast
      then have "j \<noteq> i" using assms(3) by (auto simp: placid_def)
      with jend [OF assms(1) j, of h now] assms(3) True show ?thesis
        by (intro exI [of _ "[JEnd j h now]"]) (auto simp: OpEnd placid_def)
    qed (use stay OpEnd in auto)
  qed
qed

lemma others_run:
  assumes "jrun f c0 t c ph" and "\<not> inflight c0" and "placid (ph i)"
  shows "\<exists>t' ph'. jrun f c0 (t' @ t) (fold (perform_jwks f) ops c) ph' \<and> ph' i = ph i"
  using assms(1,3)
proof (induction ops arbitrary: t c ph)
  case Nil
  then show ?case by (intro exI [of _ "[]"]) auto
next
  case (Cons op ops)
  obtain t1 ph1 where 1: "jrun f c0 (t1 @ t) (perform_jwks f op c) ph1" "ph1 i = ph i"
    using others_step [OF Cons.prems(1) assms(2) Cons.prems(2)] by blast
  with Cons.IH [OF 1(1)] Cons.prems(2) obtain t2 ph2 where
    "jrun f c0 (t2 @ t1 @ t) (fold (perform_jwks f) ops (perform_jwks f op c)) ph2" "ph2 i = ph i" by auto
  then show ?case by (intro exI [of _ "t2 @ t1"] exI [of _ ph2]) simp
qed

lemma refresh_run:
  assumes "jrun f c0 t c ph" and "\<not> inflight c0" and "ph i = Wants q"
  shows "\<exists>t' ph'. jrun f c0 (t' @ t) (fst (refresh f e c)) ph' \<and> ph' i = Tried q"
proof (cases "refresh_begin c (at_begin e)")
  case JoinFlight
  then have "inflight c" by (auto simp: refresh_begin_def split: if_splits)
  then obtain j q' where j: "ph j = Fetching q'" using jrun_owner [OF assms(1,2)] by blast
  then have "j \<noteq> i" using assms(3) by auto
  with jend [OF jjoin [OF assms(1,3) JoinFlight], of j q' "flight_http e" "flight_end e"] j
  show ?thesis
    by (intro exI [of _ "[JEnd j (flight_http e) (flight_end e), JJoin i]"]) (auto simp: refresh_def JoinFlight Let_def)
next
  case TooSoon
  with jsoon [OF assms(1,3) TooSoon] show ?thesis
    by (intro exI [of _ "[JSoon i (at_begin e)]"]) (auto simp: refresh_def)
next
  case (Fetch c')
  with jend [OF jbegin [OF assms(1,3) Fetch], of i q "http e" "at_end e"] show ?thesis
    by (intro exI [of _ "[JEnd i (http e) (at_end e), JBegin i (at_begin e)]"]) (auto simp: refresh_def Let_def)
qed

lemma PublicKey_run:
  assumes r: "jrun f c0 t c ph" and c0: "\<not> inflight c0" and i: "ph i = Idle" and p: "PublicKey f e c kid = (c', res)"
  shows "\<exists>t' ph'. jrun f c0 (t' @ t) c' ph' \<and> ph' i = Idle \<and>
    (\<forall>key. res = Some key \<longrightarrow> (\<exists>now after t''. t' = JServe i kid key now after # t''))"
proof (cases "cached c kid (at_lookup e) False")
  case (Some key)
  with jhit [OF r i Some] p i show ?thesis
    by (intro exI [of _ "[JServe i kid key (at_lookup e) False]"] exI [of _ ph]) (auto simp: PublicKey_def)
next
  case None
  let ?c1 = "fold (perform_jwks f) (before_refresh e) c"
  obtain t1 ph1 where 1: "jrun f c0 (t1 @ JMiss i kid (at_lookup e) # t) ?c1 ph1" "ph1 i = Wants (Some kid)"
    using others_run [OF jmiss [OF r i None] c0, of i "before_refresh e"] by (auto simp: placid_def)
  obtain t2 ph2 where 2: "jrun f c0 (t2 @ t1 @ JMiss i kid (at_lookup e) # t) (fst (refresh f e ?c1)) ph2" "ph2 i = Tried (Some kid)"
    using refresh_run [OF 1(1) c0 1(2)] by blast
  obtain t3 ph3 where 3: "jrun f c0 (t3 @ t2 @ t1 @ JMiss i kid (at_lookup e) # t) c' ph3" "ph3 i = Tried (Some kid)"
    using others_run [OF 2(1) c0, of i "before_decide e"] 2(2) p None by (auto simp: placid_def PublicKey_def Let_def)
  have res: "res = cached c' kid (at_decide e) True" using p None by (auto simp: PublicKey_def Let_def)
  let ?t = "t3 @ t2 @ t1 @ [JMiss i kid (at_lookup e)]"
  show ?thesis
  proof (cases res)
    case None
    with jnone [OF 3(1) 3(2), of "at_decide e"] res show ?thesis
      by (intro exI [of _ "JNone i kid (at_decide e) # ?t"] exI [of _ "ph3(i := Idle)"]) auto
  next
    case (Some key)
    with jserve [OF 3(1) 3(2), of "at_decide e" key] res show ?thesis
      by (intro exI [of _ "JServe i kid key (at_decide e) True # ?t"] exI [of _ "ph3(i := Idle)"]) auto
  qed
qed

text \<open>Whether the newest fetch that ended failed.\<close>

primrec last_failed :: "(string \<Rightarrow> string) \<Rightarrow> JWKSClientConfig \<Rightarrow> jevent list \<Rightarrow> bool" where
  "last_failed f k [] = False"
| "last_failed f k (e # t) = (case e of JEnd _ h _ \<Rightarrow> fetch f k h = None | _ \<Rightarrow> last_failed f k t)"

lemma jrun_lastErr:
  assumes "NewJWKSClient k = Inr c0" and "jrun f c0 t c ph"
  shows "lastErr c = last_failed f (cfg c0) t"
  using assms(2)
proof (induction rule: jrun.induct)
  case jinit
  show ?case using assms(1) by (auto simp: NewJWKSClient_def Let_def split: if_splits)
next
  case (jend t c ph i q h now)
  then have "cfg c = cfg c0" using jrun_invariant [OF jend(1) new_client(1) [OF assms(1)]] by (simp add: jinv_def)
  then show ?case by (simp add: refresh_end_def Let_def)
qed (auto simp: refresh_begin_Fetch)


end
