(* ===== verification/Auth_Jwks_Samples.thy ===== *)
theory Auth_Jwks_Samples
  imports Auth_Jwks_Client
begin

text \<open>
  One issuer evaluated end to end: its discovery document, a JWKS with one key, and a client
  that fetches, serves and refetches.
\<close>

definition sample_key :: bytes where
  "sample_key = replicate 32 (chr 0)"

definition sample_jwks :: bytes where
  "sample_jwks = json_marshal (JObj [(''keys'', JArr [JObj
     [(''kty'', JStr ''OKP''), (''crv'', JStr ''Ed25519''), (''alg'', JStr ''EdDSA''), (''kid'', JStr ''k1''),
      (''x'', JStr (EncodeToString sample_key))]])])"

definition sample_discovery :: bytes where
  "sample_discovery = json_marshal (JObj [(''issuer'', JStr ''https://auth''),
     (''jwks_uri'', JStr ''https://auth/.well-known/jwks.json''),
     (''id_token_signing_alg_values_supported'', JArr [JStr ''EdDSA''])])"

definition sample_web :: transport where
  "sample_web url =
     (if url = ''https://auth/.well-known/openid-configuration'' then Some (200, sample_discovery, True)
      else if url = ''https://auth/.well-known/jwks.json'' then Some (200, sample_jwks, True)
      else None)"

definition sample_cfg0 :: JWKSClientConfig where
  "sample_cfg0 = \<lparr>cfg_Issuer = ''https://auth'', cfg_Timeout = 0, cfg_MaxBodyBytes = 0, cfg_MaxKeys = 0,
     cfg_CacheTTL = 0, cfg_RefreshFloor = 0, cfg_OutageGrace = 0\<rparr>"

definition sample_cfg :: JWKSClientConfig where
  "sample_cfg = \<lparr>cfg_Issuer = ''https://auth'', cfg_Timeout = 5 * second, cfg_MaxBodyBytes = 65536, cfg_MaxKeys = 32,
     cfg_CacheTTL = 5 * minute, cfg_RefreshFloor = 30 * second, cfg_OutageGrace = 10 * minute\<rparr>"

definition sample_client :: JWKSClient where
  "sample_client = \<lparr>cfg = sample_cfg, held = None, fetchedAt = zero_time, lastAttempt = zero_time,
     attempted = False, inflight = False, lastErr = False\<rparr>"

lemma sample_client_new: "NewJWKSClient sample_cfg0 = Inr sample_client"
  by code_simp

lemma sample_jwks_parsed: "parseJWKS (\<lambda>x. x) sample_jwks = Some [(''k1'', sample_key)]"
  by code_simp

lemma sample_discovery_valid: "discoveryValid (\<lambda>x. x) sample_cfg sample_discovery"
  by code_simp

lemma sample_bodies: "int (length sample_discovery) \<le> 65536" "int (length sample_jwks) \<le> 65536"
  by code_simp+

lemma sample_cap: "0 \<le> cfg_MaxBodyBytes sample_cfg" "cfg_MaxBodyBytes sample_cfg < 2 ^ 63 - 1"
  by (simp_all add: sample_cfg_def)

lemma sample_urls:
  "sample_web (cfg_Issuer sample_cfg @ discoveryPath) = Some (200, sample_discovery, True)"
  "sample_web (cfg_Issuer sample_cfg @ jwksPath) = Some (200, sample_jwks, True)"
  by (simp_all add: sample_web_def sample_cfg_def discoveryPath_def jwksPath_def)

lemma sample_gets:
  "http_get sample_cfg sample_web (cfg_Issuer sample_cfg @ discoveryPath) = Some sample_discovery"
  "http_get sample_cfg sample_web (cfg_Issuer sample_cfg @ jwksPath) = Some sample_jwks"
  using sample_bodies unfolding http_get_Some [OF sample_cap] sample_urls by (simp_all add: sample_cfg_def)

lemma sample_fetch: "fetch (\<lambda>x. x) sample_cfg sample_web = Some [(''k1'', sample_key)]"
  unfolding fetch_def sample_gets
  by (simp add: sample_discovery_valid sample_jwks_parsed require_def) (simp add: sample_cfg_def)

lemma sample_key_length: "length sample_key = 32"
  by (simp add: sample_key_def)

theorem jwks_keys_sound_witness:
  "\<exists>ks cs. parseJWKSDocument (\<lambda>x. x) sample_jwks True = Some ks \<and> list_all2 key_from cs ks"
proof -
  have "parseJWKSDocument (\<lambda>x. x) sample_jwks True \<noteq> None" by code_simp
  then obtain ks where "parseJWKSDocument (\<lambda>x. x) sample_jwks True = Some ks" by blast
  with jwks_keys_sound [OF this] show ?thesis by blast
qed

theorem jwks_paths_agree_witness: "Keys (\<lambda>x. x) (Some sample_jwks) = Inr [(''k1'', sample_key)]"
  using jwks_paths_agree [OF sample_jwks_parsed] by blast

theorem jwks_fetch_pinned_witness:
  "\<exists>b. sample_web ''https://auth/.well-known/jwks.json'' = Some (200, b, True) \<and>
     parseJWKS (\<lambda>x. x) b = Some [(''k1'', sample_key)]"
  using jwks_fetch_pinned [OF sample_cap sample_fetch] by (auto simp: sample_cfg_def jwksPath_def)

text \<open>
  A caller misses at 99 s, fetches from 100 s to 101 s and decides at 501 s, in the outage
  grace; another caller refreshes at 140 s.
\<close>

definition fetched_client :: JWKSClient where
  "fetched_client = sample_client\<lparr>held := Some [(''k1'', sample_key)], fetchedAt := 101 * second,
     lastAttempt := 100 * second, attempted := True\<rparr>"

definition flying_client :: JWKSClient where
  "flying_client = sample_client\<lparr>inflight := True, lastAttempt := 100 * second, attempted := True\<rparr>"

definition sample_trace :: "jevent list" where
  "sample_trace = [JEnd 0 sample_web (101 * second), JBegin 0 (100 * second), JMiss 0 ''k1'' (99 * second)]"

lemma sample_miss_run:
  "jrun (\<lambda>x. x) sample_client [JMiss 0 ''k1'' (99 * second)] sample_client ((\<lambda>_. Idle)(0 := Wants (Some ''k1'')))"
  by (rule jmiss [OF jinit]) (simp_all add: cached_def sample_client_def)

lemma jwks_sample_run:
  "jrun (\<lambda>x. x) sample_client sample_trace fetched_client ((wake \<circ> (\<lambda>_. Idle))(0 := Tried (Some ''k1'')))"
proof -
  have "refresh_begin sample_client (100 * second) = Fetch flying_client"
    by (simp add: refresh_begin_def sample_client_def flying_client_def)
  from jbegin [OF sample_miss_run _ this, of 0 "Some ''k1''"]
  have "jrun (\<lambda>x. x) sample_client [JBegin 0 (100 * second), JMiss 0 ''k1'' (99 * second)] flying_client
      ((\<lambda>_. Idle)(0 := Fetching (Some ''k1'')))" by simp
  from jend [OF this, of 0 "Some ''k1''" sample_web "101 * second"] show ?thesis
    by (simp add: sample_trace_def flying_client_def sample_client_def sample_fetch refresh_end_def fetched_client_def
        comp_def fun_upd_def if_distrib cong: if_cong)
qed

lemma sample_served: "cached fetched_client ''k1'' (501 * second) True = Some sample_key"
  by (simp add: cached_Some fetched_client_def sample_client_def sample_cfg_def sample_key_length PublicKeySize_def
      time_sub_def second_def minute_def max_duration_def min_duration_def)

theorem jwks_served_recent_witness:
  "\<exists>u m u1. sample_trace = u @ JMiss 0 ''k1'' m # u1 \<and> refresh_returned 0 u"
proof -
  from jserve [OF jwks_sample_run _ sample_served, of 0] obtain ph where
    "jrun (\<lambda>x. x) sample_client (JServe 0 ''k1'' sample_key (501 * second) True # sample_trace) fetched_client ph"
    by auto
  from jwks_served_recent [OF sample_client_new this] obtain t2 j h w t1 where t: "sample_trace = t2 @ JEnd j h w # t1"
    and w: "501 * second - w < cfg_CacheTTL (cfg sample_client) \<or>
      (\<exists>u m u1. sample_trace = u @ JMiss 0 ''k1'' m # u1 \<and> refresh_returned 0 u)" by blast
  have "JEnd j h w \<in> set sample_trace" unfolding t by simp
  then have "w = 101 * second" by (simp add: sample_trace_def)
  with w show ?thesis by (simp add: sample_client_def sample_cfg_def second_def minute_def)
qed

theorem jwks_refresh_floor_witness:
  "30 * second \<le> 140 * second - 100 * second"
proof -
  let ?c = "fetched_client\<lparr>inflight := True, lastAttempt := 140 * second, attempted := True\<rparr>"
  have f: "refresh_begin fetched_client (140 * second) = Fetch ?c"
    by (simp add: refresh_begin_Fetch fetched_client_def sample_client_def sample_cfg_def time_sub_def second_def
        max_duration_def min_duration_def)
  from jbegin [OF jrefresh [OF jwks_sample_run, of 1] _ f, of 1 None] obtain ph where
    "jrun (\<lambda>x. x) sample_client ([] @ JBegin 1 (140 * second) # [JRefresh 1, JEnd 0 sample_web (101 * second)] @
       JBegin 0 (100 * second) # [JMiss 0 ''k1'' (99 * second)]) ?c ph"
    by (auto simp: sample_trace_def)
  from jwks_refresh_floor [OF sample_client_new this] show ?thesis by (simp add: sample_client_def sample_cfg_def)
qed

theorem jwks_recovers_witness:
  "(\<exists>c'. refresh_begin sample_client (100 * second) = Fetch c') \<and>
   cached fetched_client ''k1'' (501 * second) True = Some sample_key"
proof -
  have f: "fetch (\<lambda>x. x) (cfg sample_client) sample_web = Some [(''k1'', sample_key)]"
    using sample_fetch by (simp add: sample_client_def)
  have r: "jrun (\<lambda>x. x) sample_client ([] @ JEnd 0 sample_web (101 * second) # [] @ JBegin 0 (100 * second) #
      [JMiss 0 ''k1'' (99 * second)]) fetched_client ((wake \<circ> (\<lambda>_. Idle))(0 := Tried (Some ''k1'')))"
    using jwks_sample_run by (simp add: sample_trace_def)
  have d: "501 * second - 101 * second < cfg_CacheTTL (cfg sample_client) + cfg_OutageGrace (cfg sample_client)"
    by (simp add: sample_client_def sample_cfg_def second_def minute_def)
  have "\<not> in_flight [JMiss 0 ''k1'' (99 * second)]" "last_begin [JMiss 0 ''k1'' (99 * second)] = None" by simp_all
  with jwks_recovers [OF sample_client_new sample_miss_run, of 0 "''k1''" "100 * second"] r f d show ?thesis
    by (metis (no_types, lifting) fun_upd_same empty_iff list.set(1) map_of_Cons_code(2) option.distinct(1))
qed

text \<open>A lookup that finds the issuer down; another caller tries to refresh before it decides.\<close>

definition sample_lookup :: lookup_env where
  "sample_lookup = \<lparr>at_lookup = 99 * second, before_refresh = [], at_begin = 100 * second, http = (\<lambda>_. None), at_end = 101 * second,
     flight_http = (\<lambda>_. None), flight_end = 0, before_decide = [OpBegin (120 * second)], at_decide = 121 * second,
     before_err = []\<rparr>"


end
