(* ===== verification/Auth_Exchange.thy ===== *)
theory Auth_Exchange
  imports Auth_Token
begin

text \<open>
  authverify/workload_exchange.go and authverify/workload_token_exchange_service.go: narrowing
  a grant to the requested scope, the check of an issued token's lifetime, and the exchange
  that composes the validator, the resolver and the issuer. These three are interfaces of the
  service, so they are arguments of \<open>Exchange\<close>; \<open>now\<close> is the clock reading of
  \<open>time.Until\<close>.
\<close>

section \<open>Data\<close>

datatype exchange_error =
    ErrSubjectTokenInvalid
  | ErrWorkloadBindingNotFound
  | ErrScopeNotGranted
  | ErrIssuedLifetimeExceedsCeiling
  | ErrIssuedLifetimeUnknown
  | ErrIssuedLifetimeMismatch
  | Infrastructure string

record SubjectIdentity =
  TrustDomain :: string
  Namespace :: string
  ServiceAccountName :: string
  ServiceAccountUID :: string
  si_ExpiresAt :: instant

record WorkloadBinding =
  BindingID :: string
  wb_OrgID :: string
  GrantedScopes :: "string list"
  RepositoryScopes :: "string list"

record IssuedToken =
  it_Token :: string
  it_IssuedAt :: "instant option"
  it_ExpiresAt :: "instant option"

record WorkloadTokenExchangeResult =
  AccessToken :: string
  ExpiresIn :: int
  Scope :: "string list"

definition WorkloadAccessTokenLifetime :: duration where
  "WorkloadAccessTokenLifetime = WorkloadTokenLifetimeCeiling"

section \<open>Scopes\<close>

text \<open>The loop over the requested scopes; the first argument is the granted set.\<close>

fun narrow :: "string list \<Rightarrow> string list \<Rightarrow> string list \<Rightarrow> string list \<Rightarrow> exchange_error + string list" where
  "narrow granted [] seen narrowed = Inr narrowed"
| "narrow granted (scope # rest) seen narrowed =
     (if scope \<notin> set granted then Inl ErrScopeNotGranted
      else if scope \<in> set seen then narrow granted rest seen narrowed
      else narrow granted rest (scope # seen) (narrowed @ [scope]))"

definition ResolveRequestedScope :: "WorkloadBinding \<Rightarrow> string list \<Rightarrow> exchange_error + string list" where
  "ResolveRequestedScope binding requested =
     (let granted = GrantedScopes binding in
      if granted = [] then Inl ErrWorkloadBindingNotFound
      else if requested = [] then Inr granted
      else narrow granted requested [] [])"

section \<open>Lifetimes\<close>

definition tokenLifetimeClaims :: "(string \<Rightarrow> string) \<Rightarrow> string \<Rightarrow> (int \<times> int) option" where
  "tokenLifetimeClaims f payloadPart = do {
     raw \<leftarrow> DecodeString True payloadPart;
     ob \<leftarrow> decodeObject f raw;
     iat \<leftarrow> numericDate ob ''iat'';
     exp \<leftarrow> numericDate ob ''exp'';
     _ \<leftarrow> require (\<not> exp \<le> iat);
     Some (iat, exp)
   }"

definition checkIssuedLifetime :: "(string \<Rightarrow> string) \<Rightarrow> IssuedToken \<Rightarrow> exchange_error option" where
  "checkIssuedLifetime f issued =
     (case (it_IssuedAt issued, it_ExpiresAt issued) of
        (Some issuedAt, Some expiresAt) \<Rightarrow>
          if \<not> expiresAt > issuedAt then Some ErrIssuedLifetimeUnknown
          else
            (case splitCompact (it_Token issued) of
               Some (_, payload, _) \<Rightarrow>
                 (case tokenLifetimeClaims f payload of
                    None \<Rightarrow> Some ErrIssuedLifetimeUnknown
                  | Some (iat, exp) \<Rightarrow>
                      if exp - iat > WorkloadTokenLifetimeCeiling div second then Some ErrIssuedLifetimeExceedsCeiling
                      else if iat \<noteq> unix_seconds issuedAt \<or> exp \<noteq> unix_seconds expiresAt then Some ErrIssuedLifetimeMismatch
                      else None)
             | None \<Rightarrow>
                 if time_sub expiresAt issuedAt > WorkloadTokenLifetimeCeiling then Some ErrIssuedLifetimeExceedsCeiling
                 else None)
      | _ \<Rightarrow> Some ErrIssuedLifetimeUnknown)"

section \<open>The exchange\<close>

text \<open>An argument of the constructor is \<open>None\<close> for a nil interface.\<close>

record exchange_service =
  validator :: "string \<Rightarrow> exchange_error + SubjectIdentity"
  resolver :: "SubjectIdentity \<Rightarrow> exchange_error + WorkloadBinding"
  issuer :: "WorkloadBinding \<Rightarrow> string list \<Rightarrow> instant \<Rightarrow> exchange_error + IssuedToken"

definition NewWorkloadTokenExchangeService ::
  "(string \<Rightarrow> exchange_error + SubjectIdentity) option \<Rightarrow> (SubjectIdentity \<Rightarrow> exchange_error + WorkloadBinding) option \<Rightarrow>
   (WorkloadBinding \<Rightarrow> string list \<Rightarrow> instant \<Rightarrow> exchange_error + IssuedToken) option \<Rightarrow> exchange_service option" where
  "NewWorkloadTokenExchangeService v r i =
     (case (v, r, i) of
        (Some v, Some r, Some i) \<Rightarrow> Some \<lparr>validator = v, resolver = r, issuer = i\<rparr>
      | _ \<Rightarrow> None)"

definition expires_in :: "instant option \<Rightarrow> instant \<Rightarrow> int" where
  "expires_in expiresAt now =
     (case expiresAt of
        None \<Rightarrow> 0
      | Some at \<Rightarrow> let remaining = time_sub at now in if remaining > 0 then remaining div second else 0)"

definition Exchange ::
  "(string \<Rightarrow> string) \<Rightarrow> exchange_service \<Rightarrow> string \<Rightarrow> string list \<Rightarrow> instant \<Rightarrow> exchange_error + WorkloadTokenExchangeResult" where
  "Exchange f s subjectToken requestedScope now =
     and_then (validator s subjectToken) (\<lambda>identity.
     and_then (resolver s identity) (\<lambda>binding.
     and_then (ResolveRequestedScope binding requestedScope) (\<lambda>scope.
     and_then (issuer s binding scope (si_ExpiresAt identity)) (\<lambda>issued.
     (case checkIssuedLifetime f issued of
        Some e \<Rightarrow> Inl e
      | None \<Rightarrow> Inr \<lparr>AccessToken = it_Token issued, ExpiresIn = expires_in (it_ExpiresAt issued) now, Scope = scope\<rparr>)))))"

section \<open>Properties\<close>

lemma narrow_Inr:
  "narrow granted req seen acc = Inr out \<Longrightarrow> set seen = set acc \<Longrightarrow> distinct acc \<Longrightarrow>
     set req \<subseteq> set granted \<and> set out = set acc \<union> set req \<and> distinct out"
  by (induction granted req seen acc rule: narrow.induct) (auto split: if_splits)

lemma narrow_Inl:
  "narrow granted req seen acc = Inl e \<Longrightarrow> e = ErrScopeNotGranted \<and> \<not> set req \<subseteq> set granted"
  by (induction granted req seen acc rule: narrow.induct) (auto split: if_splits)

lemma ResolveRequestedScope_Inr:
  assumes "ResolveRequestedScope b req = Inr out"
  shows "out \<noteq> []" and "set out \<subseteq> set (GrantedScopes b)" and "req \<noteq> [] \<Longrightarrow> set out = set req \<and> distinct out"
    and "req = [] \<Longrightarrow> out = GrantedScopes b"
proof -
  have r: "req \<noteq> [] \<Longrightarrow> set req \<subseteq> set (GrantedScopes b) \<and> set out = set req \<and> distinct out"
    using assms narrow_Inr [of "GrantedScopes b" req "[]" "[]" out]
    by (auto simp: ResolveRequestedScope_def Let_def split: if_splits)
  moreover have "GrantedScopes b \<noteq> []" "req = [] \<Longrightarrow> out = GrantedScopes b"
    using assms by (auto simp: ResolveRequestedScope_def Let_def split: if_splits)
  ultimately show "out \<noteq> []" "set out \<subseteq> set (GrantedScopes b)" "req \<noteq> [] \<Longrightarrow> set out = set req \<and> distinct out"
    "req = [] \<Longrightarrow> out = GrantedScopes b" by (cases "req = []"; auto)+
qed

lemma Exchange_Inr:
  assumes "Exchange f s subject requested now = Inr r"
  obtains who b issued where "issuer s b (Scope r) (si_ExpiresAt who) = Inr issued" and "checkIssuedLifetime f issued = None"
    and "AccessToken r = it_Token issued" and "ExpiresIn r = expires_in (it_ExpiresAt issued) now"
    and "validator s subject = Inr who" and "resolver s who = Inr b" and "ResolveRequestedScope b requested = Inr (Scope r)"
proof -
  from assms obtain who b scope issued where x: "validator s subject = Inr who" "resolver s who = Inr b"
    "ResolveRequestedScope b requested = Inr scope" "issuer s b scope (si_ExpiresAt who) = Inr issued"
    "checkIssuedLifetime f issued = None"
    "r = \<lparr>AccessToken = it_Token issued, ExpiresIn = expires_in (it_ExpiresAt issued) now, Scope = scope\<rparr>"
    by (auto simp: Exchange_def and_then_def split: sum.splits option.splits)
  show ?thesis by (rule that [of b who issued]) (use x in simp_all)
qed

lemma checked_lifetime:
  assumes "checkIssuedLifetime f issued = None"
  obtains i x where "it_IssuedAt issued = Some i" and "it_ExpiresAt issued = Some x" and "i < x" and "x - i < 301 * second"
    and "splitCompact (it_Token issued) = None \<longrightarrow> x - i \<le> 300 * second"
    and "\<forall>h p s. splitCompact (it_Token issued) = Some (h, p, s) \<longrightarrow>
      tokenLifetimeClaims f p = Some (unix_seconds i, unix_seconds x) \<and> unix_seconds x - unix_seconds i \<le> 300"
proof -
  obtain i x where ix: "it_IssuedAt issued = Some i" "it_ExpiresAt issued = Some x" "i < x"
    using assms by (auto simp: checkIssuedLifetime_def split: option.splits if_splits)
  have none: "splitCompact (it_Token issued) = None \<Longrightarrow> x - i \<le> 300 * second"
    using assms ix by (auto simp: checkIssuedLifetime_def WorkloadTokenLifetimeCeiling_def time_sub_def second_def
        max_duration_def min_duration_def split: if_splits)
  have some: "tokenLifetimeClaims f p = Some (unix_seconds i, unix_seconds x) \<and> unix_seconds x - unix_seconds i \<le> 300"
    if "splitCompact (it_Token issued) = Some (h, p, s)" for h p s
    using assms ix that by (auto simp: checkIssuedLifetime_def WorkloadTokenLifetimeCeiling_def second_def
        split: option.splits if_splits)
  have "x - i < 301 * second"
  proof (cases "splitCompact (it_Token issued)")
    case None
    then show ?thesis using none by (simp add: second_def)
  next
    case (Some a)
    then have "unix_seconds x \<le> unix_seconds i + 300" using some by (cases a) auto
    then have "(unix_seconds x + 1) * second \<le> (unix_seconds i + 301) * second" by (simp add: second_def)
    then show ?thesis using unix_seconds_bounds [of x] unix_seconds_bounds [of i] by (simp add: distrib_right)
  qed
  then show ?thesis by (rule that [OF ix]) (use none some in auto)
qed

text \<open>
  C28. An exchange never widens a grant. When it succeeds, the subject was validated and
  resolved to a binding; the returned scope is not empty and within the binding's grant, it
  is the requested set without repeats when a scope was requested, and the binding's list of
  granted scopes as it is otherwise;
  and the token was issued for exactly that binding and scope.
\<close>

theorem exchange_narrows:
  assumes "Exchange f s subject requested now = Inr r"
  shows "\<exists>who b issued. validator s subject = Inr who \<and> resolver s who = Inr b \<and>
    issuer s b (Scope r) (si_ExpiresAt who) = Inr issued \<and> AccessToken r = it_Token issued \<and>
    Scope r \<noteq> [] \<and> set (Scope r) \<subseteq> set (GrantedScopes b) \<and>
    (requested \<noteq> [] \<longrightarrow> set (Scope r) = set requested \<and> distinct (Scope r)) \<and>
    (requested = [] \<longrightarrow> Scope r = GrantedScopes b)"
proof -
  obtain who b issued where x: "validator s subject = Inr who" "resolver s who = Inr b"
    "ResolveRequestedScope b requested = Inr (Scope r)" "issuer s b (Scope r) (si_ExpiresAt who) = Inr issued"
    "AccessToken r = it_Token issued"
    using assms by (elim Exchange_Inr) blast
  show ?thesis using x ResolveRequestedScope_Inr [OF x(3)] by blast
qed

text \<open>
  C29. An exchanged token is short-lived. It is the token issued for the validated subject's
  binding, and the issuer stated when it was issued and when it expires. An opaque token
  expires at most 300 seconds after it was issued. A compact JWT carries these instants to the
  second as its own \<open>iat\<close> and \<open>exp\<close>, at most 300 apart, so that the stated
  instants, which keep fractions of a second, are less than 301 seconds apart. The reported
  remaining lifetime is at most 300 seconds when the token was not issued in the future.
\<close>

theorem exchange_short_lived:
  assumes "Exchange f s subject requested now = Inr r"
  shows "\<exists>who b issued i x. validator s subject = Inr who \<and> resolver s who = Inr b \<and>
    issuer s b (Scope r) (si_ExpiresAt who) = Inr issued \<and> AccessToken r = it_Token issued \<and>
    it_IssuedAt issued = Some i \<and> it_ExpiresAt issued = Some x \<and> i < x \<and>
    (splitCompact (AccessToken r) = None \<longrightarrow> x - i \<le> 300 * second) \<and>
    (\<forall>h p sig. splitCompact (AccessToken r) = Some (h, p, sig) \<longrightarrow> x - i < 301 * second \<and>
       tokenLifetimeClaims f p = Some (unix_seconds i, unix_seconds x) \<and> unix_seconds x - unix_seconds i \<le> 300) \<and>
    0 \<le> ExpiresIn r \<and> (i \<le> now \<longrightarrow> ExpiresIn r \<le> 300)"
proof -
  obtain who b issued where x: "validator s subject = Inr who" "resolver s who = Inr b"
    "issuer s b (Scope r) (si_ExpiresAt who) = Inr issued" "AccessToken r = it_Token issued"
    and c: "checkIssuedLifetime f issued = None" and e: "ExpiresIn r = expires_in (it_ExpiresAt issued) now"
    using assms by (elim Exchange_Inr) blast
  from c obtain i e where l: "it_IssuedAt issued = Some i" "it_ExpiresAt issued = Some e" "i < e" "e - i < 301 * second"
    "splitCompact (it_Token issued) = None \<longrightarrow> e - i \<le> 300 * second"
    "\<forall>h p s. splitCompact (it_Token issued) = Some (h, p, s) \<longrightarrow>
      tokenLifetimeClaims f p = Some (unix_seconds i, unix_seconds e) \<and> unix_seconds e - unix_seconds i \<le> 300"
    by (rule checked_lifetime) assumption
  have "i \<le> now \<longrightarrow> time_sub e now < 301 * second"
    using l(4) by (auto simp: time_sub_def second_def max_duration_def min_duration_def)
  then have "0 \<le> ExpiresIn r" "i \<le> now \<longrightarrow> ExpiresIn r \<le> 300"
    unfolding \<open>ExpiresIn r = _\<close> l(2) by (auto simp: expires_in_def Let_def second_def)
  then show ?thesis using x l
    by (intro exI [of _ who] exI [of _ b] exI [of _ issued] exI [of _ i] exI [of _ e]) simp
qed

end
