(* ===== verification/Auth_K8s.thy ===== *)
theory Auth_K8s
  imports Auth_Exchange Go_Struct
begin

text \<open>
  authverify/k8s_token_review.go: the validator that asks the Kubernetes TokenReview API about
  a subject token. The reviewer token source, \<open>url.Parse\<close>, \<open>net.ParseIP\<close>, the HTTP
  exchange and the clock are arguments; the request and the answer are bytes, decoded as
  \<open>json.Unmarshal\<close> decodes into the structs of the source.
\<close>

section \<open>Options\<close>

definition tokenReviewPath :: string where "tokenReviewPath = ''/apis/authentication.k8s.io/v1/tokenreviews''"
definition maxTokenReviewResponseBytes :: nat where "maxTokenReviewResponseBytes = 65536"

text \<open>What the check reads of a parsed URL.\<close>

record api_url =
  api_Scheme :: string
  api_Host :: string
  api_Hostname :: string

record KubernetesTokenReviewOptions =
  has_ReviewerToken :: bool
  opt_APIServerURL :: string
  opt_Audience :: string
  opt_TrustDomain :: string

record TokenReviewValidator =
  apiServerURL :: string
  rv_audience :: string
  trustDomain :: string

datatype review_config_error =
  NoURL | MalformedURL | NotHTTPS | NoReviewerToken | NoAudience | NoTrustDomain

definition trim_right_slash :: "string \<Rightarrow> string" where
  "trim_right_slash s = rev (dropWhile (\<lambda>c. c = CHR ''/'') (rev s))"

definition NewKubernetesTokenReviewValidator ::
  "(string \<Rightarrow> api_url option) \<Rightarrow> (string \<Rightarrow> bool) \<Rightarrow> KubernetesTokenReviewOptions \<Rightarrow> review_config_error + TokenReviewValidator" where
  "NewKubernetesTokenReviewValidator url_parse loopback_ip options =
     (if trim_space (opt_APIServerURL options) = [] then Inl NoURL
      else
        (case url_parse (opt_APIServerURL options) of
           None \<Rightarrow> Inl MalformedURL
         | Some u \<Rightarrow>
             if api_Host u = [] then Inl MalformedURL
             else
               (let loopback = (api_Hostname u = ''localhost'' \<or> loopback_ip (api_Hostname u)) in
                if api_Scheme u \<noteq> ''https'' \<and> \<not> loopback then Inl NotHTTPS
                else if \<not> has_ReviewerToken options then Inl NoReviewerToken
                else if trim_space (opt_Audience options) = [] then Inl NoAudience
                else if trim_space (opt_TrustDomain options) = [] then Inl NoTrustDomain
                else Inr \<lparr>apiServerURL = trim_right_slash (opt_APIServerURL options),
                          rv_audience = opt_Audience options, trustDomain = opt_TrustDomain options\<rparr>)))"

section \<open>The answer\<close>

record review =
  Authenticated :: bool
  review_Error :: string
  Audiences :: "string slice"
  Username :: string
  UID :: string

definition zero_review :: review where
  "zero_review = \<lparr>Authenticated = False, review_Error = [], Audiences = nil_slice, Username = [], UID = []\<rparr>"

definition put_user :: "string \<Rightarrow> json \<Rightarrow> review \<Rightarrow> review option" where
  "put_user k v x =
     (if k = ''username'' then map_option (\<lambda>s. x\<lparr>Username := s\<rparr>) (into_string v (Username x))
      else map_option (\<lambda>s. x\<lparr>UID := s\<rparr>) (into_string v (UID x)))"

definition put_status :: "(string \<Rightarrow> string) \<Rightarrow> (nat \<Rightarrow> nat) \<Rightarrow> string \<Rightarrow> json \<Rightarrow> review \<Rightarrow> review option" where
  "put_status f grow k v x =
     (if k = ''authenticated'' then map_option (\<lambda>b. x\<lparr>Authenticated := b\<rparr>) (into_bool v (Authenticated x))
      else if k = ''error'' then map_option (\<lambda>s. x\<lparr>review_Error := s\<rparr>) (into_string v (review_Error x))
      else if k = ''audiences'' then map_option (\<lambda>s. x\<lparr>Audiences := s\<rparr>) (into_slice grow [] into_string v (Audiences x))
      else into_struct f [''username'', ''uid''] put_user v x)"

definition decode_review :: "(string \<Rightarrow> string) \<Rightarrow> (nat \<Rightarrow> nat) \<Rightarrow> bytes \<Rightarrow> review option" where
  "decode_review f grow raw =
     Option.bind (json_unmarshal raw) (\<lambda>doc.
       into_struct f [''status'']
         (\<lambda>k. into_struct f [''authenticated'', ''error'', ''audiences'', ''user''] (put_status f grow)) doc zero_review)"

section \<open>The subject's own expiry\<close>

text \<open>
  A \<open>json.Number\<close> field takes a number, or a string that is one (\<open>lex_number\<close> reads it
  to its end).
\<close>

definition put_exp :: "string \<Rightarrow> json \<Rightarrow> string \<Rightarrow> string option" where
  "put_exp k v n =
     (case v of
        JNull \<Rightarrow> Some n
      | JNum t \<Rightarrow> Some t
      | JStr s \<Rightarrow> (case lex_number s of Some (t, []) \<Rightarrow> Some s | _ \<Rightarrow> None)
      | _ \<Rightarrow> None)"

text \<open>\<open>time.Unix(seconds, 0)\<close> counts seconds from year 1 in an \<open>int64\<close>.\<close>

definition time_Unix :: "int \<Rightarrow> instant" where
  "time_Unix seconds = (wrap_int64 (seconds + 62135596800) - 62135596800) * second"

definition unverifiedJWTExpiry :: "(string \<Rightarrow> string) \<Rightarrow> string \<Rightarrow> instant option" where
  "unverifiedJWTExpiry f token =
     (case split_on CHR ''.'' token of
        [_, p, _] \<Rightarrow> do {
          payload \<leftarrow> DecodeString False p;
          doc \<leftarrow> json_unmarshal payload;
          number \<leftarrow> into_struct f [''exp''] put_exp doc [];
          seconds \<leftarrow> ParseInt10 number;
          Some (time_Unix seconds)
        }
      | _ \<Rightarrow> None)"

definition parseServiceAccountUsername :: "string \<Rightarrow> (string \<times> string) option" where
  "parseServiceAccountUsername username =
     (case split_on CHR '':'' username of
        [a, b, namespace, name] \<Rightarrow>
          if a \<noteq> ''system'' \<or> b \<noteq> ''serviceaccount'' \<or> namespace = [] \<or> name = [] then None
          else Some (namespace, name)
      | _ \<Rightarrow> None)"

section \<open>Validation\<close>

text \<open>
  What the HTTP client gives for a URL, a bearer token and a body: the status, the bytes of the
  body and whether it ends without an error. \<open>None\<close>: the request could not be built or sent.
\<close>

type_synonym review_api = "string \<Rightarrow> string \<Rightarrow> bytes \<Rightarrow> (int \<times> bytes \<times> bool) option"

definition review_request :: "string \<Rightarrow> string \<Rightarrow> bytes" where
  "review_request subjectToken audience =
     json_marshal (JObj
       [(''apiVersion'', JStr ''authentication.k8s.io/v1''), (''kind'', JStr ''TokenReview''),
        (''spec'', JObj [(''token'', JStr subjectToken), (''audiences'', JArr [JStr audience])])])"

definition Validate ::
  "(string \<Rightarrow> string) \<Rightarrow> (nat \<Rightarrow> nat) \<Rightarrow> string option \<Rightarrow> review_api \<Rightarrow> instant \<Rightarrow> TokenReviewValidator \<Rightarrow> string \<Rightarrow>
   exchange_error + SubjectIdentity" where
  "Validate f grow reviewerToken http now v subjectToken =
     (if trim_space subjectToken = [] then Inl ErrSubjectTokenInvalid
      else
        (case reviewerToken of
           None \<Rightarrow> Inl (Infrastructure ''load reviewer token'')
         | Some reviewer \<Rightarrow>
             if trim_space reviewer = [] then Inl (Infrastructure ''load reviewer token'')
             else
               (case http (apiServerURL v @ tokenReviewPath) reviewer (review_request subjectToken (rv_audience v)) of
                  None \<Rightarrow> Inl (Infrastructure ''request failed'')
                | Some (status, stream, ends_well) \<Rightarrow>
                    if length stream \<le> maxTokenReviewResponseBytes \<and> \<not> ends_well then Inl (Infrastructure ''read response'')
                    else if length stream > maxTokenReviewResponseBytes then Inl (Infrastructure ''response too large'')
                    else if status \<noteq> 201 \<and> status \<noteq> 200 then Inl (Infrastructure ''unexpected status'')
                    else
                      (case decode_review f grow stream of
                         None \<Rightarrow> Inl (Infrastructure ''decode response'')
                       | Some review \<Rightarrow>
                           if \<not> Authenticated review then Inl ErrSubjectTokenInvalid
                           else if rv_audience v \<notin> set (elems_of (Audiences review)) then Inl ErrSubjectTokenInvalid
                           else
                             (case parseServiceAccountUsername (Username review) of
                                None \<Rightarrow> Inl ErrSubjectTokenInvalid
                              | Some (namespace, name) \<Rightarrow>
                                  if trim_space (UID review) = [] then Inl ErrSubjectTokenInvalid
                                  else
                                    (case unverifiedJWTExpiry f subjectToken of
                                       None \<Rightarrow> Inl ErrSubjectTokenInvalid
                                     | Some expiresAt \<Rightarrow>
                                         if \<not> expiresAt > now then Inl ErrSubjectTokenInvalid
                                         else Inr \<lparr>TrustDomain = trustDomain v, Namespace = namespace,
                                                   ServiceAccountName = name, ServiceAccountUID = UID review,
                                                   si_ExpiresAt = expiresAt\<rparr>))))))"

section \<open>Properties\<close>

lemma split_four:
  assumes "split_on d u = [a, b, m, n]"
  shows "u = a @ [d] @ b @ [d] @ m @ [d] @ n" and "d \<notin> set m" and "d \<notin> set n"
  using join_split_on [of d u] split_on_no_sep [of _ d u] by (simp_all add: assms)

lemma username_shape:
  assumes "parseServiceAccountUsername u = Some (ns, nm)"
  shows "u = ''system:serviceaccount:'' @ ns @ '':'' @ nm" and "ns \<noteq> []" and "nm \<noteq> []"
    and "CHR '':'' \<notin> set ns" and "CHR '':'' \<notin> set nm"
proof -
  have sp: "split_on CHR '':'' u = [''system'', ''serviceaccount'', ns, nm]" and "ns \<noteq> []" "nm \<noteq> []"
    using assms by (auto simp: parseServiceAccountUsername_def split: list.splits if_splits)
  then show "u = ''system:serviceaccount:'' @ ns @ '':'' @ nm" "ns \<noteq> []" "nm \<noteq> []"
    "CHR '':'' \<notin> set ns" "CHR '':'' \<notin> set nm" using split_four [OF sp] by simp_all
qed

text \<open>
  A TokenReview username parses exactly when it is \<open>system:serviceaccount:\<close>, a
  namespace, a colon and a name, both non-empty and without a colon, and to these two.
\<close>

lemma service_account_username:
  "parseServiceAccountUsername u = Some (ns, nm) \<longleftrightarrow>
     u = ''system:serviceaccount:'' @ ns @ '':'' @ nm \<and> ns \<noteq> [] \<and> nm \<noteq> [] \<and>
     CHR '':'' \<notin> set ns \<and> CHR '':'' \<notin> set nm"
proof
  show "parseServiceAccountUsername u = Some (ns, nm) \<Longrightarrow> u = ''system:serviceaccount:'' @ ns @ '':'' @ nm \<and>
      ns \<noteq> [] \<and> nm \<noteq> [] \<and> CHR '':'' \<notin> set ns \<and> CHR '':'' \<notin> set nm"
    using username_shape by blast
next
  assume r: "u = ''system:serviceaccount:'' @ ns @ '':'' @ nm \<and> ns \<noteq> [] \<and> nm \<noteq> [] \<and>
     CHR '':'' \<notin> set ns \<and> CHR '':'' \<notin> set nm"
  then have "split_on CHR '':'' u = [''system'', ''serviceaccount'', ns, nm]"
    by (simp add: split_on_append split_on_single)
  with r show "parseServiceAccountUsername u = Some (ns, nm)" by (simp add: parseServiceAccountUsername_def)
qed

lemma Validate_Inr:
  assumes "Validate f grow reviewer http now v subject = Inr who"
  obtains rt status stream rev where "reviewer = Some rt" and "trim_space rt \<noteq> []"
    and "http (apiServerURL v @ tokenReviewPath) rt (review_request subject (rv_audience v)) = Some (status, stream, True)"
    and "status = 200 \<or> status = 201" and "length stream \<le> 65536" and "decode_review f grow stream = Some rev"
    and "Authenticated rev" and "rv_audience v \<in> set (elems_of (Audiences rev))"
    and "parseServiceAccountUsername (Username rev) = Some (Namespace who, ServiceAccountName who)"
    and "ServiceAccountUID who = UID rev" and "trim_space (UID rev) \<noteq> []" and "TrustDomain who = trustDomain v"
    and "unverifiedJWTExpiry f subject = Some (si_ExpiresAt who)" and "now < si_ExpiresAt who"
  using assms
  by (auto simp: Validate_def maxTokenReviewResponseBytes_def split: if_splits option.splits prod.splits)

text \<open>
  C30. Every exchanged token goes back to an authenticated Kubernetes identity. When an exchange
  over the Kubernetes validator succeeds, the API server answered 200 or 201, completely and
  within 64 KiB, to a review of this subject token for the configured audience made with a
  reviewer token; the review is authenticated for that audience and names a service account
  with a UID; the binding was resolved from exactly that account under the configured trust
  domain, never from the subject token; and the subject's own expiry is in the future.
\<close>

theorem exchange_authenticated:
  assumes "validator s = Validate f grow reviewer http now v" and "Exchange f s subject requested now' = Inr r"
  shows "\<exists>rt status stream rev ns nm at b. reviewer = Some rt \<and>
    http (apiServerURL v @ tokenReviewPath) rt (review_request subject (rv_audience v)) = Some (status, stream, True) \<and>
    status \<in> {200, 201} \<and> length stream \<le> 65536 \<and> decode_review f grow stream = Some rev \<and> Authenticated rev \<and>
    rv_audience v \<in> set (elems_of (Audiences rev)) \<and> Username rev = ''system:serviceaccount:'' @ ns @ '':'' @ nm \<and>
    trim_space (UID rev) \<noteq> [] \<and> unverifiedJWTExpiry f subject = Some at \<and> now < at \<and>
    resolver s \<lparr>TrustDomain = trustDomain v, Namespace = ns, ServiceAccountName = nm,
      ServiceAccountUID = UID rev, si_ExpiresAt = at\<rparr> = Inr b \<and> set (Scope r) \<subseteq> set (GrantedScopes b)"
proof -
  obtain who b where x: "Validate f grow reviewer http now v subject = Inr who" "resolver s who = Inr b"
    "ResolveRequestedScope b requested = Inr (Scope r)"
    using assms(2) unfolding assms(1) [symmetric] by (elim Exchange_Inr) blast
  from x(1) obtain rt status stream rev where y: "reviewer = Some rt"
    "http (apiServerURL v @ tokenReviewPath) rt (review_request subject (rv_audience v)) = Some (status, stream, True)"
    "status = 200 \<or> status = 201" "length stream \<le> 65536" "decode_review f grow stream = Some rev" "Authenticated rev"
    "rv_audience v \<in> set (elems_of (Audiences rev))"
    "parseServiceAccountUsername (Username rev) = Some (Namespace who, ServiceAccountName who)"
    "ServiceAccountUID who = UID rev" "trim_space (UID rev) \<noteq> []" "TrustDomain who = trustDomain v"
    "unverifiedJWTExpiry f subject = Some (si_ExpiresAt who)" "now < si_ExpiresAt who"
    by (rule Validate_Inr) blast
  have who: "who = \<lparr>TrustDomain = trustDomain v, Namespace = Namespace who, ServiceAccountName = ServiceAccountName who,
      ServiceAccountUID = UID rev, si_ExpiresAt = si_ExpiresAt who\<rparr>" using y(9,11) by (cases who) simp
  have "Username rev = ''system:serviceaccount:'' @ Namespace who @ '':'' @ ServiceAccountName who"
    using y(8) username_shape by blast
  with x(2,3) y who ResolveRequestedScope_Inr(2) [OF x(3)] show ?thesis by (metis insertCI)
qed

end
