(* ===== verification/Auth_Exchange_Samples.thy ===== *)
theory Auth_Exchange_Samples
  imports Auth_K8s
begin

text \<open>
  One exchange evaluated end to end: a projected token, the API server's review of it, the
  binding of its service account, and an opaque token for one of the granted scopes.
\<close>

definition subject_payload :: bytes where
  "subject_payload = json_marshal (JObj [(''exp'', JNum ''2000'')])"

definition subject_token :: string where
  "subject_token = ''aA.'' @ EncodeToString subject_payload @ ''.aA''"

definition sample_review :: bytes where
  "sample_review = json_marshal (JObj [(''status'', JObj
     [(''authenticated'', JBool True), (''audiences'', JArr [JStr ''auth'']),
      (''user'', JObj [(''username'', JStr ''system:serviceaccount:ns:app''), (''uid'', JStr ''u1'')])])])"

definition sample_reviewer :: TokenReviewValidator where
  "sample_reviewer = \<lparr>apiServerURL = ''https://k8s'', rv_audience = ''auth'', trustDomain = ''td''\<rparr>"

definition sample_api :: review_api where
  "sample_api url reviewer body = Some (201, sample_review, True)"

definition sample_binding :: WorkloadBinding where
  "sample_binding = \<lparr>BindingID = ''b1'', wb_OrgID = ''o1'', GrantedScopes = [''read'', ''write''], RepositoryScopes = []\<rparr>"

definition sample_issued :: IssuedToken where
  "sample_issued = \<lparr>it_Token = ''opaque'', it_IssuedAt = Some (1000 * second), it_ExpiresAt = Some (1300 * second)\<rparr>"

definition sample_service :: exchange_service where
  "sample_service = \<lparr>validator = Validate (\<lambda>x. x) Suc (Some ''rt'') sample_api (1000 * second) sample_reviewer,
     resolver = (\<lambda>who. if ServiceAccountName who = ''app'' then Inr sample_binding else Inl ErrWorkloadBindingNotFound),
     issuer = (\<lambda>b scope at. Inr sample_issued)\<rparr>"

definition sample_result :: WorkloadTokenExchangeResult where
  "sample_result = \<lparr>AccessToken = ''opaque'', ExpiresIn = 300, Scope = [''read'']\<rparr>"

lemma sample_expiry: "unverifiedJWTExpiry (\<lambda>x. x) subject_token = Some (2000 * second)"
  by code_simp

lemma sample_review_decoded:
  "decode_review (\<lambda>x. x) Suc sample_review =
     Some \<lparr>Authenticated = True, review_Error = [], Audiences = \<lparr>arr = [''auth''], len = 1\<rparr>,
       Username = ''system:serviceaccount:ns:app'', UID = ''u1''\<rparr>"
  by code_simp

lemma sample_review_length: "int (length sample_review) \<le> 65536"
  by code_simp

lemma sample_visible: "trim_space subject_token \<noteq> []" "trim_space ''rt'' \<noteq> []" "trim_space ''u1'' \<noteq> []"
proof -
  show "trim_space subject_token \<noteq> []"
    by (rule trim_visible_char [of "CHR ''a''"]) (simp_all add: subject_token_def visible_def)
  show "trim_space ''rt'' \<noteq> []" by (rule trim_visible_char [of "CHR ''r''"]) (simp_all add: visible_def)
  show "trim_space ''u1'' \<noteq> []" by (rule trim_visible_char [of "CHR ''u''"]) (simp_all add: visible_def)
qed

lemma sample_texts:
  "parseServiceAccountUsername ''system:serviceaccount:ns:app'' = Some (''ns'', ''app'')"
  "split_on CHR ''.'' ''opaque'' = [''opaque'']"
  by code_simp+

lemma sample_validated:
  "Validate (\<lambda>x. x) Suc (Some ''rt'') sample_api (1000 * second) sample_reviewer subject_token =
     Inr \<lparr>TrustDomain = ''td'', Namespace = ''ns'', ServiceAccountName = ''app'', ServiceAccountUID = ''u1'',
       si_ExpiresAt = 2000 * second\<rparr>"
  using sample_review_length sample_visible sample_texts
  by (simp add: Validate_def sample_api_def maxTokenReviewResponseBytes_def sample_review_decoded sample_reviewer_def
      elems_of_def sample_expiry second_def)

lemma sample_lifetime: "checkIssuedLifetime (\<lambda>x. x) sample_issued = None"
proof -
  have "splitCompact ''opaque'' = None" by (simp add: splitCompact_def sample_texts(2))
  then show ?thesis by (simp add: checkIssuedLifetime_def sample_issued_def WorkloadTokenLifetimeCeiling_def
        time_sub_def second_def max_duration_def min_duration_def)
qed

lemma sample_exchange:
  "Exchange (\<lambda>x. x) sample_service subject_token [''read'', ''read''] (1000 * second) = Inr sample_result"
  using sample_validated sample_lifetime
  by (simp add: Exchange_def sample_service_def ResolveRequestedScope_def sample_binding_def and_then_def sample_result_def)
     (simp add: sample_issued_def expires_in_def time_sub_def second_def max_duration_def min_duration_def)

theorem exchange_narrows_witness:
  "set (Scope sample_result) = set [''read'', ''read''] \<and> set (Scope sample_result) \<subseteq> set (GrantedScopes sample_binding)"
  using exchange_narrows [OF sample_exchange] by (auto simp: sample_binding_def sample_result_def)

theorem exchange_short_lived_witness:
  "\<exists>b who issued. issuer sample_service b (Scope sample_result) who = Inr issued \<and> AccessToken sample_result = it_Token issued \<and>
     0 \<le> ExpiresIn sample_result"
  using exchange_short_lived [OF sample_exchange] by blast

theorem exchange_authenticated_witness:
  "\<exists>status stream. sample_api ''https://k8s/apis/authentication.k8s.io/v1/tokenreviews'' ''rt''
      (review_request subject_token ''auth'') = Some (status, stream, True) \<and> length stream \<le> 65536"
proof -
  have v: "validator sample_service = Validate (\<lambda>x. x) Suc (Some ''rt'') sample_api (1000 * second) sample_reviewer"
    by (simp add: sample_service_def)
  show ?thesis using exchange_authenticated [OF v sample_exchange] by (auto simp: sample_reviewer_def tokenReviewPath_def)
qed

end
