(* ===== verification/Wt_Config.thy ===== *)
theory Wt_Config
  imports Auth_Token
begin

text \<open>
  workloadtoken/config.go, workloadtoken/errors.go and the constructor of
  workloadtoken/client.go: the configuration of the workload token client, the rules for its
  transport and its URLs, and the client it gives. \<open>url.Parse\<close> and \<open>strings.ToLower\<close>
  are arguments.
\<close>

section \<open>Constants\<close>

definition ExchangePath :: string where "ExchangePath = ''/internal/v1/token/exchange''"
definition GrantTypeTokenExchange :: string where
  "GrantTypeTokenExchange = ''urn:ietf:params:oauth:grant-type:token-exchange''"
definition TokenTypeJWT :: string where "TokenTypeJWT = ''urn:ietf:params:oauth:token-type:jwt''"
definition MaxLifetime :: duration where "MaxLifetime = 300 * second"

definition DefaultTimeout :: duration where "DefaultTimeout = 5 * second"
definition MaxTimeout :: duration where "MaxTimeout = 30 * second"
definition minTimeout :: duration where "minTimeout = 10000000"
definition DefaultSafetyMargin :: duration where "DefaultSafetyMargin = 30 * second"
definition MaxSafetyMargin :: duration where "MaxSafetyMargin = 120 * second"
definition DefaultBackoffFloor :: duration where "DefaultBackoffFloor = second"
definition DefaultBackoffCeiling :: duration where "DefaultBackoffCeiling = 30 * second"
definition maxBackoff :: duration where "maxBackoff = 5 * minute"

definition maxSubjectBytes :: nat where "maxSubjectBytes = 4096"
definition maxAnswerBytes :: nat where "maxAnswerBytes = 16384"
definition maxAccessTokenBytes :: nat where "maxAccessTokenBytes = 8192"
definition maxAudienceBytes :: nat where "maxAudienceBytes = 64"
definition maxScopeActions :: nat where "maxScopeActions = 64"
definition maxActionBytes :: nat where "maxActionBytes = 128"

definition TokenTypeWorkloadBootstrap :: string where
  "TokenTypeWorkloadBootstrap = ''urn:dev-health:params:oauth:token-type:workload-bootstrap''"
definition BootstrapPrefix :: string where "BootstrapPrefix = ''fcwlb_''"
definition bootstrapValueBytes :: nat where "bootstrapValueBytes = length BootstrapPrefix + 43"

section \<open>Errors\<close>

text \<open>
  The sentinel of an error and its class word. The source wraps: an error of \<open>Token\<close> is
  \<open>ErrNoUsableToken\<close> around one of these.
\<close>

datatype wt_error =
    ErrExchangeRefused
  | ErrExchangeInvalidRequest
  | ErrExchangeUnavailable string
  | ErrSubjectUnreadable string
  | ErrNotConfigured
  | ErrNoContext
  | ErrContext
  | ErrBadRequestKey string

datatype ConfigField =
    FieldSubject | FieldTransport | FieldIssuer | FieldExchangeURL | FieldTimeout
  | FieldRefreshFraction | FieldSafetyMargin | FieldBackoffFloor | FieldBackoffCeiling

section \<open>Floating point\<close>

text \<open>
  The refresh fraction is a \<open>float64\<close>: \<open>Fin m e\<close> is \<open>m * 2 ^ e\<close>, and an
  infinity or NaN compares as neither zero nor inside the unit interval.
\<close>

datatype float64 = Fin int int | NonFinite

definition is_zero64 :: "float64 \<Rightarrow> bool" where
  "is_zero64 x = (case x of Fin m e \<Rightarrow> m = 0 | NonFinite \<Rightarrow> False)"

definition in_unit64 :: "float64 \<Rightarrow> bool" where
  "in_unit64 x =
     (case x of Fin m e \<Rightarrow> 0 < m \<and> (if 0 \<le> e then m * 2 ^ nat e < 1 else m < 2 ^ nat (- e)) | NonFinite \<Rightarrow> False)"

fun bit_length :: "int \<Rightarrow> nat" where
  "bit_length n = (if n \<le> 0 then 0 else Suc (bit_length (n div 2)))"

declare bit_length.simps [simp del]

text \<open>\<open>n / 2 ^ k\<close> rounded to the nearest integer, ties to even.\<close>

definition round_even :: "int \<Rightarrow> nat \<Rightarrow> int" where
  "round_even n k =
     (let q = n div 2 ^ k; r = n mod 2 ^ k in
      if 2 * r > 2 ^ k \<or> (2 * r = 2 ^ k \<and> odd q) then q + 1 else q)"

text \<open>
  \<open>time.Duration(float64(d) * x)\<close> for a duration below \<open>2 ^ 53\<close> and \<open>x\<close> in the
  unit interval: the exact product rounded to 53 bits, then truncated.
\<close>

definition scale64 :: "duration \<Rightarrow> float64 \<Rightarrow> duration" where
  "scale64 d x =
     (case x of
        NonFinite \<Rightarrow> 0
      | Fin m e \<Rightarrow>
          (let p = d * m; k = bit_length p - 53; q = round_even p k; s = e + int k in
           if 0 \<le> s then q * 2 ^ nat s else q div 2 ^ nat (- s)))"

definition DefaultRefreshFraction :: float64 where "DefaultRefreshFraction = Fin 1 (-1)"

section \<open>URLs\<close>

record URL =
  Scheme :: string
  Opaque :: string
  has_User :: bool
  Host :: string
  Path :: string
  EscapedPath :: string
  RawQuery :: string
  ForceQuery :: bool
  Fragment :: string

definition validOptionalPort :: "string \<Rightarrow> bool" where
  "validOptionalPort p = (case p of [] \<Rightarrow> True | c # ds \<Rightarrow> c = CHR '':'' \<and> list_all is_digit ds)"

text \<open>The text from the last colon on; empty when there is none.\<close>

definition from_last_colon :: "string \<Rightarrow> string" where
  "from_last_colon s =
     (if CHR '':'' \<in> set s then CHR '':'' # rev (takeWhile (\<lambda>c. c \<noteq> CHR '':'') (rev s)) else [])"

definition splitHostPort :: "string \<Rightarrow> string \<times> string" where
  "splitHostPort hostPort =
     (let tail = from_last_colon hostPort;
          (host, port) = (if tail \<noteq> [] \<and> validOptionalPort tail
                          then (take (length hostPort - length tail) hostPort, tl tail) else (hostPort, []))
      in (if host \<noteq> [] \<and> hd host = CHR ''['' \<and> last host = CHR '']'' then butlast (tl host) else host, port))"

definition Hostname :: "URL \<Rightarrow> string" where "Hostname u = fst (splitHostPort (Host u))"
definition Port :: "URL \<Rightarrow> string" where "Port u = snd (splitHostPort (Host u))"

definition JoinHostPort :: "string \<Rightarrow> string \<Rightarrow> string" where
  "JoinHostPort host port = (if CHR '':'' \<in> set host then ''['' @ host @ '']:'' @ port else host @ '':'' @ port)"

datatype url_error = NotAbsolute | NeedsAllowPlainHTTP | BadScheme | NotBare

definition baseURL :: "(string \<Rightarrow> URL option) \<Rightarrow> string \<Rightarrow> bool \<Rightarrow> url_error + URL" where
  "baseURL url_parse raw allowPlainHTTP =
     (case url_parse raw of
        None \<Rightarrow> Inl NotAbsolute
      | Some u \<Rightarrow>
          if Scheme u = [] \<or> Hostname u = [] \<or> Opaque u \<noteq> [] then Inl NotAbsolute
          else if Scheme u = ''http'' \<and> \<not> allowPlainHTTP then Inl NeedsAllowPlainHTTP
          else if Scheme u \<noteq> ''https'' \<and> Scheme u \<noteq> ''http'' then Inl BadScheme
          else if has_User u \<or> RawQuery u \<noteq> [] \<or> ForceQuery u \<or> Fragment u \<noteq> [] \<or>
                  (Path u \<noteq> [] \<and> Path u \<noteq> ''/'') then Inl NotBare
          else Inr u)"

text \<open>The text of the endpoint URL: a scheme, a host and a path that needs no escaping.\<close>

definition endpointFor :: "(string \<Rightarrow> URL option) \<Rightarrow> string \<Rightarrow> bool \<Rightarrow> url_error + string" where
  "endpointFor url_parse raw allowPlainHTTP =
     and_then (baseURL url_parse raw allowPlainHTTP) (\<lambda>u. Inr (Scheme u @ ''://'' @ Host u @ ExchangePath))"

definition default_port :: "string \<Rightarrow> string" where
  "default_port scheme = (if scheme = ''https'' then ''443'' else if scheme = ''http'' then ''80'' else [])"

definition origin :: "(string \<Rightarrow> string) \<Rightarrow> string \<Rightarrow> string \<Rightarrow> string" where
  "origin lower scheme host =
     (let (name, port) = splitHostPort host
      in scheme @ ''://'' @ JoinHostPort (lower name) (if port = [] then default_port scheme else port))"

section \<open>The transport rule\<close>

text \<open>
  What the rule can tell of a \<open>http.RoundTripper\<close>: a nil interface, an interface holding a
  nil, the default transport, an \<open>*http.Transport\<close> with or without a proxy, anything else.
\<close>

datatype RoundTripper = NilTransport | NilValue | DefaultTransport | HTTPTransport bool | OtherTransport

datatype transport_error = TransportRequired | DefaultRefused | ProxyRefused

definition isNilValue :: "RoundTripper \<Rightarrow> bool" where
  "isNilValue rt = (rt = NilValue)"

definition CheckTransport :: "RoundTripper \<Rightarrow> transport_error option" where
  "CheckTransport rt =
     (if rt = NilTransport \<or> isNilValue rt then Some TransportRequired
      else if rt = DefaultTransport then Some DefaultRefused
      else if rt = HTTPTransport True then Some ProxyRefused
      else None)"

section \<open>Subjects and the client\<close>

datatype subjectKind = subjectNone | subjectKubernetes | subjectBootstrap

record Subject =
  kind :: subjectKind
  subject_path :: string

definition KubernetesTokenFile :: "string \<Rightarrow> Subject" where
  "KubernetesTokenFile p = \<lparr>kind = subjectKubernetes, subject_path = p\<rparr>"

definition BootstrapCredentialFile :: "string \<Rightarrow> Subject" where
  "BootstrapCredentialFile p = \<lparr>kind = subjectBootstrap, subject_path = p\<rparr>"

record Config =
  ExchangeURL :: string
  cfg_AllowPlainHTTP :: bool
  cfg_Subject :: Subject
  cfg_Transport :: RoundTripper
  cfg_Timeout :: duration
  RefreshFraction :: float64
  SafetyMargin :: duration
  BackoffFloor :: duration
  BackoffCeiling :: duration
  cfg_Issuer :: string

text \<open>The same pattern text as \<open>issuerPattern\<close> of authverify/accesstoken_wire.go.\<close>

definition issuerShape :: re where "issuerShape = issuerPattern"

record entry =
  entry_token :: string
  entry_audience :: string
  sent :: instant
  lifetime :: duration
  notBefore :: instant
  refreshAt :: instant
  usableUntil :: instant

record slot =
  slot_entry :: "entry option"
  flight :: bool
  retryAt :: instant
  failures :: int
  lastErr :: "wt_error option"

record Client =
  endpoint :: string
  c_issuer :: string
  allowPlainHTTP :: bool
  c_subject :: Subject
  c_timeout :: duration
  refreshFraction :: float64
  margin :: duration
  backoffFloor :: duration
  backoffCeiling :: duration
  slots :: "string \<rightharpoonup> slot"

definition or_default :: "int \<Rightarrow> int \<Rightarrow> int" where
  "or_default d x = (if x = 0 then d else x)"

definition New :: "(string \<Rightarrow> URL option) \<Rightarrow> Config \<Rightarrow> ConfigField + Client" where
  "New url_parse c =
     (if kind (cfg_Subject c) = subjectNone \<or> subject_path (cfg_Subject c) = [] then Inl FieldSubject
      else if CheckTransport (cfg_Transport c) \<noteq> None then Inl FieldTransport
      else if \<not> matches issuerShape (cfg_Issuer c) then Inl FieldIssuer
      else
        (case endpointFor url_parse (ExchangeURL c) (cfg_AllowPlainHTTP c) of
           Inl _ \<Rightarrow> Inl FieldExchangeURL
         | Inr e \<Rightarrow>
             (let t = or_default DefaultTimeout (cfg_Timeout c);
                  q = (if is_zero64 (RefreshFraction c) then DefaultRefreshFraction else RefreshFraction c);
                  m = or_default DefaultSafetyMargin (SafetyMargin c);
                  lo = or_default DefaultBackoffFloor (BackoffFloor c);
                  hi = or_default DefaultBackoffCeiling (BackoffCeiling c)
              in if t < minTimeout \<or> t > MaxTimeout then Inl FieldTimeout
                 else if \<not> in_unit64 q then Inl FieldRefreshFraction
                 else if m < 0 \<or> m > MaxSafetyMargin then Inl FieldSafetyMargin
                 else if lo < 0 \<or> lo > maxBackoff then Inl FieldBackoffFloor
                 else if hi < lo \<or> hi > maxBackoff then Inl FieldBackoffCeiling
                 else Inr \<lparr>endpoint = e, c_issuer = cfg_Issuer c, allowPlainHTTP = cfg_AllowPlainHTTP c,
                           c_subject = cfg_Subject c, c_timeout = t, refreshFraction = q, margin = m,
                           backoffFloor = lo, backoffCeiling = hi, slots = Map.empty\<rparr>)))"

lemma Wt_New_bounds:
  assumes "New url_parse k = Inr c"
  shows "0 \<le> margin c" and "margin c \<le> 120 * second" and "0 < backoffFloor c" and "backoffFloor c \<le> backoffCeiling c"
    and "backoffCeiling c \<le> 300 * second" and "slots c = Map.empty" and "matches issuerPattern (c_issuer c)"
    and "in_unit64 (refreshFraction c)"
  using assms
  by (auto simp: New_def Let_def or_default_def DefaultBackoffFloor_def MaxSafetyMargin_def maxBackoff_def minute_def
      issuerShape_def split: if_splits sum.splits)

end
