(* ===== verification/Wt_Check.thy ===== *)
theory Wt_Check
  imports Wt_Config
begin

text \<open>
  workloadtoken/exchange.go, the checks: a JSON object with distinct members, the shape of a
  compact JWS and of a workload token, the claims, and \<open>checkToken\<close>, the one check of a
  token at a clock reading. The main result is that the check implies acceptance by the
  workload verifier of authverify under that verifier's own rules.
\<close>

section \<open>Decoding a member\<close>

text \<open>The loop over the members; each pass reads at least one byte, so the length is fuel enough.\<close>

fun unique_members :: "nat \<Rightarrow> decoder \<Rightarrow> members \<Rightarrow> (members \<times> decoder) option" where
  "unique_members 0 d ms = None"
| "unique_members (Suc n) d ms =
     (if More d then
        (case Token d of
           Got (Tok (JStr name)) d1 \<Rightarrow>
             if name \<in> fst ` set ms then None
             else
               (case Decode d1 of
                  None \<Rightarrow> None
                | Some (v, d2) \<Rightarrow> unique_members n d2 (ms @ [(name, v)]))
         | _ \<Rightarrow> None)
      else Some (ms, d))"

definition uniqueObject :: "bytes \<Rightarrow> members option" where
  "uniqueObject raw =
     (case Token (NewDecoder raw) of
        Got (Delim c) d \<Rightarrow>
          if c \<noteq> CHR ''{'' then None
          else
            (case unique_members (Suc (length raw)) d [] of
               None \<Rightarrow> None
             | Some (ms, d1) \<Rightarrow>
                 (case Token d1 of
                    Got t d2 \<Rightarrow> if t = Delim CHR ''}'' \<and> Token d2 = TokEOF then Some ms else None
                  | _ \<Rightarrow> None))
      | _ \<Rightarrow> None)"

section \<open>Shapes\<close>

text \<open>\<open>json.Unmarshal\<close> of a raw member into a fresh string: \<open>null\<close> leaves it empty.\<close>

definition text_member :: "members \<Rightarrow> string \<Rightarrow> string option" where
  "text_member ms name =
     (case map_of ms name of Some (JStr s) \<Rightarrow> Some s | Some JNull \<Rightarrow> Some [] | _ \<Rightarrow> None)"

definition compactJWS :: "string \<Rightarrow> bool" where
  "compactJWS value =
     (let parts = split_on CHR ''.'' value in
      length parts = 3 \<and>
      list_all (\<lambda>part. part \<noteq> [] \<and> base64URLAlphabet part \<and> DecodeString False part \<noteq> None) parts)"

definition kidShape :: re where "kidShape = kidPattern"
definition subjectShape :: re where "subjectShape = subjectPattern"
definition tokenIDShape :: re where "tokenIDShape = jtiPattern"

definition workloadTokenShape :: "string \<Rightarrow> bool" where
  "workloadTokenShape token =
     (compactJWS token \<and>
      (let parts = split_on CHR ''.'' token in
       case DecodeString True (parts ! 0) of
         None \<Rightarrow> False
       | Some rawHeader \<Rightarrow>
           (case uniqueObject rawHeader of
              None \<Rightarrow> False
            | Some ms \<Rightarrow>
                length ms = 3 \<and> text_member ms ''alg'' = Some ''EdDSA'' \<and> text_member ms ''typ'' = Some ''workload+jwt'' \<and>
                (case text_member ms ''kid'' of None \<Rightarrow> False | Some kid \<Rightarrow> matches kidShape kid) \<and>
                (case DecodeString True (parts ! 2) of
                   None \<Rightarrow> False
                 | Some signature \<Rightarrow> length signature = SignatureSize))))"

section \<open>Claims\<close>

definition claimMembers :: "string list" where
  "claimMembers = [''iss'', ''aud'', ''sub'', ''principal_type'', ''jti'', ''iat'', ''nbf'', ''exp'']"

text \<open>
  \<open>strconv.ParseInt(string(bytes.TrimSpace(raw)), 10, 64)\<close> on a raw JSON value: only a
  number's text can start with a digit or a minus sign, and that text has no spaces.
\<close>

definition int_member :: "members \<Rightarrow> string \<Rightarrow> int option" where
  "int_member ms name = (case map_of ms name of Some (JNum t) \<Rightarrow> ParseInt10 t | _ \<Rightarrow> None)"

abbreviation unavailable :: "string \<Rightarrow> wt_error" where
  "unavailable \<equiv> ErrExchangeUnavailable"

definition errClaimsShape :: wt_error where
  "errClaimsShape = unavailable ''token claims break the workload-token contract''"

definition date_claim :: "members \<Rightarrow> string \<Rightarrow> wt_error + int" where
  "date_claim ms name =
     (case int_member ms name of
        None \<Rightarrow> Inl (unavailable (''token '' @ name @ '' is not an integer''))
      | Some v \<Rightarrow>
          if v < 1 \<or> v > maxNumericDate then Inl (unavailable ''token dates break the workload-token contract'')
          else Inr v)"

definition tokenClaims :: "string \<Rightarrow> string \<Rightarrow> string \<Rightarrow> wt_error + (instant \<times> instant)" where
  "tokenClaims token issuer audience =
     and_then (give (unavailable ''token payload is not base64url'') (DecodeString True (split_on CHR ''.'' token ! 1))) (\<lambda>payload.
     and_then (give errClaimsShape (uniqueObject payload)) (\<lambda>ms.
     and_then (demand errClaimsShape (length ms = length claimMembers)) (\<lambda>_.
     and_then (demand errClaimsShape (list_all (\<lambda>name. map_of ms name \<noteq> None) claimMembers)) (\<lambda>_.
     and_then (demand errClaimsShape
       (text_member ms ''aud'' = Some audience \<and> text_member ms ''principal_type'' = Some ''workload'' \<and>
        text_member ms ''iss'' = Some issuer \<and>
        (case text_member ms ''sub'' of None \<Rightarrow> False | Some s \<Rightarrow> matches subjectShape s) \<and>
        (case text_member ms ''jti'' of None \<Rightarrow> False | Some s \<Rightarrow> matches tokenIDShape s))) (\<lambda>_.
     and_then (date_claim ms ''iat'') (\<lambda>iat.
     and_then (date_claim ms ''nbf'') (\<lambda>nbf.
     and_then (date_claim ms ''exp'') (\<lambda>exp.
     and_then (demand (unavailable ''token dates break the workload-token contract'')
       (\<not> (nbf < iat \<or> exp - iat > MaxLifetime div second))) (\<lambda>_.
     Inr (nbf * second, exp * second))))))))))"

section \<open>The check\<close>

definition errNotYetValid :: wt_error where
  "errNotYetValid = unavailable ''token not yet valid''"

text \<open>The entry comes back with its window filled in.\<close>

definition checkToken :: "Client \<Rightarrow> entry \<Rightarrow> instant \<Rightarrow> wt_error + entry" where
  "checkToken c e now =
     (if length (entry_token e) > maxAccessTokenBytes \<or> \<not> workloadTokenShape (entry_token e)
      then Inl (unavailable ''access_token is not a workload token'')
      else
        (case tokenClaims (entry_token e) (c_issuer c) (entry_audience e) of
           Inl err \<Rightarrow> Inl err
         | Inr (nbf, expires) \<Rightarrow>
             (let until0 = sent e + lifetime e;
                  until = (if expires < until0 then expires else until0) - margin c;
                  refresh0 = sent e + scale64 (lifetime e) (refreshFraction c);
                  refresh = (if refresh0 > until then until else refresh0)
              in if now < nbf then Inl errNotYetValid
                 else if \<not> now < until then Inl (unavailable ''token outside its usable window'')
                 else Inr (e\<lparr>notBefore := nbf, refreshAt := refresh, usableUntil := until\<rparr>))))"

section \<open>Which documents are objects with distinct members\<close>

lemma Decode_after_name:
  assumes "Decode (d\<lparr>inp := s, tokenState := ObjectColon\<rparr>) = Some (v, d2)"
  obtains w r where "skip_ws s = CHR '':'' # w" and "json_value w v r" and "within_nesting max_nesting v"
    and "d2 = d\<lparr>inp := r, tokenState := ObjectComma\<rparr>"
  using assms by (auto simp: Decode_def value_at_def after_value_def expect_iff json_prefix_iff
      split: option.splits prod.splits if_splits)

lemma unique_members_reads:
  assumes "unique_members n d ms = Some (ms', d')" and "tokenState d = ObjectStart \<or> tokenState d = ObjectComma"
    and "Token d' = Got (Delim CHR ''}'') d''" and "distinct (map fst ms)"
  shows "\<exists>new r. ms' = ms @ new \<and> distinct (map fst ms') \<and> list_all (\<lambda>m. within_nesting max_nesting (snd m)) new \<and>
    (skip_ws (inp d) = CHR ''}'' # r \<and> new = [] \<or> (\<exists>u. name_at d = Some u \<and> json_members u new r)) \<and>
    d'' = closed_by d r"
  using assms
proof (induction n arbitrary: d ms)
  case (Suc n)
  show ?case
  proof (cases "More d")
    case False
    with Suc.prems have e: "ms' = ms" "d' = d" by auto
    then have "close_token d = Some d''" using Suc.prems(3) by (simp add: close_token_def)
    then obtain r where "skip_ws (inp d) = CHR ''}'' # r" "d'' = closed_by d r"
      using close_object [OF Suc.prems(2) False] by blast
    then show ?thesis using e Suc.prems(4) by - (rule exI [of _ "[]"], rule exI [of _ r], simp)
  next
    case True
    then obtain name d1 v d2 where t: "Token d = Got (Tok (JStr name)) d1" "name \<notin> fst ` set ms" "Decode d1 = Some (v, d2)"
      "unique_members n d2 (ms @ [(name, v)]) = Some (ms', d')"
      using Suc.prems(1) by (auto split: token_result.splits token.splits json.splits if_splits option.splits)
    from Suc.prems(2) True t(1) obtain u s where u: "name_at d = Some u" "lex_string (skip_ws u) = Some (name, s)"
      "d1 = d\<lparr>inp := s, tokenState := ObjectColon\<rparr>" by (rule Token_name_cases) auto
    from t(3) u(3) obtain w x where w: "skip_ws s = CHR '':'' # w" "json_value w v x" "within_nesting max_nesting v"
      "d2 = d\<lparr>inp := x, tokenState := ObjectComma\<rparr>" by (auto elim: Decode_after_name)
    have "tokenState d2 = ObjectStart \<or> tokenState d2 = ObjectComma" "distinct (map fst (ms @ [(name, v)]))"
      using w(4) t(2) Suc.prems(4) by auto
    from Suc.IH [OF t(4) this(1) Suc.prems(3) this(2)] obtain new r where i: "ms' = (ms @ [(name, v)]) @ new"
      "distinct (map fst ms')" "list_all (\<lambda>m. within_nesting max_nesting (snd m)) new"
      "skip_ws x = CHR ''}'' # r \<and> new = [] \<or> (\<exists>y. skip_ws x = CHR '','' # y \<and> json_members y new r)"
      "d'' = closed_by d r" using w(4) by (auto simp: name_at_def expect_iff)
    have "json_members u ((name, v) # new) r" using i(4) u(2) w(1,2) last_member more_members by blast
    with i u w show ?thesis by (intro exI [of _ "(name, v) # new"] exI [of _ r]) simp
  qed
qed simp

lemma uniqueObject_tree:
  assumes "uniqueObject raw = Some ms"
  shows "json_text raw (JObj ms)" and "distinct (map fst ms)" and "list_all (\<lambda>m. within_nesting max_nesting (snd m)) ms"
proof -
  obtain d d1 d2 where t: "Token (NewDecoder raw) = Got (Delim CHR ''{'') d"
    "unique_members (Suc (length raw)) d [] = Some (ms, d1)" "Token d1 = Got (Delim CHR ''}'') d2" "Token d2 = TokEOF"
    using assms by (auto simp: uniqueObject_def simp del: unique_members.simps
        split: token_result.splits token.splits if_splits option.splits)
  have "asks_value (NewDecoder raw)" by (simp add: asks_value_def NewDecoder_def)
  from this t(1) obtain r where r: "skip_ws raw = CHR ''{'' # r"
    "d = \<lparr>inp = r, tokenState = ObjectStart, tokenStack = [TopValue]\<rparr>"
    by (rule Token_asked_cases) (auto simp: NewDecoder_def value_at_def inner_state_def)
  have st: "tokenState d = ObjectStart \<or> tokenState d = ObjectComma" using r(2) by simp
  have "distinct (map fst ([] :: members))" by simp
  from unique_members_reads [OF t(2) st t(3) this] obtain new s where n: "ms = [] @ new" "distinct (map fst ms)"
    "list_all (\<lambda>m. within_nesting max_nesting (snd m)) new" "d2 = closed_by d s"
    "skip_ws (inp d) = CHR ''}'' # s \<and> new = [] \<or> (\<exists>u. name_at d = Some u \<and> json_members u new s)" by blast
  have s: "distinct (map fst ms)" "list_all (\<lambda>m. within_nesting max_nesting (snd m)) ms"
    "skip_ws r = CHR ''}'' # s \<and> ms = [] \<or> json_members r ms s" "inp d2 = s" "tokenState d2 = TopValue"
    using n r(2) by (auto simp: name_at_def value_end_def)
  have "json_value raw (JObj ms) s" using s(3) r(1) empty_object object by blast
  moreover have "skip_ws s = []" using Token_EOF [OF t(4) s(5)] s(4) by simp
  ultimately show "json_text raw (JObj ms)" by (auto simp: json_text_def)
  show "distinct (map fst ms)" "list_all (\<lambda>m. within_nesting max_nesting (snd m)) ms" using s by auto
qed

lemma Decode_value:
  assumes "skip_ws s = CHR '':'' # w" and "json_value w v r" and "within_nesting max_nesting v"
  shows "Decode (d\<lparr>inp := s, tokenState := ObjectColon\<rparr>) = Some (v, d\<lparr>inp := r, tokenState := ObjectComma\<rparr>)"
proof -
  have "json_prefix w = Some (v, r)" using assms(2) by (simp add: json_prefix_iff)
  moreover have "expect CHR '':'' s = Some w" using assms(1) by (simp add: expect_iff)
  ultimately show ?thesis using assms(3) by (simp add: Decode_def value_at_def after_value_def)
qed

lemma unique_members_step:
  assumes "name_at d = Some u" and "lex_string (skip_ws u) = Some (name, s)" and "name \<notin> fst ` set ms"
    and "skip_ws s = CHR '':'' # w" and "json_value w v r" and "within_nesting max_nesting v"
  shows "unique_members (Suc n) d ms = unique_members n (d\<lparr>inp := r, tokenState := ObjectComma\<rparr>) (ms @ [(name, v)])"
proof -
  have "More d" using assms(1,2)
    by (auto simp: name_at_def More_def expect_iff lex_string_def split: token_state.splits list.splits if_splits)
  then show ?thesis using Token_name [OF assms(1,2)] Decode_value [OF assms(4-6)] assms(3) by simp
qed

lemma unique_members_last: "skip_ws (inp d) = CHR ''}'' # r \<Longrightarrow> unique_members (Suc n) d ms = Some (ms, d)"
  by (simp add: More_def)

lemma member_shorter:
  assumes "lex_string (skip_ws s) = Some (k, t)" and "skip_ws t = CHR '':'' # u" and "json_value u v w"
  shows "length w + 2 < length s"
proof -
  have "length t < length (skip_ws s)" by (rule lex_string_shorter [OF assms(1)])
  moreover have "length (skip_ws s) \<le> length s" by (rule skip_ws_shorter)
  moreover have "length u < length t" by (rule skip_ws_cons_shorter [OF assms(2)])
  moreover have "length w < length u" by (rule grammar_shorter(1) [OF assms(3)])
  ultimately show ?thesis by linarith
qed

lemma unique_members_complete:
  "json_value u v r \<Longrightarrow> True"
  "json_elems u vs r \<Longrightarrow> True"
  "json_members u new r \<Longrightarrow> \<forall>n d ms. name_at d = Some u \<longrightarrow> distinct (map fst (ms @ new)) \<longrightarrow>
     list_all (\<lambda>m. within_nesting max_nesting (snd m)) new \<longrightarrow> length u < n \<longrightarrow>
     (\<exists>t. skip_ws t = CHR ''}'' # r \<and>
       unique_members n d ms = Some (ms @ new, d\<lparr>inp := t, tokenState := ObjectComma\<rparr>))"
proof (induction rule: json_value_json_elems_json_members.inducts)
  case (last_member s k t u v w r)
  show ?case
  proof (intro allI impI)
    fix n d ms
    assume a: "name_at d = Some s" "distinct (map fst (ms @ [(k, v)]))"
      "list_all (\<lambda>m. within_nesting max_nesting (snd m)) [(k, v)]" "length s < n"
    have "length w + 2 < length s" using last_member.hyps(1,2,3) by (rule member_shorter)
    then obtain n' where n: "n = Suc (Suc n')" using a(4) by (cases n; cases "n - 1") auto
    let ?d = "d\<lparr>inp := w, tokenState := ObjectComma\<rparr>"
    have m: "k \<notin> fst ` set ms" "within_nesting max_nesting v" using a(2,3) by auto
    have "unique_members n d ms = unique_members (Suc n') ?d (ms @ [(k, v)])"
      unfolding n by (rule unique_members_step [OF a(1) last_member.hyps(1) m(1) last_member.hyps(2,3) m(2)])
    also have "\<dots> = Some (ms @ [(k, v)], ?d)" using last_member.hyps(4) by (intro unique_members_last [where r = r]) simp
    finally show "\<exists>t. skip_ws t = CHR ''}'' # r \<and>
        unique_members n d ms = Some (ms @ [(k, v)], d\<lparr>inp := t, tokenState := ObjectComma\<rparr>)"
      using last_member.hyps(4) by blast
  qed
next
  case (more_members s k t u v w x ms r)
  show ?case
  proof (intro allI impI)
    fix n d ms0
    assume a: "name_at d = Some s" "distinct (map fst (ms0 @ (k, v) # ms))"
      "list_all (\<lambda>m. within_nesting max_nesting (snd m)) ((k, v) # ms)" "length s < n"
    obtain n' where n: "n = Suc n'" using a(4) by (cases n) auto
    have "length w + 2 < length s" using more_members.hyps(1,2,3) by (rule member_shorter)
    moreover have "length x < length w" by (rule skip_ws_cons_shorter [OF more_members.hyps(4)])
    ultimately have x: "length x < n'" using a(4) n by linarith
    let ?d = "d\<lparr>inp := w, tokenState := ObjectComma\<rparr>"
    have m: "k \<notin> fst ` set ms0" "within_nesting max_nesting v"
      "list_all (\<lambda>m. within_nesting max_nesting (snd m)) ms" using a(2,3) by auto
    have at: "name_at ?d = Some x" using more_members.hyps(4) by (simp add: name_at_def expect_iff)
    have dist: "distinct (map fst ((ms0 @ [(k, v)]) @ ms))" using a(2) by simp
    have e: "unique_members n d ms0 = unique_members n' ?d (ms0 @ [(k, v)])"
      unfolding n by (rule unique_members_step [OF a(1) more_members.hyps(1) m(1) more_members.hyps(2,3) m(2)])
    from more_members.IH(2) [rule_format, OF at dist m(3) x] obtain y where "skip_ws y = CHR ''}'' # r"
      "unique_members n' ?d (ms0 @ [(k, v)]) = Some ((ms0 @ [(k, v)]) @ ms, ?d\<lparr>inp := y, tokenState := ObjectComma\<rparr>)"
      by blast
    then show "\<exists>t. skip_ws t = CHR ''}'' # r \<and>
        unique_members n d ms0 = Some (ms0 @ (k, v) # ms, d\<lparr>inp := t, tokenState := ObjectComma\<rparr>)"
      unfolding e by (intro exI [of _ y]) simp
  qed
qed auto

lemma Token_close_object:
  "tokenState d = ObjectStart \<or> tokenState d = ObjectComma \<Longrightarrow> skip_ws (inp d) = CHR ''}'' # r \<Longrightarrow>
     Token d = Got (Delim CHR ''}'') (closed_by d r)"
  by (subst Token.simps) auto

lemma object_text:
  assumes "json_text raw (JObj ms)"
  obtains t s where "skip_ws raw = CHR ''{'' # t" and "skip_ws t = CHR ''}'' # s \<and> ms = [] \<or> json_members t ms s"
    and "skip_ws s = []"
proof -
  obtain s where s: "json_value raw (JObj ms) s" "skip_ws s = []" using assms by (auto simp: json_text_def)
  from s(1) show ?thesis
  proof (cases rule: json_value.cases)
    case scalar
    then show ?thesis by (auto simp: lex_scalar_def lex_literal_def split: list.splits if_splits)
  qed (use that s(2) in auto)
qed

text \<open>
  \<open>uniqueObject\<close> is exact: it returns the members of a document precisely when the
  document is one JSON object followed only by white space, whose member names are distinct
  and whose values stay within the decoder's nesting limit. In particular its loop ends on
  every input.
\<close>

theorem unique_object_exact:
  "uniqueObject raw = Some ms \<longleftrightarrow>
     json_text raw (JObj ms) \<and> distinct (map fst ms) \<and> list_all (\<lambda>m. within_nesting max_nesting (snd m)) ms"
proof
  assume "uniqueObject raw = Some ms"
  then show "json_text raw (JObj ms) \<and> distinct (map fst ms) \<and> list_all (\<lambda>m. within_nesting max_nesting (snd m)) ms"
    using uniqueObject_tree by blast
next
  assume a: "json_text raw (JObj ms) \<and> distinct (map fst ms) \<and> list_all (\<lambda>m. within_nesting max_nesting (snd m)) ms"
  then obtain t s where t: "skip_ws raw = CHR ''{'' # t" "skip_ws t = CHR ''}'' # s \<and> ms = [] \<or> json_members t ms s"
    "skip_ws s = []" using object_text by metis
  let ?d = "\<lparr>inp = t, tokenState = ObjectStart, tokenStack = [TopValue]\<rparr>"
  have open_raw: "Token (NewDecoder raw) = Got (Delim CHR ''{'') ?d"
    using t(1) Token_open [of "NewDecoder raw" raw] by (simp add: NewDecoder_def value_at_def inner_state_def)
  have len: "length t < Suc (length raw)" using skip_ws_cons_shorter [OF t(1)] by simp
  have "\<exists>d1. unique_members (Suc (length raw)) ?d [] = Some (ms, d1) \<and> skip_ws (inp d1) = CHR ''}'' # s \<and>
      tokenState d1 \<in> {ObjectStart, ObjectComma} \<and> tokenStack d1 = [TopValue]"
  proof (cases "json_members t ms s")
    case True
    have "name_at ?d = Some t" by (simp add: name_at_def)
    from unique_members_complete(3) [OF True, rule_format, OF this, of "[]"] a len obtain y where
      "skip_ws y = CHR ''}'' # s" "unique_members (Suc (length raw)) ?d [] = Some ([] @ ms, ?d\<lparr>inp := y, tokenState := ObjectComma\<rparr>)"
      by (auto simp del: unique_members.simps)
    then show ?thesis by (intro exI [of _ "?d\<lparr>inp := y, tokenState := ObjectComma\<rparr>"]) (simp del: unique_members.simps)
  next
    case False
    with t(2) have "skip_ws t = CHR ''}'' # s" "ms = []" by auto
    then show ?thesis using unique_members_last [of ?d s] by (auto simp del: unique_members.simps)
  qed
  then obtain d1 where d1: "unique_members (Suc (length raw)) ?d [] = Some (ms, d1)" "skip_ws (inp d1) = CHR ''}'' # s"
    "tokenState d1 = ObjectStart \<or> tokenState d1 = ObjectComma" by auto
  have "Token (closed_by d1 s) = TokEOF" using t(3) by (intro EOF_Token) simp
  then show "uniqueObject raw = Some ms"
    using open_raw d1(1) Token_close_object [OF d1(3,2)] by (simp add: uniqueObject_def del: unique_members.simps)
qed

end
