(* ===== verification/Wt_Exchange.thy ===== *)
theory Wt_Exchange
  imports Wt_Check Go_Struct
begin

text \<open>
  workloadtoken/exchange.go, the request: reading the subject's secret file, the form that is
  sent, and the two kinds of answer. The file system, the HTTP client, \<open>mime.ParseMediaType\<close>
  and the clock are arguments.
\<close>

section \<open>Secret files\<close>

unbundle bit_operations_syntax

text \<open>
  What the rules read of an open file: whether it could be opened and examined, its mode, its
  owner where the system tells, its mount, and the bytes it yields.
\<close>

record secret_file =
  opens :: bool
  stat_ok :: bool
  regular :: bool
  perm :: "32 word"
  owner :: "int option"
  on_read_only_mount :: bool
  content :: bytes
  reads_well :: bool

record system =
  files :: "string \<Rightarrow> secret_file"
  ownersReported :: bool
  processUID :: int

definition trim_newline :: "string \<Rightarrow> string" where
  "trim_newline s = (if s \<noteq> [] \<and> last s = chr 10 then butlast s else s)"

text \<open>The mask \<open>0x12\<close> is octal 022, the write bits of group and other.\<close>

definition readSubjectFile :: "system \<Rightarrow> string \<Rightarrow> nat \<Rightarrow> wt_error + string" where
  "readSubjectFile sys p maxBytes =
     (let file = files sys p; n = maxBytes + 2; raw = take n (content file); value = trim_newline raw in
      if \<not> opens file then Inl (ErrSubjectUnreadable ''open'')
      else if \<not> stat_ok file \<or> \<not> regular file then Inl (ErrSubjectUnreadable ''not a regular file'')
      else if perm file AND 0x12 \<noteq> 0 then Inl (ErrSubjectUnreadable ''writable by group or other'')
      else if ownersReported sys \<and>
              (case owner file of None \<Rightarrow> True | Some uid \<Rightarrow> uid \<noteq> processUID sys \<and> uid \<noteq> 0) \<and>
              \<not> on_read_only_mount file
           then Inl (ErrSubjectUnreadable ''owned by another user on a writable mount'')
      else if length (content file) < n \<and> \<not> reads_well file then Inl (ErrSubjectUnreadable ''read'')
      else if value = [] \<or> length value > maxBytes then Inl (ErrSubjectUnreadable ''size'')
      else Inr value)"

definition bootstrapPattern :: re where
  "bootstrapPattern = RSeq (lits BootstrapPrefix) (r_times (RCls url_chars) 43)"

definition canonicalBootstrap :: "string \<Rightarrow> bool" where
  "canonicalBootstrap value =
     (matches bootstrapPattern value \<and>
      (case DecodeString True (drop (length BootstrapPrefix) value) of
         None \<Rightarrow> False
       | Some raw \<Rightarrow> length raw = 32))"

definition Subject_read :: "system \<Rightarrow> Subject \<Rightarrow> wt_error + (string \<times> string)" where
  "Subject_read sys s =
     (case kind s of
        subjectKubernetes \<Rightarrow>
          and_then (readSubjectFile sys (subject_path s) maxSubjectBytes) (\<lambda>value.
          and_then (demand (ErrSubjectUnreadable ''shape'') (compactJWS value)) (\<lambda>_. Inr (value, TokenTypeJWT)))
      | subjectBootstrap \<Rightarrow>
          and_then (readSubjectFile sys (subject_path s) bootstrapValueBytes) (\<lambda>value.
          and_then (demand (ErrSubjectUnreadable ''shape'') (canonicalBootstrap value)) (\<lambda>_.
            Inr (value, TokenTypeWorkloadBootstrap)))
      | subjectNone \<Rightarrow> Inl (ErrSubjectUnreadable []))"

section \<open>The form\<close>

text \<open>\<open>url.QueryEscape\<close>, and \<open>url.Values.Encode\<close> of one value per key: sorted by key.\<close>

definition unreserved :: "char \<Rightarrow> bool" where
  "unreserved c =
     (let n = byte c in
      65 \<le> n \<and> n \<le> 90 \<or> 97 \<le> n \<and> n \<le> 122 \<or> 48 \<le> n \<and> n \<le> 57 \<or> n \<in> {45, 46, 95, 126})"

definition upper_hex :: "nat \<Rightarrow> char" where
  "upper_hex n = chr (if n < 10 then n + 48 else n + 55)"

definition escape_char :: "char \<Rightarrow> string" where
  "escape_char c =
     (if unreserved c then [c]
      else if c = CHR '' '' then ''+''
      else [CHR ''%'', upper_hex (byte c div 16), upper_hex (byte c mod 16)])"

definition QueryEscape :: "string \<Rightarrow> string" where
  "QueryEscape s = concat (map escape_char s)"

definition form_Encode :: "(string \<times> string) list \<Rightarrow> string" where
  "form_Encode kvs = join ''&'' (map (\<lambda>(k, v). QueryEscape k @ ''='' @ QueryEscape v) (sort_key fst kvs))"

definition exchange_form :: "string \<Rightarrow> string \<Rightarrow> string \<Rightarrow> string list \<Rightarrow> (string \<times> string) list" where
  "exchange_form subj subjectType aud actions =
     [(''grant_type'', GrantTypeTokenExchange), (''subject_token'', subj), (''subject_token_type'', subjectType),
      (''audience'', aud)] @
     (if actions \<noteq> [] then [(''scope'', join '' '' actions)] else [])"

section \<open>Answers\<close>

record answer =
  ans_status :: int
  content_type :: string
  ans_stream :: bytes
  ends_well :: bool

definition isJSON :: "(string \<Rightarrow> string option) \<Rightarrow> string \<Rightarrow> bool" where
  "isJSON media contentType = (media contentType = Some ''application/json'')"

definition put_error :: "string \<Rightarrow> json \<Rightarrow> string \<Rightarrow> string option" where
  "put_error k v s = into_string v s"

definition refusal :: "(string \<Rightarrow> string) \<Rightarrow> (string \<Rightarrow> string option) \<Rightarrow> string \<Rightarrow> bytes \<Rightarrow> wt_error" where
  "refusal f media contentType body =
     (if \<not> isJSON media contentType then unavailable ''400 without a JSON answer''
      else
        (case Option.bind (json_unmarshal body) (\<lambda>v. into_struct f [''error''] put_error v []) of
           None \<Rightarrow> unavailable ''400 with a malformed answer''
         | Some code \<Rightarrow>
             if code = ''invalid_grant'' then ErrExchangeRefused
             else if code = ''invalid_request'' then ErrExchangeInvalidRequest
             else unavailable ''400 with an unknown error code''))"

text \<open>
  \<open>strings.EqualFold\<close> with \<open>Bearer\<close>, whose letters fold to their ASCII counterparts
  only.
\<close>

definition ascii_lower :: "char \<Rightarrow> char" where
  "ascii_lower c = (if 65 \<le> byte c \<and> byte c \<le> 90 then chr (byte c + 32) else c)"

definition text_of :: "members \<Rightarrow> string \<Rightarrow> string option" where
  "text_of ms name =
     (case obj_get ms name of Some (JStr s) \<Rightarrow> Some s | Some JNull \<Rightarrow> Some [] | _ \<Rightarrow> None)"

text \<open>
  The source reads the three text members in the order of a map, so which of them an error
  names is not determined.
\<close>

definition parseAnswer :: "(string \<Rightarrow> string option) \<Rightarrow> string \<Rightarrow> bytes \<Rightarrow> wt_error + (string \<times> duration)" where
  "parseAnswer media contentType body =
     and_then (demand (unavailable ''answer is not JSON'') (isJSON media contentType)) (\<lambda>_.
     and_then (give (unavailable ''malformed answer'')
       (case Decode (NewDecoder body) of
          Some (JObj ms, d) \<Rightarrow> if Token d = TokEOF then Some ms else None
        | _ \<Rightarrow> None)) (\<lambda>ms.
     and_then (give (unavailable ''answer lacks a member'') (text_of ms ''access_token'')) (\<lambda>accessToken.
     and_then (give (unavailable ''answer lacks a member'') (text_of ms ''token_type'')) (\<lambda>tokenType.
     and_then (give (unavailable ''answer lacks a member'') (text_of ms ''issued_token_type'')) (\<lambda>issuedType.
     and_then (demand (unavailable ''token_type is not Bearer'') (map ascii_lower tokenType = ''bearer'')) (\<lambda>_.
     and_then (demand (unavailable ''issued_token_type is not a JWT'') (issuedType = TokenTypeJWT)) (\<lambda>_.
     and_then (give (unavailable ''answer lacks expires_in'') (obj_get ms ''expires_in'')) (\<lambda>raw.
     and_then (give (unavailable ''expires_in is not an integer in 1..300'')
       (case raw of JNum t \<Rightarrow> ParseInt10 t | _ \<Rightarrow> None)) (\<lambda>seconds.
     and_then (demand (unavailable ''expires_in is not an integer in 1..300'')
       (\<not> (seconds < 1 \<or> seconds > MaxLifetime div second))) (\<lambda>_.
     Inr (accessToken, seconds * second)))))))))))"

section \<open>One exchange\<close>

text \<open>
  \<open>post\<close> is the HTTP client: an answer, or a failure and whether it is a timeout.
  \<open>start\<close> is the clock reading before the request is sent.
\<close>

record exchange_env =
  sys :: system
  request_ok :: "string \<Rightarrow> bool"
  post :: "string \<Rightarrow> string \<Rightarrow> bool + answer"
  media_type :: "string \<Rightarrow> string option"
  start :: instant

definition exchange :: "(string \<Rightarrow> string) \<Rightarrow> exchange_env \<Rightarrow> Client \<Rightarrow> string \<Rightarrow> string list \<Rightarrow> wt_error + entry" where
  "exchange f x c aud actions =
     and_then (Subject_read (sys x) (c_subject c)) (\<lambda>(subj, subjectType).
     and_then (demand (unavailable ''request'') (request_ok x (endpoint c))) (\<lambda>_.
     (case post x (endpoint c) (form_Encode (exchange_form subj subjectType aud actions)) of
        Inl timed_out \<Rightarrow> Inl (unavailable (if timed_out then ''timeout'' else ''transport''))
      | Inr ans \<Rightarrow>
          if length (ans_stream ans) \<le> maxAnswerBytes \<and> \<not> ends_well ans then Inl (unavailable ''read'')
          else if length (ans_stream ans) > maxAnswerBytes then Inl (unavailable ''answer too large'')
          else if ans_status ans = 400 then Inl (refusal f (media_type x) (content_type ans) (ans_stream ans))
          else if ans_status ans \<noteq> 200 then Inl (unavailable (''status '' @ Itoa (ans_status ans)))
          else
            and_then (parseAnswer (media_type x) (content_type ans) (ans_stream ans)) (\<lambda>(tok, life).
            Inr \<lparr>entry_token = tok, entry_audience = aud, sent = start x, lifetime = life,
                 notBefore = zero_time, refreshAt = zero_time, usableUntil = zero_time\<rparr>))))"

section \<open>Properties of the request\<close>

text \<open>What a server reads back from a form: the inverse of the two encodings.\<close>

definition hex_value :: "char \<Rightarrow> nat" where
  "hex_value c = (if byte c < 65 then byte c - 48 else byte c - 55)"

fun QueryUnescape :: "string \<Rightarrow> string" where
  "QueryUnescape (c # a # b # s) =
     (if c = CHR ''%'' then chr (hex_value a * 16 + hex_value b) # QueryUnescape s
      else (if c = CHR ''+'' then CHR '' '' else c) # QueryUnescape (a # b # s))"
| "QueryUnescape (c # s) = (if c = CHR ''+'' then CHR '' '' else c) # QueryUnescape s"
| "QueryUnescape [] = []"

definition form_Decode :: "string \<Rightarrow> (string \<times> string) list" where
  "form_Decode s =
     map (\<lambda>p. (QueryUnescape (takeWhile (\<lambda>c. c \<noteq> CHR ''='') p), QueryUnescape (tl (dropWhile (\<lambda>c. c \<noteq> CHR ''='') p))))
       (split_on CHR ''&'' s)"

lemma hex_value_upper: "n < 16 \<Longrightarrow> hex_value (upper_hex n) = n"
  by (simp add: hex_value_def upper_hex_def)

lemma unreserved_plain: "unreserved c \<Longrightarrow> c \<noteq> CHR ''%'' \<and> c \<noteq> CHR ''+'' \<and> c \<noteq> CHR ''&'' \<and> c \<noteq> CHR ''=''"
  by (auto simp: unreserved_def Let_def)

lemma upper_hex_plain: "n < 16 \<Longrightarrow> upper_hex n \<noteq> CHR ''&'' \<and> upper_hex n \<noteq> CHR ''=''"
proof -
  assume n: "n < 16"
  then have "byte (upper_hex n) = (if n < 10 then n + 48 else n + 55)" by (simp add: upper_hex_def)
  then show ?thesis using n by (auto split: if_splits)
qed

lemma QueryUnescape_plain:
  "c \<noteq> CHR ''%'' \<Longrightarrow> QueryUnescape (c # s) = (if c = CHR ''+'' then CHR '' '' else c) # QueryUnescape s"
  by (cases s; cases "tl s") auto

lemma byte_div_16: "byte c div 16 < 16" "byte c mod 16 < 16"
proof -
  have "byte c mod 256 < 256" by simp
  then have "byte c < 256" by (simp only: of_char_mod_256)
  then show "byte c div 16 < 16" "byte c mod 16 < 16" by (intro less_mult_imp_div_less) simp_all
qed

lemma QueryUnescape_escape: "QueryUnescape (QueryEscape s) = s"
proof (induction s)
  case (Cons c s)
  have "QueryUnescape (escape_char c @ QueryEscape s) = c # QueryUnescape (QueryEscape s)"
    using byte_div_16 [of c] unreserved_plain [of c]
    by (simp add: escape_char_def QueryUnescape_plain hex_value_upper div_mult_mod_eq)
  with Cons show ?case by (simp add: QueryEscape_def)
qed (simp add: QueryEscape_def)

lemma QueryEscape_plain: "CHR ''&'' \<notin> set (QueryEscape s) \<and> CHR ''='' \<notin> set (QueryEscape s)"
proof -
  have "CHR ''&'' \<notin> set (escape_char c) \<and> CHR ''='' \<notin> set (escape_char c)" for c
    using unreserved_plain [of c] upper_hex_plain [OF byte_div_16(1), of c] upper_hex_plain [OF byte_div_16(2), of c]
    by (auto simp: escape_char_def)
  then show ?thesis by (auto simp: QueryEscape_def)
qed

lemma cut_at:
  "d \<notin> set p \<Longrightarrow> takeWhile (\<lambda>c. c \<noteq> d) (p @ d # s) = p" "d \<notin> set p \<Longrightarrow> dropWhile (\<lambda>c. c \<noteq> d) (p @ d # s) = d # s"
  by (induction p) auto

lemma form_pair:
  "QueryUnescape (takeWhile (\<lambda>c. c \<noteq> CHR ''='') (QueryEscape k @ CHR ''='' # QueryEscape v)) = k"
  "QueryUnescape (tl (dropWhile (\<lambda>c. c \<noteq> CHR ''='') (QueryEscape k @ CHR ''='' # QueryEscape v))) = v"
  using QueryEscape_plain [of k] by (simp_all add: cut_at QueryUnescape_escape)

text \<open>
  The exchange request says what the caller asked for: the form a server decodes from the
  body is the grant type, the subject and its type, the audience and, when actions were asked
  for, the scope, each once, sorted by key, whatever bytes the values hold.
\<close>

theorem exchange_form_roundtrip:
  "form_Decode (form_Encode (exchange_form subj ty aud actions)) = sort_key fst (exchange_form subj ty aud actions)"
proof -
  let ?kvs = "sort_key fst (exchange_form subj ty aud actions)"
  let ?ps = "map (\<lambda>(k, v). QueryEscape k @ ''='' @ QueryEscape v) ?kvs"
  have "set ?kvs = set (exchange_form subj ty aud actions)" by simp
  then have "?kvs \<noteq> []" by (force simp: exchange_form_def)
  moreover have "\<forall>p \<in> set ?ps. CHR ''&'' \<notin> set p" using QueryEscape_plain by (auto split: prod.splits)
  ultimately have "split_on CHR ''&'' (join ''&'' ?ps) = ?ps" by (intro split_on_join) auto
  then show ?thesis by (simp add: form_Decode_def form_Encode_def comp_def case_prod_unfold form_pair)
qed

lemma url_chars_plain: "list_all (in_class url_chars) s \<longleftrightarrow> plain_base64 s"
proof -
  have "in_class url_chars c \<longleftrightarrow> sextet c \<noteq> None" for c
    by (auto simp: in_class_def url_chars_def crange_def cone_def sextet_def Let_def)
  then show ?thesis unfolding plain_base64_def list_all_iff by blast
qed

lemma encode_quanta_length: "length (encode_quanta ns) = (4 * length ns + 2) div 3"
  by (induction ns rule: encode_quanta.induct) auto

text \<open>
  The client sends a bootstrap credential only in its one canonical spelling: the prefix
  and the unpadded base64url of exactly 32 bytes.
\<close>

theorem bootstrap_canonical:
  "canonicalBootstrap v \<longleftrightarrow> (\<exists>raw. length raw = 32 \<and> v = ''fcwlb_'' @ EncodeToString raw)"
proof
  assume a: "canonicalBootstrap v"
  then obtain w where w: "v = ''fcwlb_'' @ w" "list_all (in_class url_chars) w"
    unfolding canonicalBootstrap_def bootstrapPattern_def matches_iff lang_seq lang_lits BootstrapPrefix_def lang_rep_class
    by blast
  from a obtain raw where "DecodeString True w = Some raw" "length raw = 32"
    by (auto simp: canonicalBootstrap_def w(1) BootstrapPrefix_def split: option.splits)
  then show "\<exists>raw. length raw = 32 \<and> v = ''fcwlb_'' @ EncodeToString raw"
    using w url_chars_plain strict_base64_canonical by blast
next
  assume "\<exists>raw. length raw = 32 \<and> v = ''fcwlb_'' @ EncodeToString raw"
  then obtain raw where r: "length raw = 32" "v = ''fcwlb_'' @ EncodeToString raw" by blast
  have p: "plain_base64 (EncodeToString raw)" "DecodeString True (EncodeToString raw) = Some raw"
    using strict_base64_canonical by blast+
  have "length (EncodeToString raw) = 43" using r(1) by (simp add: EncodeToString_def encode_quanta_length)
  then have "EncodeToString raw \<in> lang (r_times (RCls url_chars) 43)"
    using p(1) unfolding lang_rep_class by (simp add: url_chars_plain in_reps_def)
  then have "matches bootstrapPattern v" unfolding r(2) bootstrapPattern_def BootstrapPrefix_def matches_iff lang_seq lang_lits
    by blast
  then show "canonicalBootstrap v" using r p(2) by (simp add: canonicalBootstrap_def BootstrapPrefix_def)
qed

lemma trim_newline_cases: "trim_newline s = v \<Longrightarrow> s = v \<or> s = v @ [chr 10]"
  by (auto simp: trim_newline_def split: if_splits) (metis append_butlast_last_id)

text \<open>
  C33. A secret is taken only from a file that no other user can swap. When a subject is read,
  its file is a regular file that neither group nor others may write and whose owner is this
  process or root, unless it is on a read-only mount or the system reports no owners; and the
  secret is the whole content but for one trailing newline, within the size bound.
\<close>

theorem secret_file_guarded:
  assumes "readSubjectFile sy p n = Inr v"
  shows "let file = files sy p in
    regular file \<and> perm file AND 0x12 = 0 \<and>
    (ownersReported sy \<longrightarrow> owner file = Some (processUID sy) \<or> owner file = Some 0 \<or> on_read_only_mount file) \<and>
    v \<noteq> [] \<and> length v \<le> n \<and> (content file = v \<or> content file = v @ [chr 10]) \<and> reads_well file"
proof -
  let ?file = "files sy p"
  have g: "regular ?file" "perm ?file AND 0x12 = 0" "v \<noteq> []" "length v \<le> n" "v = trim_newline (take (n + 2) (content ?file))"
    "ownersReported sy \<longrightarrow> owner ?file = Some (processUID sy) \<or> owner ?file = Some 0 \<or> on_read_only_mount ?file"
    "length (content ?file) < n + 2 \<longrightarrow> reads_well ?file"
    using assms by (auto simp: readSubjectFile_def Let_def split: if_splits option.splits)
  have t: "take (n + 2) (content ?file) = v \<or> take (n + 2) (content ?file) = v @ [chr 10]"
    using trim_newline_cases g(5) by metis
  then have "length (take (n + 2) (content ?file)) \<le> length v + 1" by (elim disjE) (simp_all only: length_append, simp_all)
  then have "length (take (n + 2) (content ?file)) < n + 2" using g(4) by linarith
  then have "length (content ?file) < n + 2" by simp
  with t g show ?thesis by (auto simp: Let_def)
qed

end
