(* ===== verification/Wt_Verified.thy ===== *)
theory Wt_Verified
  imports Wt_Check
begin

text \<open>
  The client and the verifier agree: what \<open>checkToken\<close> of workloadtoken/exchange.go lets
  through, \<open>WorkloadVerifier.Verify\<close> of authverify/workload_token.go accepts, given only
  what the client cannot know (the key, the signature, the denied key ids).
\<close>

section \<open>Reading the same document twice\<close>

lemma decimal_float_ok:
  assumes "list_all is_digit t" and "dec_value t \<le> maxNumericDate"
  shows "float_ok t"
proof -
  have e: "\<not> (CHR ''e'' \<in> set t \<or> CHR ''E'' \<in> set t \<or> CHR ''.'' \<in> set t)"
    using assms(1) by (auto simp: list_all_iff is_digit_def less_eq_char_def)
  have m: "takeWhile (\<lambda>c. \<not> (c = CHR ''e'' \<or> c = CHR ''E'')) t = t" "dropWhile (\<lambda>c. \<not> (c = CHR ''e'' \<or> c = CHR ''E'')) t = []"
    "dropWhile (\<lambda>c. c \<noteq> CHR ''.'') t = []" "filter is_digit t = t"
    using e assms(1) by (auto simp: takeWhile_eq_all_conv dropWhile_eq_Nil_conv filter_id_conv list_all_iff)
  have "maxNumericDate < float_bound" by (simp add: maxNumericDate_def float_bound_def)
  then show ?thesis using assms(2) unfolding float_ok_def Let_def m by (simp add: exp_value_def)
qed

lemma dec_value_lower:
  assumes "is_digit c" and "c \<noteq> CHR ''0''"
  shows "10 ^ length ds \<le> dec_value (c # ds)"
proof -
  have "byte c \<noteq> 48" using assms(2) byte_inject [of c "CHR ''0''"] by simp
  then have "1 \<le> digit_val c" using assms(1) by (auto simp: is_digit_def digit_val_def less_eq_char_def)
  then have "1 \<le> dec_value [c]" by (simp add: dec_value_def)
  then have "1 * 10 ^ length ds \<le> dec_value [c] * 10 ^ length ds" by (intro mult_right_mono) simp_all
  then show ?thesis using dec_value_append [of "[c]" ds] dec_value_nonneg [of ds] unfolding append_Cons append_Nil by linarith
qed

lemma lex_number_head:
  assumes "lex_number s = Some (t, r)"
  obtains "hd t = CHR ''-''" "t \<noteq> []"
  | e where "t = CHR ''0'' # e" "e = [] \<or> hd e \<in> {CHR ''.'', CHR ''e'', CHR ''E''}"
  | c ds where "t = c # ds" "is_digit c" "c \<noteq> CHR ''0''"
proof -
  define sg where "sg = takeWhile (\<lambda>c. c = CHR ''-'') (take 1 s)"
  obtain i r1 f r2 e r3 where p: "int_part (drop (length sg) s) = Some (i, r1)" "frac_part r1 = Some (f, r2)"
    "exp_part r2 = Some (e, r3)" "t = sg @ i @ f @ e"
    using assms by (auto simp: lex_number_def Let_def sg_def split: option.splits prod.splits)
  have fe: "f @ e = [] \<or> hd (f @ e) \<in> {CHR ''.'', CHR ''e'', CHR ''E''}"
    using p(2,3) by (auto simp: frac_part_def exp_part_def split: list.splits if_splits)
  have sg: "sg = [] \<or> sg = ''-''" by (cases s) (auto simp: sg_def)
  have i: "i = ''0'' \<or> (\<exists>c ds. i = c # ds \<and> is_digit c \<and> c \<noteq> CHR ''0'')"
    using p(1) by (auto simp: int_part_def digits1_def Let_def split: list.splits if_splits)
  show ?thesis
  proof (cases "sg = []")
    case True
    with i show ?thesis using that(2) [of "f @ e"] that(3) fe p(4) by auto
  next
    case False
    with sg that(1) p(4) show ?thesis by simp
  qed
qed

lemma ParseInt10_date:
  assumes "ParseInt10 t = Some v" and "1 \<le> v" and "v \<le> maxNumericDate" and "lex_number s = Some (t, r)"
  shows "list_all is_digit t" and "dec_value t = v" and "t \<noteq> []" and "length t \<le> 12"
proof -
  have nd: "\<not> is_digit CHR ''.''" "\<not> is_digit CHR ''e''" "\<not> is_digit CHR ''E''" "\<not> is_digit CHR ''-''" "\<not> is_digit CHR ''+''"
    by (simp_all add: is_digit_def less_eq_char_def)
  have hd: "t \<noteq> [] \<and> hd t \<noteq> CHR ''+''" using lex_number_head [OF assms(4)] nd by cases auto
  have neg: "hd t \<noteq> CHR ''-''"
    using assms(1,2) dec_value_nonneg [of "tl t"] hd by (auto simp: ParseInt10_def Let_def split: if_splits)
  with hd assms(1) show d: "list_all is_digit t" "dec_value t = v" "t \<noteq> []"
    by (auto simp: ParseInt10_def Let_def split: if_splits)
  from lex_number_head [OF assms(4)] show "length t \<le> 12"
  proof cases
    case 1
    with neg show ?thesis by simp
  next
    case (2 e)
    with d(1) nd have "e = []" by (cases e) auto
    with 2 show ?thesis by simp
  next
    case (3 c ds)
    with d(2) assms(3) dec_value_lower [of c ds] have "10 ^ length ds \<le> maxNumericDate" by simp
    also have "\<dots> < 10 ^ 12" by (simp add: maxNumericDate_def)
    finally have "length ds < 12" by (rule power_less_imp_less_exp [rotated]) simp
    with 3 show ?thesis by simp
  qed
qed

lemma number_lexed:
  "json_value u v r \<Longrightarrow> \<forall>t. v = JNum t \<longrightarrow> (\<exists>s x. lex_number s = Some (t, x))"
  "json_elems u vs r \<Longrightarrow> True"
  "json_members u ms r \<Longrightarrow> \<forall>k t. (k, JNum t) \<in> set ms \<longrightarrow> (\<exists>s x. lex_number s = Some (t, x))"
proof (induction rule: json_value_json_elems_json_members.inducts)
  case (scalar s v r)
  then show ?case by (auto simp: lex_scalar_def lex_literal_def split: list.splits if_splits)
qed auto

lemma object_number:
  assumes "json_text raw (JObj ms)" and "(k, JNum t) \<in> set ms"
  obtains s r where "lex_number s = Some (t, r)"
proof -
  from assms(1) obtain u s where "json_members u ms s" using object_text assms(2) by (metis empty_iff list.set(1))
  then show ?thesis using number_lexed(3) assms(2) that by blast
qed

lemma exact_names:
  assumes "distinct (map fst ms)" and "length ms = length ns" and "distinct ns" and "\<forall>n \<in> set ns. map_of ms n \<noteq> None"
  shows "fst ` set ms = set ns"
proof -
  have "set ns \<subseteq> fst ` set ms" using assms(4) by (auto simp: map_of_eq_None_iff)
  moreover have "card (fst ` set ms) = card (set ns)"
    using assms(1-3) by (metis distinct_card length_map set_map)
  ultimately show ?thesis by (metis card_subset_eq finite_imageI finite_set)
qed

definition plain_member :: "json \<Rightarrow> bool" where
  "plain_member v \<longleftrightarrow> (case v of JStr s \<Rightarrow> True | JNum t \<Rightarrow> float_ok t | _ \<Rightarrow> False)"

lemma readers_agree:
  assumes u: "uniqueObject raw = Some ms" and p: "\<forall>m \<in> set ms. plain_member (snd m)" and i: "inj_on f (fst ` set ms)"
  shows "decodeObject f raw = Some ms"
proof -
  note t = uniqueObject_tree [OF u]
  have "distinct (map f (map fst ms))" using t(2) i by (simp add: distinct_map comp_inj_on)
  moreover have "fold_distinct f (snd m)" if "m \<in> set ms" for m
    using p that by (cases "snd m") (auto simp: plain_member_def)
  ultimately have "fold_distinct f (JObj ms)" by (simp add: list_all_iff comp_def)
  then have "singleDocumentWithoutDuplicateMembers f raw" using t(1) single_document_iff by blast
  moreover have "within_nesting n (snd m)" if "m \<in> set ms" for m n
    using p that by (cases "snd m") (auto simp: plain_member_def)
  then have "within_nesting max_nesting (JObj ms)" by (simp add: max_nesting_def list_all_iff)
  then have "json_unmarshal raw = Some (JObj ms)"
    using t(1) json_parse_iff [of raw "JObj ms"] by (simp add: json_unmarshal_def)
  ultimately show ?thesis by (simp add: decodeObject_def)
qed

lemma text_member_Some:
  "text_member ms n = Some x \<Longrightarrow> x \<noteq> [] \<Longrightarrow> map_of ms n = Some (JStr x)"
  by (auto simp: text_member_def split: option.splits json.splits)

lemma obj_get_map_of: "distinct (map fst ms) \<Longrightarrow> obj_get ms k = map_of ms k"
  using obj_get_unique [of ms k] obj_get_None [of ms k] map_of_eq_None_iff [of ms k]
  by (cases "map_of ms k") (auto simp: map_of_eq_Some_iff)

lemma matched_nonempty: "matches r s \<Longrightarrow> 0 < min_length r \<Longrightarrow> s \<noteq> []"
  using matches_min_length by fastforce

lemma patterns_nonempty:
  "0 < min_length issuerPattern" "0 < min_length subjectPattern" "0 < min_length jtiPattern" "0 < min_length kidPattern"
  by (simp_all add: issuerPattern_def subjectPattern_def jtiPattern_def kidPattern_def Let_def lit_def)

lemma all_members:
  assumes "distinct (map fst ms)" and "fst ` set ms \<subseteq> set ns" and "\<forall>n \<in> set ns. \<exists>v. map_of ms n = Some v \<and> P v"
  shows "\<forall>m \<in> set ms. P (snd m)"
proof
  fix m assume m: "m \<in> set ms"
  then have "map_of ms (fst m) = Some (snd m)" using assms(1) by (simp add: map_of_eq_Some_iff)
  then show "P (snd m)" using assms(2,3) m by force
qed

section \<open>Header and claims\<close>

lemma closed_members:
  assumes "distinct (map fst ms)" and "fst ` set ms = set ns" and "\<forall>n \<in> set ns. \<exists>v. map_of ms n = Some v \<and> P v"
  shows "closedSet ms ns ns"
proof -
  have "obj_get ms n \<noteq> None" if "n \<in> set ns" for n using assms(1,3) that obj_get_map_of by fastforce
  moreover have "fst m \<in> set ns" if "m \<in> set ms" for m using assms(2) that by auto
  ultimately show ?thesis by (auto simp: closedSet_def list_all_iff)
qed

lemma header_agrees:
  assumes u: "uniqueObject raw = Some ms" and n: "length ms = 3"
    and t: "text_member ms ''alg'' = Some ''EdDSA''" "text_member ms ''typ'' = Some ''workload+jwt''"
      "text_member ms ''kid'' = Some kid" "matches kidPattern kid"
    and i: "inj_on f (set workloadHeaderMembers)"
  shows "parseWorkloadHeader f raw = Some kid"
proof -
  note d = uniqueObject_tree(2) [OF u]
  have k: "kid \<noteq> []" using matched_nonempty [OF t(4)] by (simp add: patterns_nonempty)
  have m: "map_of ms ''alg'' = Some (JStr ''EdDSA'')" "map_of ms ''typ'' = Some (JStr ''workload+jwt'')"
    "map_of ms ''kid'' = Some (JStr kid)"
    using text_member_Some [OF t(1)] text_member_Some [OF t(2)] text_member_Some [OF t(3) k] by simp_all
  have present: "\<forall>n \<in> set workloadHeaderMembers. \<exists>v. map_of ms n = Some v \<and> plain_member v"
    using m by (simp add: workloadHeaderMembers_def plain_member_def)
  have names: "fst ` set ms = set workloadHeaderMembers"
    using d n present by (intro exact_names) (auto simp: workloadHeaderMembers_def)
  have "\<forall>m \<in> set ms. plain_member (snd m)" using names present by (intro all_members [OF d]) simp_all
  then have "decodeObject f raw = Some ms" using u i names by (intro readers_agree) simp_all
  moreover have "closedSet ms workloadHeaderMembers workloadHeaderMembers" using closed_members [OF d names present] .
  ultimately show ?thesis using m t(4)
    by (simp add: parseWorkloadHeader_def require_def stringMember_def obj_get_map_of [OF d] algEdDSA_def typWorkloadToken_def)
qed

lemma date_claim_Inr:
  assumes "date_claim ms n = Inr v" and "json_text raw (JObj ms)" and "distinct (map fst ms)"
  shows "numericDate ms n = Some v" and "\<exists>w. map_of ms n = Some w \<and> plain_member w"
proof -
  obtain t where t: "map_of ms n = Some (JNum t)" "ParseInt10 t = Some v" "1 \<le> v" "v \<le> maxNumericDate"
    using assms(1) by (auto simp: date_claim_def int_member_def split: option.splits json.splits if_splits)
  have "(n, JNum t) \<in> set ms" using t(1) assms(3) by (simp add: map_of_eq_Some_iff)
  then obtain s r where "lex_number s = Some (t, r)" using object_number [OF assms(2)] by blast
  note p = ParseInt10_date [OF t(2-4) this]
  have "matches digitsOnly t"
    using p(1,3) unfolding digitsOnly_def matches_rep_class
    by (auto simp: list_all_iff in_class_def crange_def is_digit_def less_eq_char_def Suc_le_eq in_reps_def)
  then show "numericDate ms n = Some v" using p t
    by (simp add: numericDate_def obj_get_map_of [OF assms(3)] ParseInt64_def Let_def) (simp add: maxNumericDate_def)
  show "\<exists>w. map_of ms n = Some w \<and> plain_member w"
    using t p decimal_float_ok [of t] by (simp add: plain_member_def)
qed

lemma claims_agree:
  assumes c: "tokenClaims tok iss aud = Inr (nbf, exp)" and p: "DecodeString True (split_on CHR ''.'' tok ! 1) = Some payload"
    and i: "inj_on f (set workloadClaimsMembers)" and iss: "matches issuerPattern iss" and aud: "aud \<in> set workloadAudiences"
    and w: "nbf < exp"
  obtains k where "parseWorkloadClaims f payload = Some k" and "wc_Issuer k = iss" and "wc_Audience k = aud"
    and "wc_NotBefore k * second = nbf" and "wc_ExpiresAt k * second = exp"
proof -
  obtain ms n x a where u: "uniqueObject payload = Some ms" "length ms = length claimMembers"
    "text_member ms ''aud'' = Some aud" "text_member ms ''principal_type'' = Some ''workload''" "text_member ms ''iss'' = Some iss"
    "case text_member ms ''sub'' of None \<Rightarrow> False | Some s \<Rightarrow> matches subjectShape s"
    "case text_member ms ''jti'' of None \<Rightarrow> False | Some s \<Rightarrow> matches tokenIDShape s"
    and dates: "date_claim ms ''iat'' = Inr a" "date_claim ms ''nbf'' = Inr n" "date_claim ms ''exp'' = Inr x"
    "\<not> (n < a \<or> x - a > MaxLifetime div second)" "nbf = n * second" "exp = x * second"
    using c unfolding tokenClaims_def p by (auto simp: and_then_Inr give_Inr demand_Inr)
  obtain sub jti where sj: "text_member ms ''sub'' = Some sub" "matches subjectPattern sub"
    "text_member ms ''jti'' = Some jti" "matches jtiPattern jti"
    using u(6,7) by (auto simp: subjectShape_def tokenIDShape_def split: option.splits)
  note t = uniqueObject_tree [OF u(1)]
  have ne: "aud \<noteq> []" "iss \<noteq> []" "sub \<noteq> []" "jti \<noteq> []"
    using aud matched_nonempty [OF iss] matched_nonempty [OF sj(2)] matched_nonempty [OF sj(4)]
    by (auto simp: workloadAudiences_def patterns_nonempty)
  note m = text_member_Some [OF u(3) ne(1)] text_member_Some [OF u(4)] text_member_Some [OF u(5) ne(2)]
    text_member_Some [OF sj(1) ne(3)] text_member_Some [OF sj(3) ne(4)]
  note dn = date_claim_Inr [OF dates(1) t(1,2)] date_claim_Inr [OF dates(2) t(1,2)] date_claim_Inr [OF dates(3) t(1,2)]
  have present: "\<forall>k \<in> set workloadClaimsMembers. \<exists>v. map_of ms k = Some v \<and> plain_member v"
    using m dn(2,4,6) by (simp add: workloadClaimsMembers_def plain_member_def)
  have names: "fst ` set ms = set workloadClaimsMembers"
    using t(2) u(2) present by (intro exact_names) (auto simp: workloadClaimsMembers_def claimMembers_def)
  have "\<forall>m \<in> set ms. plain_member (snd m)" using names present by (intro all_members [OF t(2)]) simp_all
  then have "decodeObject f payload = Some ms" using u(1) i names by (intro readers_agree) simp_all
  moreover have "closedSet ms workloadClaimsMembers workloadClaimsMembers" using closed_members [OF t(2) names present] .
  moreover have "\<not> (n < a \<or> x \<le> n \<or> x - a > workloadLifetimeCeiling)"
    using dates(4-6) w by (auto simp: MaxLifetime_def workloadLifetimeCeiling_def WorkloadTokenLifetimeCeiling_def second_def)
  ultimately have "parseWorkloadClaims f payload = Some \<lparr>wc_Issuer = iss, wc_Audience = aud, wc_Subject = sub, wc_TokenID = jti,
      wc_IssuedAt = a, wc_NotBefore = n, wc_ExpiresAt = x\<rparr>"
    using m dn(1,3,5) iss aud sj(2,4)
    by (simp add: parseWorkloadClaims_def require_def stringMember_def obj_get_map_of [OF t(2)])
  then show ?thesis using that dates(5,6) by force
qed

section \<open>The check implies acceptance\<close>

lemma shape_parts:
  assumes "workloadTokenShape tok" and "length tok \<le> 8192" and "inj_on f (set workloadHeaderMembers)"
    and "DecodeString True (split_on CHR ''.'' tok ! 1) = Some pr"
  obtains hr sig kid where "token_parts tok hr pr sig" and "parseWorkloadHeader f hr = Some kid" and "length sig = 64"
proof -
  obtain h p s where sp: "split_on CHR ''.'' tok = [h, p, s]"
    using assms(1) by (auto simp: workloadTokenShape_def compactJWS_def Let_def length_Suc_conv eval_nat_numeral)
  have b: "plain_base64 h" "plain_base64 p" "plain_base64 s"
    using assms(1) by (auto simp: workloadTokenShape_def compactJWS_def sp alphabet_plain)
  obtain hr ms kid sig where x: "DecodeString True h = Some hr" "uniqueObject hr = Some ms" "length ms = 3"
    "text_member ms ''alg'' = Some ''EdDSA''" "text_member ms ''typ'' = Some ''workload+jwt''"
    "text_member ms ''kid'' = Some kid" "matches kidPattern kid" "DecodeString True s = Some sig" "length sig = 64"
    using assms(1) by (auto simp: workloadTokenShape_def sp kidShape_def SignatureSize_def split: option.splits)
  have e: "h = EncodeToString hr" "p = EncodeToString pr" "s = EncodeToString sig"
    using b x(1,8) assms(4) strict_base64_canonical by (auto simp: sp)
  have "tok = h @ ''.'' @ p @ ''.'' @ s" using join_split_on [of "CHR ''.''" tok] by (simp add: sp)
  then have "token_parts tok hr pr sig" using e assms(2) by (simp add: token_parts_def)
  then show ?thesis using that header_agrees [OF x(2-7) assms(3)] x(9) by blast
qed

lemma checked_token:
  assumes "checkToken c e now = Inr e'"
  obtains nbf exp where "length (entry_token e) \<le> 8192" and "workloadTokenShape (entry_token e)"
    and "tokenClaims (entry_token e) (c_issuer c) (entry_audience e) = Inr (nbf, exp)"
    and "nbf \<le> now" and "now < exp - margin c" and "now < sent e + lifetime e - margin c"
    and "e' = e\<lparr>notBefore := nbf, refreshAt := refreshAt e', usableUntil := usableUntil e'\<rparr>"
    and "now < usableUntil e'"
  using assms by (auto simp: checkToken_def maxAccessTokenBytes_def Let_def split: if_splits sum.splits prod.splits)

text \<open>
  C25. A token the client lets through verifies. When the check of a configured client passes at
  a clock reading, the workload verifier for the same issuer and audience accepts the token at
  that reading with any leeway, zero included, as long as it holds the key the token names and
  the signature is good; what the client checks is everything else the verifier asks for.
  Name folding is only required to keep the member names of the contract apart.
\<close>

theorem client_token_verifies:
  assumes "New url_parse k = Inr c" and "checkToken c e now = Inr e'"
    and "inj_on f (set workloadHeaderMembers)" and "inj_on f (set workloadClaimsMembers)"
    and "v_issuer v = c_issuer c" and "v_audience v = entry_audience e" and "v_audience v \<in> set workloadAudiences"
    and "0 \<le> v_leeway v"
    and "\<forall>hr pr sig kid. token_parts (entry_token e) hr pr sig \<longrightarrow> parseWorkloadHeader f hr = Some kid \<longrightarrow>
      signed_by ed v kid (signing_input hr pr) sig"
  shows "\<exists>claims. Workload_Verify ed f v (entry_token e) now = Inr claims"
proof -
  note n = Wt_New_bounds [OF assms(1)]
  obtain nbf exp where x: "length (entry_token e) \<le> 8192" "workloadTokenShape (entry_token e)"
    "tokenClaims (entry_token e) (c_issuer c) (entry_audience e) = Inr (nbf, exp)" "nbf \<le> now" "now < exp - margin c"
    using assms(2) by (rule checked_token)
  obtain payload where p: "DecodeString True (split_on CHR ''.'' (entry_token e) ! 1) = Some payload"
    using x(3) by (auto simp: tokenClaims_def and_then_Inr give_Inr)
  have "nbf < exp" using x(4,5) n(1) by linarith
  from x(3) p assms(4) n(7) _ this obtain cl where cl: "parseWorkloadClaims f payload = Some cl" "wc_Issuer cl = c_issuer c"
    "wc_Audience cl = entry_audience e" "wc_NotBefore cl * second = nbf" "wc_ExpiresAt cl * second = exp"
    by (rule claims_agree) (use assms(6,7) in auto)
  obtain hr sig kid where h: "token_parts (entry_token e) hr payload sig" "parseWorkloadHeader f hr = Some kid"
    using shape_parts [OF x(2,1) assms(3) p] by blast
  have "wc_NotBefore cl \<le> unix_seconds now" "unix_seconds now < wc_ExpiresAt cl"
    using unix_seconds_window x(4,5) n(1) cl(4,5) by auto
  then have "Workload_Verify ed f v (entry_token e) now = Inr cl"
    using h cl assms(5,6,8,9) by (intro workload.accepts [OF h cl(1)]) auto
  then show ?thesis ..
qed

end
