(* ===== verification/Wt_Client.thy ===== *)
theory Wt_Client
  imports Wt_Exchange Wt_Verified
begin

text \<open>
  workloadtoken/client.go: the cache of one token per audience and scope. Each section the
  code runs under its mutex is a function of the client's state: entering \<open>Token\<close>, landing
  an exchange, \<open>Invalidate\<close>. A call alone is their composition; runs interleave the
  sections of any number of callers, with arbitrary clock readings. A caller that waits for a
  flight enters again when the flight has landed.
\<close>

section \<open>Request keys\<close>

text \<open>The source ranges over runes; a byte above 0x7e is part of a rune above 0x7e.\<close>

definition printable :: "string \<Rightarrow> bool" where
  "printable value = list_all (\<lambda>c. \<not> (byte c \<le> 32 \<or> byte c \<ge> 127)) value"

definition requestKey :: "string \<Rightarrow> string list \<Rightarrow> wt_error + (string \<times> string list)" where
  "requestKey aud scope =
     (if aud = [] \<or> length aud > maxAudienceBytes \<or> \<not> printable aud then Inl (ErrBadRequestKey ''audience'')
      else if length scope > maxScopeActions then Inl (ErrBadRequestKey ''too many scope actions'')
      else if \<not> list_all (\<lambda>action. \<not> (action = [] \<or> length action > maxActionBytes \<or> \<not> printable action)) scope
           then Inl (ErrBadRequestKey ''scope action'')
      else (let actions = remdups_adj (sort scope) in Inr (aud @ '' '' @ join '' '' actions, actions)))"

section \<open>Backoff\<close>

function backoff_loop :: "duration \<Rightarrow> int \<Rightarrow> int \<Rightarrow> duration \<Rightarrow> duration" where
  "backoff_loop ceiling fails i wait =
     (if i < fails \<and> wait < ceiling then backoff_loop ceiling fails (i + 1) (wrap_int64 (wait * 2)) else wait)"
  by pat_completeness auto
termination
  by (relation "measure (\<lambda>(ceiling, fails, i, wait). nat (fails - i))") auto

declare backoff_loop.simps [simp del]

definition backoff :: "Client \<Rightarrow> int \<Rightarrow> duration" where
  "backoff c fails = min (backoff_loop (backoffCeiling c) fails 1 (backoffFloor c)) (backoffCeiling c)"

section \<open>The sections of Token\<close>

datatype token_step = Serve string | Wait | Refuse "wt_error option" | Fly

definition new_slot :: slot where
  "new_slot = \<lparr>slot_entry = None, flight = False, retryAt = zero_time, failures = 0, lastErr = None\<rparr>"

definition slot_of :: "Client \<Rightarrow> string \<Rightarrow> slot" where
  "slot_of c key = (case slots c key of None \<Rightarrow> new_slot | Some s \<Rightarrow> s)"

definition set_slot :: "Client \<Rightarrow> string \<Rightarrow> slot \<Rightarrow> Client" where
  "set_slot c key s = c\<lparr>slots := (slots c)(key \<mapsto> s)\<rparr>"

text \<open>The cached entry if it passes the check at a reading.\<close>

definition live_entry :: "Client \<Rightarrow> entry option \<Rightarrow> instant \<Rightarrow> entry option" where
  "live_entry c eo now =
     (case eo of
        None \<Rightarrow> None
      | Some e \<Rightarrow> (case checkToken c e now of Inl _ \<Rightarrow> None | Inr e' \<Rightarrow> Some e'))"

definition token_enter :: "Client \<Rightarrow> string \<Rightarrow> instant \<Rightarrow> Client \<times> token_step" where
  "token_enter c key now =
     (let s0 = slot_of c key; s = s0\<lparr>slot_entry := live_entry c (slot_entry s0) now\<rparr>; c1 = set_slot c key s in
      case slot_entry s of
        Some e \<Rightarrow>
          if now < refreshAt e then (c1, Serve (entry_token e))
          else if flight s then (c1, Serve (entry_token e))
          else if now < retryAt s then (c1, Serve (entry_token e))
          else (set_slot c key (s\<lparr>flight := True\<rparr>), Fly)
      | None \<Rightarrow>
          if flight s then (c1, Wait)
          else if now < retryAt s then (c1, Refuse (lastErr s))
          else (set_slot c key (s\<lparr>flight := True\<rparr>), Fly))"

text \<open>
  Landing reads the clock for the check of the fresh token, for the retry time, and for the
  check of the token it may fall back to.
\<close>

definition token_land ::
  "Client \<Rightarrow> string \<Rightarrow> wt_error + entry \<Rightarrow> instant \<Rightarrow> instant \<Rightarrow> instant \<Rightarrow> Client \<times> token_step" where
  "token_land c key result now1 now2 now3 =
     (let s = (slot_of c key)\<lparr>flight := False\<rparr> in
      case and_then result (\<lambda>fresh. checkToken c fresh now1) of
        Inr fresh \<Rightarrow>
          (set_slot c key (s\<lparr>slot_entry := Some fresh, failures := 0, retryAt := zero_time, lastErr := None\<rparr>),
           Serve (entry_token fresh))
      | Inl e \<Rightarrow>
          (let n = failures s + 1;
               s1 = s\<lparr>failures := n, lastErr := Some e, retryAt := now2 + backoff c n,
                     slot_entry := live_entry c (slot_entry s) now3\<rparr>
           in (set_slot c key s1,
               case slot_entry s1 of Some old \<Rightarrow> Serve (entry_token old) | None \<Rightarrow> Refuse (Some e))))"

definition Invalidate :: "Client \<Rightarrow> string \<Rightarrow> string list \<Rightarrow> Client" where
  "Invalidate c aud scope =
     (case requestKey aud scope of
        Inl _ \<Rightarrow> c
      | Inr (key, _) \<Rightarrow>
          (case slots c key of
             None \<Rightarrow> c
           | Some s \<Rightarrow> set_slot c key (s\<lparr>slot_entry := None, retryAt := zero_time, failures := 0, lastErr := None\<rparr>)))"

section \<open>A whole call\<close>

datatype token_error = ErrNoUsableToken "wt_error option" | BadRequest wt_error

text \<open>
  A nil client is \<open>None\<close>. With no other caller in between no flight is pending, so the
  wait ends only with the caller's context.
\<close>

definition Token_call ::
  "(string \<Rightarrow> string) \<Rightarrow> exchange_env \<Rightarrow> Client option \<Rightarrow> bool \<Rightarrow> string \<Rightarrow> string list \<Rightarrow>
   instant \<Rightarrow> instant \<Rightarrow> instant \<Rightarrow> instant \<Rightarrow> Client option \<times> (token_error + string)" where
  "Token_call f x co has_context aud scope now now1 now2 now3 =
     (case co of
        None \<Rightarrow> (None, Inl (ErrNoUsableToken (Some ErrNotConfigured)))
      | Some c \<Rightarrow>
          if \<not> has_context then (co, Inl (ErrNoUsableToken (Some ErrNoContext)))
          else
            (case requestKey aud scope of
               Inl e \<Rightarrow> (co, Inl (BadRequest e))
             | Inr (key, actions) \<Rightarrow>
                 (let finish = (\<lambda>(c', step).
                        (Some c', case step of
                           Serve t \<Rightarrow> Inr t | Refuse e \<Rightarrow> Inl (ErrNoUsableToken e)
                         | _ \<Rightarrow> Inl (ErrNoUsableToken (Some ErrContext))))
                  in case token_enter c key now of
                       (c1, Fly) \<Rightarrow> finish (token_land c1 key (exchange f x c1 aud actions) now1 now2 now3)
                     | r \<Rightarrow> finish r)))"

section \<open>Properties of keys and backoff\<close>

lemma requestKey_Inr:
  "requestKey aud scope = Inr (key, actions) \<longleftrightarrow>
     aud \<noteq> [] \<and> length aud \<le> 64 \<and> printable aud \<and> length scope \<le> 64 \<and>
     (\<forall>a \<in> set scope. a \<noteq> [] \<and> length a \<le> 128 \<and> printable a) \<and>
     actions = remdups_adj (sort scope) \<and> key = aud @ '' '' @ join '' '' actions"
  by (auto simp: requestKey_def maxAudienceBytes_def maxScopeActions_def maxActionBytes_def Let_def list_all_iff not_less)

lemma printable_no_space: "printable s \<Longrightarrow> CHR '' '' \<notin> set s"
  by (auto simp: printable_def list_all_iff)

lemma sorted_compact: "sorted xs \<Longrightarrow> distinct (remdups_adj xs)"
  by (induction xs rule: remdups_adj.induct) auto

lemma key_audience:
  assumes "requestKey aud scope = Inr (key, actions)"
  shows "takeWhile (\<lambda>c. c \<noteq> CHR '' '') key = aud" and "dropWhile (\<lambda>c. c \<noteq> CHR '' '') key = CHR '' '' # join '' '' actions"
  using assms cut_at [OF printable_no_space, of aud] by (auto simp: requestKey_Inr)

lemma key_actions:
  assumes "requestKey aud scope = Inr (key, actions)"
  shows "actions = (if join '' '' actions = [] then [] else split_on CHR '' '' (join '' '' actions))"
proof (cases "actions = []")
  case False
  have "\<forall>a \<in> set actions. a \<noteq> [] \<and> CHR '' '' \<notin> set a"
    using assms printable_no_space by (auto simp: requestKey_Inr)
  then show ?thesis using False split_on_join [of actions "CHR '' ''"] by (cases actions; cases "tl actions") auto
qed simp

text \<open>
  C31. Two calls share a cache slot exactly when they ask for the same audience and the same
  set of actions, whatever the order and repeats of the actions, and then the same actions are
  sent.
\<close>

theorem request_key_exact:
  assumes "requestKey aud scope = Inr (key, actions)" and "requestKey aud' scope' = Inr (key', actions')"
  shows "(key = key' \<longleftrightarrow> aud = aud' \<and> set scope = set scope') \<and> (key = key' \<longrightarrow> actions = actions') \<and>
    set actions = set scope \<and> sorted actions \<and> distinct actions"
proof -
  have a: "set actions = set scope" "sorted actions" "distinct actions" "set actions' = set scope'" "sorted actions'"
    "distinct actions'" using assms by (auto simp: requestKey_Inr sorted_remdups_adj sorted_compact)
  have "aud = aud' \<and> actions = actions'" if "key = key'"
    using that key_audience [OF assms(1)] key_audience [OF assms(2)] key_actions [OF assms(1)] key_actions [OF assms(2)]
    by (metis list.inject)
  moreover have "actions = actions'" if "set scope = set scope'"
    using that a by (metis sorted_distinct_set_unique)
  moreover have "key = aud @ '' '' @ join '' '' actions" "key' = aud' @ '' '' @ join '' '' actions'"
    using assms by (auto simp: requestKey_Inr)
  ultimately show ?thesis using a by metis
qed

lemma backoff_loop_power:
  assumes "0 < wait" and "wait \<le> 2 * M" and "ceiling \<le> M" and "2 * M < 2 ^ 63"
  shows "min (backoff_loop ceiling fails i wait) ceiling = min (wait * 2 ^ nat (fails - i)) ceiling"
  using assms
proof (induction ceiling fails i wait rule: backoff_loop.induct)
  case (1 ceiling fails i wait)
  show ?case
  proof (cases "i < fails \<and> wait < ceiling")
    case True
    have w: "wrap_int64 (wait * 2) = wait * 2" using 1 True by (intro wrap_int64_id) linarith+
    have n: "nat (fails - i) = Suc (nat (fails - (i + 1)))" using True by linarith
    have "min (backoff_loop ceiling fails (i + 1) (wait * 2)) ceiling = min (wait * 2 * 2 ^ nat (fails - (i + 1))) ceiling"
      using 1(1) [OF True] 1(2-) True unfolding w by simp
    then show ?thesis using True w unfolding n by (subst backoff_loop.simps) simp
  next
    case False
    then consider "fails \<le> i" | "ceiling \<le> wait" by linarith
    then show ?thesis
    proof cases
      case 1
      then show ?thesis by (subst backoff_loop.simps) simp
    next
      case 2
      have "wait * 1 \<le> wait * 2 ^ nat (fails - i)" using \<open>0 < wait\<close> by (intro mult_left_mono) simp_all
      with 2 show ?thesis by (subst backoff_loop.simps) simp
    qed
  qed
qed

lemma backoff_value:
  assumes "New url_parse k = Inr c" and "1 \<le> n"
  shows "backoff c n = min (backoffFloor c * 2 ^ nat (n - 1)) (backoffCeiling c)" and "backoffFloor c \<le> backoff c n"
proof -
  note b = Wt_New_bounds [OF assms(1)]
  show e: "backoff c n = min (backoffFloor c * 2 ^ nat (n - 1)) (backoffCeiling c)"
    unfolding backoff_def using b by (intro backoff_loop_power [where M = "300 * second"]) (auto simp: second_def)
  have "backoffFloor c * 1 \<le> backoffFloor c * 2 ^ nat (n - 1)" using b(3) by (intro mult_left_mono) simp_all
  then show "backoffFloor c \<le> backoff c n" using e b by auto
qed

text \<open>
  C32. The backoff loop ends, never overflows, and computes the doubling backoff: the floor
  times a power of two, capped by the ceiling, for every number of failures.
\<close>

theorem backoff_doubles:
  assumes "New url_parse k = Inr c" and "1 \<le> n"
  shows "backoff c n = min (backoffFloor c * 2 ^ nat (n - 1)) (backoffCeiling c) \<and>
    backoffFloor c \<le> backoff c n \<and> backoff c n \<le> 300 * second"
  using backoff_value [OF assms] Wt_New_bounds(5) [OF assms(1)] by auto

end
