(* ===== verification/Wt_Runs.thy ===== *)
theory Wt_Runs
  imports Wt_Client
begin

text \<open>
  Runs of the workload token client: sequences of the sections of workloadtoken/client.go by
  any number of callers, newest first. The invariant ties every cached entry to the landing
  that cached it and every slot's flight and retry time to the events of its key; from it
  follow what a served token guarantees and how exchanges are paced.
\<close>

section \<open>Events\<close>

datatype wevent =
    WEnter string string token_step instant
  | WLand string string "wt_error + entry" instant instant instant token_step
  | WInvalidate string

inductive wrun :: "(string \<Rightarrow> string) \<Rightarrow> Client \<Rightarrow> wevent list \<Rightarrow> Client \<Rightarrow> bool"
  for f :: "string \<Rightarrow> string" and c0 :: Client where
  winit: "wrun f c0 [] c0"
| wenter: "wrun f c0 t c \<Longrightarrow> requestKey aud scope = Inr (key, actions) \<Longrightarrow> token_enter c key now = (c', step) \<Longrightarrow>
    wrun f c0 (WEnter aud key step now # t) c'"
| wland: "wrun f c0 t c \<Longrightarrow> requestKey aud scope = Inr (key, actions) \<Longrightarrow> flight (slot_of c key) \<Longrightarrow>
    token_land c key (exchange f x c aud actions) n1 n2 n3 = (c', step) \<Longrightarrow>
    wrun f c0 (WLand aud key (exchange f x c aud actions) n1 n2 n3 step # t) c'"
| winvalidate: "wrun f c0 t c \<Longrightarrow> requestKey aud scope = Inr (key, actions) \<Longrightarrow>
    wrun f c0 (WInvalidate key # t) (Invalidate c aud scope)"

inductive_cases wrun_ConsE: "wrun f c0 (e # t) c"
inductive_cases wrun_EnterE: "wrun f c0 (WEnter aud key step now # t) c"
inductive_cases wrun_LandE: "wrun f c0 (WLand aud key r n1 n2 n3 step # t) c"

lemma wrun_suffix: "wrun f c0 (t' @ t) c \<Longrightarrow> \<exists>c'. wrun f c0 t c'"
  by (induction t' arbitrary: c) (auto elim: wrun_ConsE)

text \<open>What an event hands to its caller: the audience asked for, the token, the clock reading.\<close>

definition landed :: "Client \<Rightarrow> wt_error + entry \<Rightarrow> instant \<Rightarrow> wt_error + entry" where
  "landed c result now = and_then result (\<lambda>fresh. checkToken c fresh now)"

fun handed :: "Client \<Rightarrow> wevent \<Rightarrow> (string \<times> string \<times> instant) option" where
  "handed c (WEnter aud key (Serve t) now) = Some (aud, t, now)"
| "handed c (WLand aud key result n1 n2 n3 (Serve t)) =
     Some (aud, t, case landed c result n1 of Inr _ \<Rightarrow> n1 | Inl _ \<Rightarrow> n3)"
| "handed c _ = None"

section \<open>The invariant\<close>

text \<open>The configuration never changes, and the check reads nothing else of the client.\<close>

definition same_config :: "Client \<Rightarrow> Client \<Rightarrow> bool" where
  "same_config c d \<longleftrightarrow> slots_update (\<lambda>_. Map.empty) c = slots_update (\<lambda>_. Map.empty) d"

lemma same_config_fields:
  assumes "same_config c d"
  shows "c_issuer c = c_issuer d" "margin c = margin d" "refreshFraction c = refreshFraction d"
    "backoffFloor c = backoffFloor d" "backoffCeiling c = backoffCeiling d"
  using assms by (cases c; cases d; simp add: same_config_def)+

lemma same_config_check:
  assumes "same_config c d"
  shows "checkToken c = checkToken d" and "live_entry c = live_entry d" and "backoff c = backoff d"
    and "landed c = landed d"
proof -
  show k: "checkToken c = checkToken d" unfolding checkToken_def same_config_fields [OF assms] ..
  show "live_entry c = live_entry d" "landed c = landed d" unfolding live_entry_def landed_def k by (rule refl)+
  show "backoff c = backoff d" unfolding backoff_def same_config_fields [OF assms] ..
qed

lemma set_slot_config: "same_config (set_slot c key s) d \<longleftrightarrow> same_config c d"
  by (simp add: same_config_def set_slot_def)

lemma slot_of_set: "slot_of (set_slot c key s) k = (if k = key then s else slot_of c k)"
  by (simp add: slot_of_def set_slot_def)

text \<open>The events of a key that its slot remembers.\<close>

fun flying :: "wevent list \<Rightarrow> string \<Rightarrow> bool" where
  "flying [] key = False"
| "flying (WEnter aud k step now # t) key = (if k = key \<and> step = Fly then True else flying t key)"
| "flying (WLand aud k r n1 n2 n3 step # t) key = (if k = key then False else flying t key)"
| "flying (WInvalidate k # t) key = flying t key"

fun failed :: "Client \<Rightarrow> wevent list \<Rightarrow> string \<Rightarrow> int \<times> instant" where
  "failed c [] key = (0, zero_time)"
| "failed c (WEnter aud k step now # t) key = failed c t key"
| "failed c (WLand aud k r n1 n2 n3 step # t) key =
     (if k \<noteq> key then failed c t key
      else
        (case landed c r n1 of
           Inr _ \<Rightarrow> (0, zero_time)
         | Inl _ \<Rightarrow> (let n = fst (failed c t key) + 1 in (n, n2 + backoff c n))))"
| "failed c (WInvalidate k # t) key = (if k = key then (0, zero_time) else failed c t key)"

definition came_from :: "wevent list \<Rightarrow> string \<Rightarrow> entry \<Rightarrow> bool" where
  "came_from t key e \<longleftrightarrow>
     (\<exists>fresh n1 n2 n3 step. WLand (entry_audience e) key (Inr fresh) n1 n2 n3 step \<in> set t \<and>
        entry_token fresh = entry_token e \<and> entry_audience fresh = entry_audience e \<and> sent fresh = sent e \<and>
        lifetime fresh = lifetime e)"

definition winv :: "Client \<Rightarrow> wevent list \<Rightarrow> Client \<Rightarrow> bool" where
  "winv c0 t c \<longleftrightarrow>
     same_config c c0 \<and>
     (\<forall>key. flight (slot_of c key) = flying t key \<and>
        failures (slot_of c key) = fst (failed c0 t key) \<and> retryAt (slot_of c key) = snd (failed c0 t key) \<and>
        (\<forall>e. slot_entry (slot_of c key) = Some e \<longrightarrow> came_from t key e))"

lemma came_from_step: "came_from t key e \<Longrightarrow> came_from (x # t) key e"
  unfolding came_from_def by (metis list.set_intros(2))

lemma came_from_landing: "entry_audience e = aud \<Longrightarrow> came_from (WLand aud key (Inr e) n1 n2 n3 step # t) key e"
  unfolding came_from_def by (metis list.set_intros(1))

lemma came_from_same:
  "came_from t key e \<Longrightarrow> entry_token e' = entry_token e \<Longrightarrow> entry_audience e' = entry_audience e \<Longrightarrow>
     sent e' = sent e \<Longrightarrow> lifetime e' = lifetime e \<Longrightarrow> came_from t key e'"
  by (simp add: came_from_def)

lemma checked_same:
  assumes "checkToken c e now = Inr e'"
  shows "entry_token e' = entry_token e" "entry_audience e' = entry_audience e" "sent e' = sent e" "lifetime e' = lifetime e"
  using assms by (auto simp: checkToken_def Let_def split: if_splits sum.splits prod.splits)

lemma live_came_from:
  assumes "\<forall>e. eo = Some e \<longrightarrow> came_from t key e" and "live_entry c eo now = Some e'"
  shows "came_from t key e'"
proof -
  from assms(2) obtain e where e: "eo = Some e" "checkToken c e now = Inr e'"
    by (auto simp: live_entry_def split: option.splits sum.splits)
  then show ?thesis using came_from_same [OF _ checked_same [OF e(2)]] assms(1) by blast
qed

lemma winv_slot:
  assumes "winv c0 t c" and "same_config c' c0" and other: "\<And>k. k \<noteq> key \<Longrightarrow> slot_of c' k = slot_of c k"
    and quiet: "\<And>k. k \<noteq> key \<Longrightarrow> flying (x # t) k = flying t k \<and> failed c0 (x # t) k = failed c0 t k"
    and "flight (slot_of c' key) = flying (x # t) key" and "failures (slot_of c' key) = fst (failed c0 (x # t) key)"
    and "retryAt (slot_of c' key) = snd (failed c0 (x # t) key)"
    and "\<And>e. slot_entry (slot_of c' key) = Some e \<Longrightarrow> came_from (x # t) key e"
  shows "winv c0 (x # t) c'"
  unfolding winv_def
proof (intro conjI allI)
  fix k
  have o: "flight (slot_of c k) = flying t k \<and> failures (slot_of c k) = fst (failed c0 t k) \<and>
      retryAt (slot_of c k) = snd (failed c0 t k) \<and> (\<forall>e. slot_entry (slot_of c k) = Some e \<longrightarrow> came_from t k e)"
    using assms(1) by (auto simp: winv_def)
  show "flight (slot_of c' k) = flying (x # t) k" "failures (slot_of c' k) = fst (failed c0 (x # t) k)"
    "retryAt (slot_of c' k) = snd (failed c0 (x # t) k)"
    using o other [of k] quiet [of k] assms(5-7) by (cases "k = key"; simp)+
  show "slot_entry (slot_of c' k) = Some e \<longrightarrow> came_from (x # t) k e" for e
    using o other [of k] assms(8) came_from_step [of t k e x] by (cases "k = key") auto
qed (rule assms(2))

lemma enter_slot:
  assumes "token_enter c key now = (c', step)"
  shows "\<exists>fl. c' = set_slot c key ((slot_of c key)\<lparr>slot_entry := live_entry c (slot_entry (slot_of c key)) now,
      flight := fl\<rparr>) \<and> (fl \<longleftrightarrow> flight (slot_of c key) \<or> step = Fly)"
  using assms by (cases "slot_of c key") (auto simp: token_enter_def Let_def split: option.splits if_splits)

lemma winv_enter:
  assumes i: "winv c0 t c" and e: "token_enter c key now = (c', step)"
  shows "winv c0 (WEnter aud key step now # t) c'"
proof -
  obtain fl where c': "c' = set_slot c key ((slot_of c key)\<lparr>slot_entry := live_entry c (slot_entry (slot_of c key)) now,
      flight := fl\<rparr>)" and fl: "fl \<longleftrightarrow> flight (slot_of c key) \<or> step = Fly" using enter_slot [OF e] by blast
  have "came_from t key x" if "live_entry c (slot_entry (slot_of c key)) now = Some x" for x
    using live_came_from [OF _ that] i by (auto simp: winv_def)
  with i c' fl show ?thesis
    by (intro winv_slot [OF i, where key = key]) (auto simp: slot_of_set set_slot_config winv_def intro: came_from_step)
qed

lemma winv_land:
  assumes i: "winv c0 t c" and e: "token_land c key result n1 n2 n3 = (c', step)"
    and aud: "\<And>fresh. result = Inr fresh \<Longrightarrow> entry_audience fresh = aud"
  shows "winv c0 (WLand aud key result n1 n2 n3 step # t) c'"
proof (cases "landed c0 result n1")
  case (Inr fresh)
  note s = same_config_check [of c c0]
  have sc: "same_config c c0" using i by (simp add: winv_def)
  then have l: "and_then result (\<lambda>fresh. checkToken c fresh n1) = Inr fresh" using Inr s by (simp add: landed_def)
  then obtain raw where r: "result = Inr raw" "checkToken c raw n1 = Inr fresh" by (auto simp: and_then_Inr)
  have "came_from (WLand aud key result n1 n2 n3 step # t) key fresh"
    unfolding came_from_def using checked_same [OF r(2)] aud [OF r(1)] r(1) by (metis list.set_intros(1))
  then show ?thesis using i e l sc Inr
    by (intro winv_slot [OF i, where key = key]) (auto simp: token_land_def Let_def slot_of_set set_slot_config)
next
  case (Inl err)
  have sc: "same_config c c0" using i by (simp add: winv_def)
  note s = same_config_check [OF sc]
  have l: "and_then result (\<lambda>fresh. checkToken c fresh n1) = Inl err" using Inl s by (simp add: landed_def)
  have "came_from t key x" if "live_entry c (slot_entry (slot_of c key)) n3 = Some x" for x
    using live_came_from [OF _ that] i by (auto simp: winv_def)
  then show ?thesis using i e l sc Inl
    by (intro winv_slot [OF i, where key = key])
       (auto simp: token_land_def Let_def slot_of_set set_slot_config s(3) winv_def intro: came_from_step)
qed

lemma Invalidate_slot:
  assumes "requestKey aud scope = Inr (key, actions)"
  shows "slot_of (Invalidate c aud scope) k =
      (if k = key then (slot_of c key)\<lparr>slot_entry := None, retryAt := zero_time, failures := 0, lastErr := None\<rparr> else slot_of c k)"
  using assms by (auto simp: Invalidate_def slot_of_def set_slot_def new_slot_def split: option.splits)

lemma Invalidate_config:
  assumes "requestKey aud scope = Inr (key, actions)"
  shows "same_config (Invalidate c aud scope) d \<longleftrightarrow> same_config c d"
  using assms by (auto simp: Invalidate_def set_slot_config split: option.splits)

lemma winv_invalidate:
  assumes i: "winv c0 t c" and k: "requestKey aud scope = Inr (key, actions)"
  shows "winv c0 (WInvalidate key # t) (Invalidate c aud scope)"
  using i by (intro winv_slot [OF i, where key = key]) (auto simp: Invalidate_slot [OF k] Invalidate_config [OF k] winv_def)

lemma exchange_audience: "exchange f x c aud actions = Inr e \<Longrightarrow> entry_audience e = aud"
  by (auto simp: exchange_def and_then_def split: sum.splits if_splits prod.splits)

lemma wrun_invariant:
  assumes "wrun f c0 t c" and "slots c0 = Map.empty"
  shows "winv c0 t c"
  using assms(1)
proof (induction rule: wrun.induct)
  case winit
  show ?case using assms(2) by (simp add: winv_def same_config_def slot_of_def new_slot_def)
next
  case (wenter t c aud scope key actions now c' step)
  then show ?case by (blast intro: winv_enter)
next
  case (wland t c aud scope key actions x n1 n2 n3 c' step)
  show ?case by (rule winv_land [OF wland.IH wland.hyps(4) exchange_audience])
next
  case (winvalidate t c aud scope key actions)
  then show ?case by (blast intro: winv_invalidate)
qed

section \<open>What a served token guarantees\<close>

lemma live_entry_Some:
  "live_entry c eo now = Some e' \<longleftrightarrow> (\<exists>e. eo = Some e \<and> checkToken c e now = Inr e')"
  by (auto simp: live_entry_def split: option.splits sum.splits)

lemma enter_served:
  assumes "token_enter c key now = (c', Serve tok)"
  obtains e e' where "slot_entry (slot_of c key) = Some e" and "checkToken c e now = Inr e'" and "entry_token e = tok"
proof -
  obtain e' where e': "live_entry c (slot_entry (slot_of c key)) now = Some e'" "entry_token e' = tok"
    using assms by (auto simp: token_enter_def Let_def split: option.splits if_splits)
  then obtain e where e: "slot_entry (slot_of c key) = Some e" "checkToken c e now = Inr e'" by (auto simp: live_entry_Some)
  then show ?thesis using that e'(2) checked_same(1) [OF e(2)] by simp
qed

lemma land_served:
  assumes "token_land c key r n1 n2 n3 = (c', Serve tok)"
  obtains raw e' where "r = Inr raw" and "checkToken c raw n1 = Inr e'" and "landed c r n1 = Inr e'" and "entry_token raw = tok"
  | err e e' where "landed c r n1 = Inl err" and "slot_entry (slot_of c key) = Some e" and "checkToken c e n3 = Inr e'"
      and "entry_token e = tok"
proof (cases "landed c r n1")
  case (Inr e')
  then obtain raw where r: "r = Inr raw" "checkToken c raw n1 = Inr e'" by (auto simp: landed_def and_then_Inr)
  have "tok = entry_token e'" using assms Inr by (simp add: token_land_def landed_def Let_def)
  then show ?thesis using that(1) [OF r Inr] checked_same(1) [OF r(2)] by simp
next
  case (Inl err)
  then obtain e' where e': "live_entry c (slot_entry (slot_of c key)) n3 = Some e'" "entry_token e' = tok"
    using assms by (auto simp: token_land_def landed_def Let_def split: option.splits)
  then obtain e where e: "slot_entry (slot_of c key) = Some e" "checkToken c e n3 = Inr e'" by (auto simp: live_entry_Some)
  then show ?thesis using that(2) [OF Inl e] e'(2) checked_same(1) [OF e(2)] by simp
qed

lemma wrun_land_key:
  "wrun f c0 t c \<Longrightarrow> WLand aud key r n1 n2 n3 step \<in> set t \<Longrightarrow> \<exists>scope actions. requestKey aud scope = Inr (key, actions)"
  by (induction rule: wrun.induct) auto

lemma slot_entry_audience:
  assumes "wrun f c0 t c" and "slots c0 = Map.empty" and "slot_entry (slot_of c key) = Some e"
    and "requestKey aud scope = Inr (key, actions)"
  shows "entry_audience e = aud" and "came_from t key e"
proof -
  show f: "came_from t key e" using wrun_invariant [OF assms(1,2)] assms(3) by (auto simp: winv_def)
  from f obtain fresh n1 n2 n3 step where "WLand (entry_audience e) key (Inr fresh) n1 n2 n3 step \<in> set t"
    unfolding came_from_def by blast
  from wrun_land_key [OF assms(1) this] obtain scope' actions' where "requestKey (entry_audience e) scope' = Inr (key, actions')"
    by blast
  from key_audience(1) [OF this] key_audience(1) [OF assms(4)] show "entry_audience e = aud" by simp
qed

lemma enter_checked:
  assumes "wrun f c0 (WEnter aud key (Serve tok) now # t) c" and "slots c0 = Map.empty"
  shows "\<exists>e e'. checkToken c0 e now = Inr e' \<and> entry_token e = tok \<and> entry_audience e = aud \<and> came_from t key e"
proof -
  from assms(1) obtain c1 scope actions where r: "wrun f c0 t c1" and k: "requestKey aud scope = Inr (key, actions)"
    and s: "token_enter c1 key now = (c, Serve tok)" by (rule wrun_EnterE) blast
  have sc: "same_config c1 c0" using wrun_invariant [OF r assms(2)] by (simp add: winv_def)
  from s obtain e e' where e: "slot_entry (slot_of c1 key) = Some e" "checkToken c1 e now = Inr e'" "entry_token e = tok"
    by (rule enter_served)
  show ?thesis using e slot_entry_audience [OF r assms(2) e(1) k] unfolding same_config_check(1) [OF sc] by blast
qed

lemma land_checked:
  assumes "wrun f c0 (WLand aud key r n1 n2 n3 (Serve tok) # t) c" and "slots c0 = Map.empty"
    and now: "now = (case landed c0 r n1 of Inr _ \<Rightarrow> n1 | Inl _ \<Rightarrow> n3)"
  shows "\<exists>e e'. checkToken c0 e now = Inr e' \<and> entry_token e = tok \<and> entry_audience e = aud \<and>
    (r = Inr e \<or> came_from t key e)"
proof -
  from assms(1) obtain c1 scope actions x where w: "wrun f c0 t c1" and k: "requestKey aud scope = Inr (key, actions)"
    and r: "r = exchange f x c1 aud actions" and s: "token_land c1 key r n1 n2 n3 = (c, Serve tok)"
    by (rule wrun_LandE) blast
  have sc: "same_config c1 c0" using wrun_invariant [OF w assms(2)] by (simp add: winv_def)
  note c = same_config_check(1,4) [OF sc]
  from s show ?thesis
  proof (cases rule: land_served)
    case (1 raw e')
    with r have "entry_audience raw = aud" using exchange_audience by metis
    with 1 show ?thesis unfolding c now by auto
  next
    case (2 err e e')
    with slot_entry_audience [OF w assms(2) 2(2) k] show ?thesis unfolding c now by auto
  qed
qed

text \<open>
  C24. No caller ever gets a token it should not send. Whatever the interleaving, a token handed
  to a caller was obtained by an exchange for exactly the audience the caller asked for; it has
  the shape of a workload token and the claims of the configured issuer and that audience; and
  at the clock reading of the call it is past its \<open>nbf\<close> and at least the safety margin
  before its \<open>exp\<close> and before the end of the lifetime counted from before the request.
\<close>

theorem handed_token_usable:
  assumes "New url_parse k = Inr c0" and "wrun f c0 (ev # t) c" and "handed c0 ev = Some (aud, tok, now)"
  shows "\<exists>key fresh n1 n2 n3 step nbf exp.
    WLand aud key (Inr fresh) n1 n2 n3 step \<in> set (ev # t) \<and> entry_token fresh = tok \<and>
    workloadTokenShape tok \<and> tokenClaims tok (c_issuer c0) aud = Inr (nbf, exp) \<and>
    nbf \<le> now \<and> now < exp - margin c0 \<and> now < sent fresh + lifetime fresh - margin c0"
proof -
  have n: "slots c0 = Map.empty" by (rule Wt_New_bounds [OF assms(1)])
  have "\<exists>key e e'. checkToken c0 e now = Inr e' \<and> entry_token e = tok \<and> entry_audience e = aud \<and> came_from (ev # t) key e"
    using assms(2,3) by (cases rule: handed.cases [of "(c0, ev)"])
      (auto dest!: enter_checked [OF _ n] land_checked [OF _ n refl] intro: came_from_step came_from_landing)
  then obtain key e e' where e: "checkToken c0 e now = Inr e'" "entry_token e = tok" "entry_audience e = aud"
    and "came_from (ev # t) key e" by blast
  from this(4) obtain fresh n1 n2 n3 step where f: "WLand aud key (Inr fresh) n1 n2 n3 step \<in> set (ev # t)"
    "entry_token fresh = tok" "sent fresh = sent e" "lifetime fresh = lifetime e" unfolding came_from_def e(2,3) by blast
  from e(1) obtain nbf exp where "workloadTokenShape tok" "tokenClaims tok (c_issuer c0) aud = Inr (nbf, exp)"
    "nbf \<le> now" "now < exp - margin c0" "now < sent e + lifetime e - margin c0"
    unfolding e(2,3) [symmetric] by (rule checked_token)
  with f show ?thesis by metis
qed

section \<open>How exchanges are paced\<close>

lemma enter_fly:
  assumes "token_enter c key now = (c', Fly)"
  shows "\<not> flight (slot_of c key)" and "retryAt (slot_of c key) \<le> now"
  using assms by (auto simp: token_enter_def Let_def split: option.splits if_splits)

fun settles :: "string \<Rightarrow> wevent \<Rightarrow> bool" where
  "settles key (WEnter aud k step now) = False"
| "settles key (WLand aud k r n1 n2 n3 step) = (k = key)"
| "settles key (WInvalidate k) = (k = key)"

fun lands :: "string \<Rightarrow> wevent \<Rightarrow> bool" where
  "lands key (WLand aud k r n1 n2 n3 step) = (k = key)"
| "lands key _ = False"

lemma failed_unsettled: "\<not> list_ex (settles key) t2 \<Longrightarrow> failed c (t2 @ t1) key = failed c t1 key"
proof (induction t2)
  case (Cons x t2)
  then show ?case by (cases x) auto
qed simp

lemma flying_unlanded: "\<not> list_ex (lands key) t2 \<Longrightarrow> flying t1 key \<Longrightarrow> flying (t2 @ t1) key"
proof (induction t2)
  case (Cons x t2)
  then show ?case by (cases x) auto
qed simp

lemma failed_count: "0 \<le> fst (failed c t key)"
proof (induction t)
  case (Cons x t)
  then show ?case by (cases x) (auto simp: Let_def split: sum.splits)
qed simp

lemma fly_state:
  assumes "wrun f c0 (WEnter aud key Fly now # t) c" and "slots c0 = Map.empty"
  shows "\<not> flying t key" and "snd (failed c0 t key) \<le> now"
proof -
  from assms(1) obtain c1 where r: "wrun f c0 t c1" and s: "token_enter c1 key now = (c, Fly)" by (rule wrun_EnterE) blast
  show "\<not> flying t key" "snd (failed c0 t key) \<le> now"
    using wrun_invariant [OF r assms(2)] enter_fly [OF s] by (auto simp: winv_def)
qed

text \<open>
  C27. One exchange at a time, and failures are spaced out. Two callers never exchange for the
  same key at once: between two flights of a key the first has landed. After an exchange whose
  token was refused or never came, the next exchange of the key waits at least the backoff
  floor, and at least the doubled backoff of the number of failures so far, unless a later
  landing or \<open>Invalidate\<close> of the key comes first.
\<close>

theorem exchanges_paced:
  assumes "New url_parse k = Inr c0" and "wrun f c0 (WEnter aud key Fly b # t2 @ ev # t1) c"
  shows "(\<forall>aud' a. ev = WEnter aud' key Fly a \<longrightarrow> list_ex (lands key) t2) \<and>
    (\<forall>aud' r n1 n2 n3 step e. ev = WLand aud' key r n1 n2 n3 step \<longrightarrow> landed c0 r n1 = Inl e \<longrightarrow>
       \<not> list_ex (settles key) t2 \<longrightarrow>
       n2 + min (backoffFloor c0 * 2 ^ nat (fst (failed c0 t1 key))) (backoffCeiling c0) \<le> b \<and> n2 + backoffFloor c0 \<le> b)"
proof (intro conjI [OF _ allI] allI impI)
  have n: "slots c0 = Map.empty" by (rule Wt_New_bounds [OF assms(1)])
  note fly = fly_state [OF assms(2) n]
  show "list_ex (lands key) t2" if "ev = WEnter aud' key Fly a" for aud' a
    using fly(1) flying_unlanded [of key t2 "ev # t1"] that by auto
  show "n2 + min (backoffFloor c0 * 2 ^ nat (fst (failed c0 t1 key))) (backoffCeiling c0) \<le> b \<and> n2 + backoffFloor c0 \<le> b"
    if "ev = WLand aud' key r n1 n2 n3 step" and "landed c0 r n1 = Inl e" and "\<not> list_ex (settles key) t2"
    for aud' r n1 n2 n3 step e
    using fly(2) backoff_value [OF assms(1), of "fst (failed c0 t1 key) + 1"] failed_count [of c0 t1 key] that
    by (auto simp: failed_unsettled Let_def)
qed

end
