(* ===== verification/Wt_Transport.thy ===== *)
theory Wt_Transport
  imports Wt_Client "HOL-Library.AList"
begin

text \<open>
  workloadtoken/transport.go: the HTTP transport that sends a caller's request to one resource
  server with a workload token. A request carries what the transport reads of it; \<open>url.Parse\<close>,
  \<open>strings.ToLower\<close>, the folding of \<open>strings.EqualFold\<close> and the next transport are
  arguments.
\<close>

section \<open>Requests\<close>

type_synonym headers = "(string \<times> string list) list"

text \<open>A context is never nil in a request: \<open>Context\<close> gives the background one.\<close>

record Request =
  Method :: string
  req_URL :: "URL option"
  req_Host :: string
  Header :: headers
  req_Body :: "string option"
  ContentLength :: int
  Close :: bool
  has_Response :: bool

record Response =
  resp_Request :: Request
  resp_Status :: int
  resp_Body :: string

definition sentMethods :: "string set" where
  "sentMethods = {''GET'', ''HEAD'', ''POST'', ''PUT'', ''PATCH'', ''DELETE''}"

definition forwardedHeaders :: "string list" where
  "forwardedHeaders = [''Accept'', ''Content-Type'', ''User-Agent'', ''X-Request-Id'', ''Traceparent'', ''Tracestate'']"

section \<open>Building the transport\<close>

record bearerTransport =
  bt_scheme :: string
  bt_host :: string
  bt_origin :: string
  bt_audience :: string
  bt_scope :: "string list"

datatype build_error = NotConfigured | BadTransport transport_error | BadTarget url_error | BadKey wt_error

definition Transport ::
  "(string \<Rightarrow> URL option) \<Rightarrow> (string \<Rightarrow> string) \<Rightarrow> Client option \<Rightarrow> RoundTripper \<Rightarrow> string \<Rightarrow> string \<Rightarrow> string list \<Rightarrow>
   build_error + bearerTransport" where
  "Transport url_parse lower co nxt target aud scope =
     (case co of
        None \<Rightarrow> Inl NotConfigured
      | Some c \<Rightarrow>
          (case CheckTransport nxt of
             Some e \<Rightarrow> Inl (BadTransport e)
           | None \<Rightarrow>
               (case baseURL url_parse target (allowPlainHTTP c) of
                  Inl e \<Rightarrow> Inl (BadTarget e)
                | Inr u \<Rightarrow>
                    (case requestKey aud scope of
                       Inl e \<Rightarrow> Inl (BadKey e)
                     | Inr _ \<Rightarrow> Inr \<lparr>bt_scheme = Scheme u, bt_host = Host u, bt_origin = origin lower (Scheme u) (Host u),
                                    bt_audience = aud, bt_scope = scope\<rparr>))))"

section \<open>Building the request to send\<close>

text \<open>\<open>header[name] = append(header[name], values...)\<close>.\<close>

fun header_add :: "headers \<Rightarrow> string \<Rightarrow> string list \<Rightarrow> headers" where
  "header_add [] name vs = [(name, vs)]"
| "header_add ((n, ws) # h) name vs = (if n = name then (n, ws @ vs) # h else (n, ws) # header_add h name vs)"

definition forward :: "(string \<Rightarrow> string) \<Rightarrow> string \<Rightarrow> string list \<Rightarrow> headers \<Rightarrow> headers" where
  "forward f key vs h = fold (\<lambda>name h. if f key = f name then header_add h name vs else h) forwardedHeaders h"

definition forwarded :: "(string \<Rightarrow> string) \<Rightarrow> headers \<Rightarrow> headers" where
  "forwarded f hs = fold (\<lambda>(key, vs). forward f key vs) hs []"

definition build ::
  "(string \<Rightarrow> URL option) \<Rightarrow> (string \<Rightarrow> string) \<Rightarrow> (string \<Rightarrow> string) \<Rightarrow> bearerTransport \<Rightarrow> Request \<Rightarrow> Request option" where
  "build url_parse lower f t req =
     (case req_URL req of
        None \<Rightarrow> None
      | Some u \<Rightarrow>
          if has_Response req \<or> Opaque u \<noteq> [] \<or> has_User u then None
          else
            (let meth = (if Method req = [] then ''GET'' else Method req) in
             if meth \<notin> sentMethods then None
             else if (Scheme u \<noteq> [] \<or> Host u \<noteq> []) \<and> origin lower (Scheme u) (Host u) \<noteq> bt_origin t then None
             else if req_Host req \<noteq> [] \<and> origin lower (bt_scheme t) (req_Host req) \<noteq> bt_origin t then None
             else
               (let p = (if EscapedPath u = [] then ''/'' else EscapedPath u) in
                if hd p \<noteq> CHR ''/'' then None
                else
                  (case url_parse (bt_scheme t @ ''://'' @ bt_host t @ p) of
                     None \<Rightarrow> None
                   | Some target \<Rightarrow>
                       Some \<lparr>Method = meth, req_URL = Some (target\<lparr>RawQuery := RawQuery u\<rparr>), req_Host = bt_host t,
                             Header = forwarded f (Header req), req_Body = req_Body req,
                             ContentLength = ContentLength req, Close = Close req, has_Response = False\<rparr>))))"

section \<open>Sending\<close>

text \<open>What \<open>resourceError\<close> can tell of a failure of the next transport.\<close>

record failure =
  is_canceled :: bool
  is_deadline :: bool
  isTimeout :: bool

datatype cause = Canceled | DeadlineExceeded | errResourceTimeout

datatype send_error = ErrRequestRefused "token_error option" | ErrResourceTransport "cause option"

definition resourceError :: "failure \<Rightarrow> send_error" where
  "resourceError e =
     ErrResourceTransport
       (if is_canceled e then Some Canceled else if is_deadline e then Some DeadlineExceeded
        else if isTimeout e then Some errResourceTimeout else None)"

text \<open>
  The outcome of a round trip: the client's new state, the request handed to the next
  transport, whether the transport closed the caller's body, and the result. \<open>call\<close> is the
  client's \<open>Token\<close> at the transport's audience and scope.
\<close>

record outcome =
  out_client :: Client
  out_sent :: "Request option"
  out_closed :: bool
  out_result :: "send_error + Response"

definition RoundTrip ::
  "(string \<Rightarrow> URL option) \<Rightarrow> (string \<Rightarrow> string) \<Rightarrow> (string \<Rightarrow> string) \<Rightarrow>
   (Client \<Rightarrow> string \<Rightarrow> string list \<Rightarrow> Client \<times> (token_error + string)) \<Rightarrow> (Request \<Rightarrow> failure + Response option) \<Rightarrow>
   Client \<Rightarrow> bearerTransport \<Rightarrow> Request option \<Rightarrow> outcome" where
  "RoundTrip url_parse lower f call nxt c t ro =
     (case ro of
        None \<Rightarrow> \<lparr>out_client = c, out_sent = None, out_closed = False, out_result = Inl (ErrRequestRefused None)\<rparr>
      | Some req \<Rightarrow>
          (case build url_parse lower f t req of
             None \<Rightarrow> \<lparr>out_client = c, out_sent = None, out_closed = req_Body req \<noteq> None,
                     out_result = Inl (ErrRequestRefused None)\<rparr>
           | Some out \<Rightarrow>
               (case call c (bt_audience t) (bt_scope t) of
                  (c', Inl e) \<Rightarrow> \<lparr>out_client = c', out_sent = None, out_closed = req_Body req \<noteq> None,
                                 out_result = Inl (ErrRequestRefused (Some e))\<rparr>
                | (c', Inr token) \<Rightarrow>
                    (let sent = out\<lparr>Header := AList.update ''Authorization'' [''Bearer '' @ token] (Header out)\<rparr> in
                     \<lparr>out_client = c', out_sent = Some sent, out_closed = False,
                      out_result =
                        (case nxt sent of
                           Inl e \<Rightarrow> Inl (resourceError e)
                         | Inr None \<Rightarrow> Inl (ErrResourceTransport None)
                         | Inr (Some resp) \<Rightarrow> Inr (resp\<lparr>resp_Request := req\<rparr>))\<rparr>))))"

text \<open>\<open>HTTPClient\<close>: the transport behind a client whose redirect rule refuses every hop.\<close>

record http_client =
  hc_transport :: bearerTransport
  CheckRedirect :: "Request \<Rightarrow> send_error option"

definition HTTPClient ::
  "(string \<Rightarrow> URL option) \<Rightarrow> (string \<Rightarrow> string) \<Rightarrow> Client option \<Rightarrow> RoundTripper \<Rightarrow> string \<Rightarrow> string \<Rightarrow> string list \<Rightarrow>
   build_error + http_client" where
  "HTTPClient url_parse lower co nxt target aud scope =
     and_then (Transport url_parse lower co nxt target aud scope) (\<lambda>t.
     Inr \<lparr>hc_transport = t, CheckRedirect = (\<lambda>_. Some (ErrRequestRefused None))\<rparr>)"

section \<open>The headers sent\<close>

lemma header_add_keys: "fst ` set (header_add h name vs) = insert name (fst ` set h)"
  by (induction h name vs rule: header_add.induct) auto

lemma header_add_distinct: "distinct (map fst h) \<Longrightarrow> distinct (map fst (header_add h name vs))"
proof (induction h name vs rule: header_add.induct)
  case (2 n ws h name vs)
  have "fst ` set (header_add h name vs) = insert name (fst ` set h)" by (rule header_add_keys)
  with 2 show ?case by (auto simp: image_iff)
qed simp

lemma header_add_member:
  "(n, ws) \<in> set (header_add h name vs) \<Longrightarrow> v \<in> set ws \<Longrightarrow> (\<exists>ws'. (n, ws') \<in> set h \<and> v \<in> set ws') \<or> n = name \<and> v \<in> set vs"
  by (induction h name vs rule: header_add.induct) (auto split: if_splits)

lemma set_update_new: "k \<notin> fst ` set h \<Longrightarrow> set (AList.update k v h) = insert (k, v) (set h)"
  by (induction h) auto

text \<open>What every header list built from the caller's headers satisfies.\<close>

definition carried :: "(string \<Rightarrow> string) \<Rightarrow> headers \<Rightarrow> headers \<Rightarrow> bool" where
  "carried f hs h \<longleftrightarrow>
     distinct (map fst h) \<and> fst ` set h \<subseteq> set forwardedHeaders \<and>
     (\<forall>(n, ws) \<in> set h. \<forall>v \<in> set ws. \<exists>(key, vs) \<in> set hs. f key = f n \<and> v \<in> set vs)"

lemma carried_add:
  assumes "carried f hs h" and "name \<in> set forwardedHeaders" and "(key, vs) \<in> set hs" and "f key = f name"
  shows "carried f hs (header_add h name vs)"
  unfolding carried_def
proof (intro conjI)
  show "distinct (map fst (header_add h name vs))" using assms(1) by (simp add: carried_def header_add_distinct)
  show "fst ` set (header_add h name vs) \<subseteq> set forwardedHeaders" using assms(1,2) by (simp add: carried_def header_add_keys)
  show "\<forall>(n, ws) \<in> set (header_add h name vs). \<forall>v \<in> set ws. \<exists>(key, vs) \<in> set hs. f key = f n \<and> v \<in> set vs"
    using assms(1,3,4) unfolding carried_def by (fastforce dest: header_add_member)
qed

lemma carried_forward:
  assumes "(key, vs) \<in> set hs" and "carried f hs h"
  shows "carried f hs (forward f key vs h)"
proof -
  have "carried f hs (fold (\<lambda>name h. if f key = f name then header_add h name vs else h) ns h)"
    if "set ns \<subseteq> set forwardedHeaders" for ns
    using assms(2) that
  proof (induction ns arbitrary: h)
    case (Cons name ns)
    then show ?case using carried_add [OF Cons.prems(1) _ assms(1), of name] by (cases "f key = f name") simp_all
  qed simp
  then show ?thesis by (simp add: forward_def)
qed

lemma forwarded_carried: "carried f hs (forwarded f hs)"
proof -
  have "carried f hs (fold (\<lambda>(key, vs). forward f key vs) xs h)" if "set xs \<subseteq> set hs" and "carried f hs h" for xs h
    using that by (induction xs arbitrary: h) (auto intro: carried_forward)
  moreover have "carried f hs []" by (simp add: carried_def)
  ultimately show ?thesis by (simp add: forwarded_def)
qed

section \<open>What leaves the process\<close>

text \<open>
  What \<open>url.Parse\<close> documents for the text of a URL: a host without escapes and a path from
  the first slash on come back as they were written, with no user information.
\<close>

definition parses_back :: "(string \<Rightarrow> URL option) \<Rightarrow> bool" where
  "parses_back url_parse \<longleftrightarrow>
     (\<forall>raw base p u. url_parse raw = Some base \<longrightarrow> CHR ''%'' \<notin> set (Host base) \<longrightarrow>
        url_parse (Scheme base @ ''://'' @ Host base @ CHR ''/'' # p) = Some u \<longrightarrow>
        Scheme u = Scheme base \<and> Host u = Host base \<and> \<not> has_User u \<and> Opaque u = [])"

lemma build_Some:
  assumes "build url_parse lower f t req = Some out"
  obtains u p target where "req_URL req = Some u" and "Method out \<in> sentMethods" and "\<not> has_Response req"
    and "url_parse (bt_scheme t @ ''://'' @ bt_host t @ CHR ''/'' # p) = Some target"
    and "req_URL out = Some (target\<lparr>RawQuery := RawQuery u\<rparr>)" and "req_Host out = bt_host t"
    and "Header out = forwarded f (Header req)" and "req_Body out = req_Body req"
proof -
  obtain u where u: "req_URL req = Some u" using assms by (auto simp: build_def split: option.splits)
  define q where "q = (if EscapedPath u = [] then ''/'' else EscapedPath u)"
  have q: "q = CHR ''/'' # tl q" if "hd q = CHR ''/''" using that by (cases q) (auto simp: q_def split: if_splits)
  show ?thesis using assms u that [of u "tl q"] q
    by (auto simp: build_def Let_def q_def [symmetric] split: if_splits option.splits)
qed

lemma baseURL_Inr:
  "baseURL url_parse raw plain = Inr u \<Longrightarrow>
     url_parse raw = Some u \<and> (Scheme u = ''https'' \<or> Scheme u = ''http'' \<and> plain)"
  by (auto simp: baseURL_def split: option.splits if_splits)

lemma Transport_Inr:
  assumes "Transport url_parse lower co nxt target aud scope = Inr t"
  obtains c u where "co = Some c" and "url_parse target = Some u"
    and "bt_scheme t = Scheme u" and "bt_host t = Host u" and "bt_origin t = origin lower (Scheme u) (Host u)"
    and "Scheme u = ''https'' \<or> Scheme u = ''http'' \<and> allowPlainHTTP c" and "bt_audience t = aud" and "bt_scope t = scope"
  using assms by (auto simp: Transport_def dest: baseURL_Inr split: option.splits sum.splits)

text \<open>
  C26. A token only ever leaves for the resource server the transport was built for. Whatever
  request the caller makes, what is sent goes to the configured scheme and host (https, unless
  the client allows plain HTTP) without user information, with a method of the fixed list; its
  headers are one \<open>Authorization\<close> with the token the client gave, and headers of the fixed
  list whose values the caller wrote under that name; a caller's own \<open>Authorization\<close>,
  \<open>Cookie\<close> or \<open>Host\<close> never leaves. A request that is not sent is an error, and the
  caller's body is closed. This is for a host without a percent sign, which printing and
  parsing a URL again keeps as it is.
\<close>

theorem transport_sends_only_to_target:
  assumes "parses_back url_parse" and "Transport url_parse lower (Some c0) rt target aud scope = Inr t"
    and "CHR ''%'' \<notin> set (bt_host t)"
  shows "case out_sent (RoundTrip url_parse lower f call nxt c t (Some req)) of
    None \<Rightarrow> (\<exists>e. out_result (RoundTrip url_parse lower f call nxt c t (Some req)) = Inl (ErrRequestRefused e)) \<and>
      (out_closed (RoundTrip url_parse lower f call nxt c t (Some req)) \<longleftrightarrow> req_Body req \<noteq> None)
  | Some out \<Rightarrow>
      (\<exists>u token c'. req_URL out = Some u \<and> Scheme u = bt_scheme t \<and> Host u = bt_host t \<and> \<not> has_User u \<and>
         req_Host out = bt_host t \<and> origin lower (Scheme u) (Host u) = bt_origin t \<and>
         (Scheme u = ''https'' \<or> allowPlainHTTP c0) \<and> Method out \<in> sentMethods \<and> \<not> has_Response req \<and>
         call c aud scope = (c', Inr token) \<and>
         distinct (map fst (Header out)) \<and> map_of (Header out) ''Authorization'' = Some [''Bearer '' @ token] \<and>
         (\<forall>(n, ws) \<in> set (Header out). n \<noteq> ''Authorization'' \<longrightarrow> n \<in> set forwardedHeaders \<and>
            (\<forall>v \<in> set ws. \<exists>(key, vs) \<in> set (Header req). f key = f n \<and> v \<in> set vs)))"
proof (cases "out_sent (RoundTrip url_parse lower f call nxt c t (Some req))")
  case None
  then show ?thesis by (auto simp: RoundTrip_def Let_def split: option.splits prod.splits sum.splits)
next
  case (Some out)
  obtain u0 where u0: "url_parse target = Some u0" "bt_scheme t = Scheme u0" "bt_host t = Host u0"
    "bt_origin t = origin lower (Scheme u0) (Host u0)" "Scheme u0 = ''https'' \<or> allowPlainHTTP c0" "bt_audience t = aud"
    "bt_scope t = scope" using assms(2) by (rule Transport_Inr) auto
  from Some obtain raw c' token where b: "build url_parse lower f t req = Some raw"
    and k: "call c aud scope = (c', Inr token)"
    and out: "out = raw\<lparr>Header := AList.update ''Authorization'' [''Bearer '' @ token] (Header raw)\<rparr>"
    by (auto simp: RoundTrip_def Let_def u0 split: option.splits prod.splits sum.splits)
  from b obtain u :: URL and p and tg :: URL where r: "Method raw \<in> sentMethods" "\<not> has_Response req"
    "url_parse (bt_scheme t @ ''://'' @ bt_host t @ CHR ''/'' # p) = Some tg"
    "req_URL raw = Some (tg\<lparr>RawQuery := RawQuery u\<rparr>)" "req_Host raw = bt_host t" "Header raw = forwarded f (Header req)"
    by (rule build_Some) blast
  have tg: "Scheme tg = bt_scheme t" "Host tg = bt_host t" "\<not> has_User tg"
    using assms(1) [unfolded parses_back_def, rule_format, OF u0(1) assms(3) [unfolded u0(3)] r(3) [unfolded u0(2,3)]]
    unfolding u0(2,3) by blast+
  note h = forwarded_carried [of f "Header req", folded r(6), unfolded carried_def]
  have a: "''Authorization'' \<notin> fst ` set (Header raw)" using h by (auto simp: forwardedHeaders_def)
  have s: "set (Header out) = insert (''Authorization'', [''Bearer '' @ token]) (set (Header raw))"
    using set_update_new [OF a] by (simp add: out)
  have d: "distinct (map fst (Header out))" "map_of (Header out) ''Authorization'' = Some [''Bearer '' @ token]"
    using h by (simp_all add: out distinct_update update_conv)
  have w: "\<forall>(n, ws) \<in> set (Header out). n \<noteq> ''Authorization'' \<longrightarrow> n \<in> set forwardedHeaders \<and>
      (\<forall>v \<in> set ws. \<exists>(key, vs) \<in> set (Header req). f key = f n \<and> v \<in> set vs)"
    using h unfolding s by auto
  show ?thesis unfolding Some option.case
    by (intro exI [of _ "tg\<lparr>RawQuery := RawQuery u\<rparr>"] exI [of _ token] exI [of _ c'] conjI d w)
       (use r(1,2,4,5) tg u0(2-5) k in \<open>simp_all add: out\<close>)
qed

end
