(* ===== verification/Auth_Samples.thy ===== *)
theory Auth_Samples
  imports Auth_Token
begin

text \<open>
  One concrete token of each class, evaluated through splitting, base64, the JSON decoder and
  the claim checks, with a signature oracle that accepts and plain folding of names.
\<close>

definition sample_header :: "string \<Rightarrow> bytes" where
  "sample_header kind = json_marshal (JObj [(''alg'', JStr ''EdDSA''), (''typ'', JStr kind), (''kid'', JStr ''k1'')])"

definition common_claims :: "string \<Rightarrow> (string \<times> json) list" where
  "common_claims ptype =
     [(''iss'', JStr ''https://auth''), (''aud'', JStr ''dev-health-api''), (''sub'', JStr ''prn_1''),
      (''principal_type'', JStr ptype), (''jti'', JStr (replicate 22 CHR ''j'')),
      (''iat'', JNum ''1000''), (''nbf'', JNum ''1000''), (''exp'', JNum ''1300'')]"

definition access_payload :: bytes where
  "access_payload = json_marshal (JObj (common_claims ''human'' @
     [(''sid'', JStr (''ses_'' @ replicate 22 CHR ''s'')), (''scope'', JStr ''api:access'')]))"

definition workload_payload :: bytes where
  "workload_payload = json_marshal (JObj (common_claims ''workload''))"

definition service_payload :: bytes where
  "service_payload = json_marshal (JObj (common_claims ''service_account'' @
     [(''org_id'', JStr ''00000000-0000-0000-0000-000000000001''), (''cid'', JStr ''crd_1'')]))"

lemma access_header: "parseAccessHeader (\<lambda>x. x) (sample_header ''at+jwt'') = Some ''k1''"
  by code_simp

lemma access_claims:
  "parseAccessClaims (\<lambda>x. x) access_payload =
     Some \<lparr>ac_Issuer = ''https://auth'', ac_Audience = ''dev-health-api'', ac_Subject = ''prn_1'',
       ac_SessionID = ''ses_'' @ replicate 22 CHR ''s'', ac_TokenID = replicate 22 CHR ''j'', ac_Scope = ''api:access'',
       ac_OrgID = None, ac_ActorSubject = None, ac_IssuedAt = 1000, ac_NotBefore = 1000, ac_ExpiresAt = 1300\<rparr>"
  by code_simp

lemma workload_header: "parseWorkloadHeader (\<lambda>x. x) (sample_header ''workload+jwt'') = Some ''k1''"
  by code_simp

lemma workload_claims:
  "parseWorkloadClaims (\<lambda>x. x) workload_payload =
     Some \<lparr>wc_Issuer = ''https://auth'', wc_Audience = ''dev-health-api'', wc_Subject = ''prn_1'',
       wc_TokenID = replicate 22 CHR ''j'', wc_IssuedAt = 1000, wc_NotBefore = 1000, wc_ExpiresAt = 1300\<rparr>"
  by code_simp

lemma service_header: "parseServiceAccountHeader (\<lambda>x. x) (sample_header ''sa+jwt'') = Some ''k1''"
  by code_simp

lemma service_claims:
  "parseServiceAccountClaims (\<lambda>x. x) service_payload =
     Some \<lparr>sc_Issuer = ''https://auth'', sc_Audience = ''dev-health-api'', sc_Subject = ''prn_1'',
       sc_OrgID = ''00000000-0000-0000-0000-000000000001'', sc_CredentialID = ''crd_1'',
       sc_TokenID = replicate 22 CHR ''j'', sc_IssuedAt = 1000, sc_NotBefore = 1000, sc_ExpiresAt = 1300\<rparr>"
  by code_simp

definition sample_signature :: bytes where
  "sample_signature = replicate 64 (chr 0)"

definition compact :: "bytes \<Rightarrow> bytes \<Rightarrow> string" where
  "compact hr pr = EncodeToString hr @ ''.'' @ EncodeToString pr @ ''.'' @ EncodeToString sample_signature"

lemma encode_length: "length (encode_quanta ns) \<le> 2 * length ns"
  by (induction ns rule: encode_quanta.induct) auto

lemma compact_parts:
  assumes "length hr + length pr \<le> 1000"
  shows "token_parts (compact hr pr) hr pr sample_signature"
  using encode_length [of "map byte hr"] encode_length [of "map byte pr"] encode_length [of "map byte sample_signature"] assms
  by (simp add: token_parts_def compact_def EncodeToString_def sample_signature_def)

lemma sample_lengths:
  "length (sample_header ''at+jwt'') + length access_payload \<le> 1000"
  "length (sample_header ''workload+jwt'') + length workload_payload \<le> 1000"
  "length (sample_header ''sa+jwt'') + length service_payload \<le> 1000"
  by code_simp+

definition sample_config :: VerifierConfig where
  "sample_config = \<lparr>cfg_Issuer = ''https://auth'', cfg_Audience = ''dev-health-api'',
     cfg_Keys = Some (Keys_by_PublicKey (StaticKeys_PublicKey [''k1'' \<mapsto> replicate 32 (chr 1)])),
     cfg_DeniedKids = [''k0''], cfg_Leeway = 10 * second\<rparr>"

definition sample_verifier :: Verifier where
  "sample_verifier = \<lparr>v_issuer = ''https://auth'', v_audience = ''dev-health-api'',
     v_keys = Keys_by_PublicKey (StaticKeys_PublicKey [''k1'' \<mapsto> replicate 32 (chr 1)]),
     v_denied = [''k0''], v_leeway = 10\<rparr>"

lemma sample_issuer: "matches issuerPattern ''https://auth''"
  by code_simp

lemma sample_new:
  "NewVerifier sample_config = Inr sample_verifier" "NewWorkloadVerifier sample_config = Inr sample_verifier"
  "NewServiceAccountVerifier sample_config = Inr sample_verifier"
  using sample_issuer
  by (simp_all add: NewVerifier_def NewWorkloadVerifier_def NewServiceAccountVerifier_def sample_config_def
      sample_verifier_def scopeByAudience_def bad_leeway_def second_def MaxLeeway_def MaxWorkloadLeeway_def
      MaxServiceAccountLeeway_def workloadAudiences_def serviceAccountVerifierAudiences_def)

abbreviation accept_all :: "bytes \<Rightarrow> bytes \<Rightarrow> bytes \<Rightarrow> bool" where
  "accept_all \<equiv> \<lambda>_ _ _. True"

lemma sample_signed: "signed_by accept_all (sample_verifier\<lparr>v_issuer := i\<rparr>) ''k1'' m sample_signature"
  by (simp add: signed_by_def sample_verifier_def lookupKey_def StaticKeys_PublicKey_def PublicKeySize_def
      SignatureSize_def sample_signature_def)

lemma sample_verifier_issuer: "sample_verifier\<lparr>v_issuer := ''https://auth''\<rparr> = sample_verifier"
  by (simp add: sample_verifier_def)

lemmas sample_now = sample_verifier_def unix_seconds_def second_def

lemma access_accepted:
  "\<exists>c. Verify accept_all (\<lambda>x. x) sample_verifier (compact (sample_header ''at+jwt'') access_payload) (1100 * second) = Inr c"
  using access.accepts [OF compact_parts [OF sample_lengths(1)] access_header access_claims
      sample_signed [of "''https://auth''"], of "1100 * second"]
  unfolding sample_verifier_issuer by (simp add: sample_now)

lemma workload_accepted:
  "\<exists>c. Workload_Verify accept_all (\<lambda>x. x) sample_verifier (compact (sample_header ''workload+jwt'') workload_payload)
     (1100 * second) = Inr c"
  using workload.accepts [OF compact_parts [OF sample_lengths(2)] workload_header workload_claims
      sample_signed [of "''https://auth''"], of "1100 * second"]
  unfolding sample_verifier_issuer by (simp add: sample_now)

lemma service_accepted:
  "\<exists>c. ServiceAccount_Verify accept_all (\<lambda>x. x) sample_verifier (compact (sample_header ''sa+jwt'') service_payload)
     (1100 * second) = Inr c"
  using service_account.accepts [OF compact_parts [OF sample_lengths(3)] service_header service_claims
      sample_signed [of "''https://auth''"], of "1100 * second"]
  unfolding sample_verifier_issuer by (simp add: sample_now)

theorem access_token_sound_witness:
  "\<exists>hr pr sig. token_parts (compact (sample_header ''at+jwt'') access_payload) hr pr sig"
  using access_accepted access_token_sound [OF sample_new(1)] by blast

theorem short_tokens_witness:
  "\<exists>(c :: WorkloadClaims) (d :: ServiceAccountClaims).
     unix_seconds (1100 * second) < wc_IssuedAt c + 330 \<and> unix_seconds (1100 * second) < sc_IssuedAt d + 330"
proof -
  obtain c where c: "Workload_Verify accept_all (\<lambda>x. x) sample_verifier
      (compact (sample_header ''workload+jwt'') workload_payload) (1100 * second) = Inr c" using workload_accepted by blast
  obtain d where d: "ServiceAccount_Verify accept_all (\<lambda>x. x) sample_verifier
      (compact (sample_header ''sa+jwt'') service_payload) (1100 * second) = Inr d" using service_accepted by blast
  note s = short_tokens [of sample_config sample_verifier accept_all "\<lambda>x. x"
      "compact (sample_header ''workload+jwt'') workload_payload" "1100 * second" c sample_config sample_verifier
      "compact (sample_header ''sa+jwt'') service_payload" d]
  show ?thesis using s c d sample_new by blast
qed

lemma compact_split:
  assumes "length hr + length pr \<le> 1000"
  shows "splitCompact (compact hr pr) = Some (EncodeToString hr, EncodeToString pr, EncodeToString sample_signature)"
proof -
  have e: "plain_base64 (EncodeToString x)" for x using strict_base64_canonical by blast
  show ?thesis using splitCompact_parts [OF e e e] compact_parts [OF assms] by (simp add: token_parts_def compact_def)
qed

lemma encoded: "DecodeString True (EncodeToString x) = Some x"
  using strict_base64_canonical by blast

lemma other_issuer:
  "Verify accept_all (\<lambda>x. x) (sample_verifier\<lparr>v_issuer := ''https://other''\<rparr>)
     (compact (sample_header ''at+jwt'') access_payload) (1100 * second) = Inl (RefusalError ReasonIssuer)"
  by (simp add: Verify_def compact_split [OF sample_lengths(1)] encoded access_header access_claims sample_verifier_def
      lookupKey_def StaticKeys_PublicKey_def PublicKeySize_def SignatureSize_def sample_signature_def give_def demand_def)

theorem refusal_order_witness:
  "\<exists>hr pr sig kid. token_parts (compact (sample_header ''at+jwt'') access_payload) hr pr sig \<and>
     parseAccessHeader (\<lambda>x. x) hr = Some kid \<and>
     signed_by accept_all (sample_verifier\<lparr>v_issuer := ''https://other''\<rparr>) kid (signing_input hr pr) sig"
  using refusal_order [of accept_all "\<lambda>x. x" "sample_verifier\<lparr>v_issuer := ''https://other''\<rparr>"
      "compact (sample_header ''at+jwt'') access_payload" "1100 * second" ReasonIssuer] other_issuer by simp

end
