(* ===== verification/Wt_Samples.thy ===== *)
theory Wt_Samples
  imports Wt_Runs Wt_Transport Auth_Samples
begin

text \<open>
  A configured workload token client evaluated end to end: a bootstrap credential file, one
  exchange and its answer, the checks of the token in it, a failed exchange, and a request
  sent with the token.
\<close>

section \<open>The client\<close>

text \<open>A parser of the URLs of one host.\<close>

definition host_url :: "string \<Rightarrow> URL" where
  "host_url p = \<lparr>Scheme = ''https'', Opaque = [], has_User = False, Host = ''auth'', Path = p, EscapedPath = p,
     RawQuery = [], ForceQuery = False, Fragment = []\<rparr>"

definition parse_host :: "string \<Rightarrow> URL option" where
  "parse_host raw =
     (if take 12 raw = ''https://auth'' \<and> (drop 12 raw = [] \<or> hd (drop 12 raw) = CHR ''/'')
      then Some (host_url (drop 12 raw)) else None)"

definition client_config :: Config where
  "client_config = \<lparr>ExchangeURL = ''https://auth'', cfg_AllowPlainHTTP = False,
     cfg_Subject = BootstrapCredentialFile ''/run/secret'', cfg_Transport = HTTPTransport False, cfg_Timeout = 0,
     RefreshFraction = Fin 0 0, SafetyMargin = 0, BackoffFloor = 0, BackoffCeiling = 0, cfg_Issuer = ''https://auth''\<rparr>"

definition client :: Client where
  "client = \<lparr>endpoint = ''https://auth/internal/v1/token/exchange'', c_issuer = ''https://auth'', allowPlainHTTP = False,
     c_subject = BootstrapCredentialFile ''/run/secret'', c_timeout = 5 * second, refreshFraction = Fin 1 (-1),
     margin = 30 * second, backoffFloor = second, backoffCeiling = 30 * second, slots = Map.empty\<rparr>"

lemma client_made: "New parse_host client_config = Inr client"
  using sample_issuer
  by (simp add: New_def client_config_def client_def issuerShape_def BootstrapCredentialFile_def CheckTransport_def
      isNilValue_def endpointFor_def baseURL_def parse_host_def host_url_def Hostname_def splitHostPort_def from_last_colon_def
      ExchangePath_def or_default_def DefaultTimeout_def is_zero64_def DefaultRefreshFraction_def DefaultSafetyMargin_def
      DefaultBackoffFloor_def DefaultBackoffCeiling_def minTimeout_def MaxTimeout_def in_unit64_def MaxSafetyMargin_def
      maxBackoff_def minute_def second_def Let_def)

section \<open>The exchange\<close>

definition credential :: string where
  "credential = ''fcwlb_'' @ replicate 43 CHR ''A''"

definition credential_file :: secret_file where
  "credential_file = \<lparr>opens = True, stat_ok = True, regular = True, perm = 0x100, owner = Some 1000,
     on_read_only_mount = False, content = credential @ [chr 10], reads_well = True\<rparr>"

definition sample_system :: system where
  "sample_system = \<lparr>files = (\<lambda>_. credential_file), ownersReported = True, processUID = 1000\<rparr>"

lemma credential_read: "readSubjectFile sample_system ''/run/secret'' 49 = Inr credential"
  by code_simp

theorem secret_file_guarded_witness:
  "regular (files sample_system ''/run/secret'') \<and> perm (files sample_system ''/run/secret'') AND 0x12 = 0"
  using secret_file_guarded [OF credential_read] by (simp add: Let_def)

definition workload_token :: string where
  "workload_token = compact (sample_header ''workload+jwt'') workload_payload"

lemma encoded_plain: "plain_base64 (EncodeToString x)"
  using strict_base64_canonical by blast

lemma lenient_decodes: "DecodeString True s = Some x \<Longrightarrow> DecodeString False s = Some x"
proof -
  have "decode_quanta True ns = Some x \<Longrightarrow> decode_quanta False ns = Some x" for ns x
    by (induction True ns arbitrary: x rule: decode_quanta.induct) (auto split: if_splits)
  then show "DecodeString True s = Some x \<Longrightarrow> DecodeString False s = Some x"
    by (auto simp: DecodeString_def bind_eq_Some_conv)
qed

lemma parts_split:
  assumes "token_parts tok hr pr sig"
  shows "split_on CHR ''.'' tok = [EncodeToString hr, EncodeToString pr, EncodeToString sig]"
proof -
  have "CHR ''.'' \<notin> set (EncodeToString x)" for x using plain_chars [OF encoded_plain] by auto
  then show ?thesis using assms by (simp add: token_parts_def split_on_append split_on_single)
qed

lemma encoded_inject: "EncodeToString x = EncodeToString y \<longleftrightarrow> x = y"
  using encoded by (metis option.inject)

lemmas workload_parts = compact_parts [OF sample_lengths(2), folded workload_token_def]
lemmas token_split = parts_split [OF workload_parts]

lemma header_object:
  "uniqueObject (sample_header ''workload+jwt'') =
     Some [(''alg'', JStr ''EdDSA''), (''typ'', JStr ''workload+jwt''), (''kid'', JStr ''k1'')]"
  by code_simp

lemma claims_object: "uniqueObject workload_payload = Some (common_claims ''workload'')"
  by code_simp

lemma sample_shapes:
  "matches kidShape ''k1''" "matches subjectShape ''prn_1''" "matches tokenIDShape (replicate 22 CHR ''j'')"
  by code_simp+

lemma encoded_nonempty: "x \<noteq> [] \<Longrightarrow> EncodeToString x \<noteq> []"
  by (cases "map byte x" rule: encode_quanta.cases) (auto simp: EncodeToString_def)

lemma sample_texts_nonempty: "sample_header ''workload+jwt'' \<noteq> []" "workload_payload \<noteq> []" "sample_signature \<noteq> []"
  by (simp_all add: sample_header_def workload_payload_def sample_signature_def)

lemma token_shape: "workloadTokenShape workload_token"
  using sample_texts_nonempty [THEN encoded_nonempty] header_object sample_shapes(1)
  by (simp add: workloadTokenShape_def compactJWS_def token_split encoded encoded_plain alphabet_plain text_member_def
      lenient_decodes [OF encoded] SignatureSize_def sample_signature_def)

lemma sample_dates:
  "date_claim (common_claims ''workload'') ''iat'' = Inr 1000" "date_claim (common_claims ''workload'') ''nbf'' = Inr 1000"
  "date_claim (common_claims ''workload'') ''exp'' = Inr 1300"
  by code_simp+

lemma token_claims: "tokenClaims workload_token ''https://auth'' ''dev-health-api'' = Inr (1000 * second, 1300 * second)"
  using sample_shapes(2,3)
  by (simp add: tokenClaims_def token_split encoded claims_object and_then_Inr give_Inr demand_Inr
      sample_dates)
     (simp add: common_claims_def claimMembers_def text_member_def MaxLifetime_def second_def)

lemma token_length: "length workload_token \<le> 8192"
  using workload_parts unfolding token_parts_def by blast

definition fresh_entry :: entry where
  "fresh_entry = \<lparr>entry_token = workload_token, entry_audience = ''dev-health-api'', sent = 1050 * second,
     lifetime = 300 * second, notBefore = zero_time, refreshAt = zero_time, usableUntil = zero_time\<rparr>"

definition checked_entry :: entry where
  "checked_entry = fresh_entry\<lparr>notBefore := 1000 * second, refreshAt := 1200 * second, usableUntil := 1270 * second\<rparr>"

lemma half_lifetime: "scale64 (300 * second) (Fin 1 (-1)) = 150 * second"
  by code_simp

lemma sample_checked: "checkToken client fresh_entry (1100 * second) = Inr checked_entry"
  using token_shape token_claims token_length half_lifetime
  by (simp add: checkToken_def client_def fresh_entry_def checked_entry_def maxAccessTokenBytes_def Let_def second_def)

theorem client_token_verifies_witness:
  "\<exists>claims. Workload_Verify accept_all (\<lambda>x. x) sample_verifier workload_token (1100 * second) = Inr claims"
proof -
  have "signed_by accept_all sample_verifier kid (signing_input hr pr) sig"
    if "token_parts workload_token hr pr sig" and "parseWorkloadHeader (\<lambda>x. x) hr = Some kid" for hr pr sig kid
  proof -
    have "hr = sample_header ''workload+jwt''" "sig = sample_signature"
      using parts_split [OF that(1)] unfolding token_split by (simp_all add: encoded_inject)
    then show ?thesis using that(2) workload_header sample_signed [of "''https://auth''", unfolded sample_verifier_issuer]
      by (simp only: option.inject)
  qed
  then have "\<exists>claims. Workload_Verify accept_all (\<lambda>x. x) sample_verifier (entry_token fresh_entry) (1100 * second) = Inr claims"
    by (intro client_token_verifies [OF client_made sample_checked])
       (auto simp: sample_verifier_def client_def fresh_entry_def workloadAudiences_def)
  then show ?thesis by (simp add: fresh_entry_def)
qed

section \<open>The answer\<close>

text \<open>A text without quotes, escapes and control characters is read back as it is.\<close>

definition plain_text :: "string \<Rightarrow> bool" where
  "plain_text s = list_all (\<lambda>c. c \<noteq> quote \<and> c \<noteq> backslash \<and> 32 \<le> byte c \<and> byte c < 128) s"

lemma plain_string: "plain_text s \<Longrightarrow> lex_string (quote # s @ quote # r) = Some (s, r)"
proof -
  assume p: "plain_text s"
  then have "str_body (s @ quote # r) = Some (s, r)"
    by (induction s) (auto simp: plain_text_def str_body.simps)
  moreover have "unquote s = s" using p by (induction s) (auto simp: plain_text_def unquote.simps)
  ultimately show ?thesis by (simp add: lex_string_def)
qed

lemma token_plain: "plain_text workload_token"
proof -
  have "plain_text (EncodeToString x)" for x
  proof -
    have "plain_base64 s \<Longrightarrow> plain_text s" for s
      by (induction s) (auto simp: plain_base64_def plain_text_def sextet_def Let_def split: if_splits)
    then show ?thesis using encoded_plain by blast
  qed
  then have "plain_text (EncodeToString x @ ''.'' @ EncodeToString y @ ''.'' @ EncodeToString z)" for x y z
    by (simp add: plain_text_def)
  moreover have "workload_token = EncodeToString (sample_header ''workload+jwt'') @ ''.'' @ EncodeToString workload_payload @ ''.'' @
      EncodeToString sample_signature" using workload_parts by (simp only: token_parts_def)
  ultimately show ?thesis by (elim ssubst)
qed

definition answer_tail :: string where
  "answer_tail = json_marshal (JObj [(''token_type'', JStr ''Bearer''), (''issued_token_type'', JStr TokenTypeJWT),
     (''expires_in'', JNum ''300'')])"

definition answer_members :: members where
  "answer_members = [(''access_token'', JStr workload_token), (''token_type'', JStr ''Bearer''),
     (''issued_token_type'', JStr TokenTypeJWT), (''expires_in'', JNum ''300'')]"

definition sample_answer :: answer where
  "sample_answer = \<lparr>ans_status = 200, content_type = ''application/json'',
     ans_stream = CHR ''{'' # quote # ''access_token'' @ quote # CHR '':'' # quote # workload_token @ quote #
       CHR '','' # tl answer_tail, ends_well = True\<rparr>"

lemma tail_read: "json_members (tl answer_tail) (tl answer_members) []"
proof -
  have "json_prefix answer_tail = Some (JObj (tl answer_members), [])" unfolding answer_members_def list.sel by code_simp
  then have "json_value answer_tail (JObj (tl answer_members)) []" by (simp add: json_prefix_iff)
  then show ?thesis
    by (cases rule: json_value.cases)
       (auto simp: answer_members_def answer_tail_def skip_ws_def is_ws_def lex_scalar_def lex_literal_def
        split: if_splits option.splits)
qed

lemma answer_read: "json_prefix (ans_stream sample_answer) = Some (JObj answer_members, [])"
proof -
  have "json_value (quote # workload_token @ quote # r) (JStr workload_token) r" for r
    using plain_string [OF token_plain, of r] by (intro scalar) (simp add: skip_ws_def is_ws_def lex_scalar_def)
  then have "json_members (quote # ''access_token'' @ quote # CHR '':'' # quote # workload_token @ quote # CHR '','' # tl answer_tail)
      ((''access_token'', JStr workload_token) # tl answer_members) []"
    using plain_string [of "''access_token''"]
    by (intro more_members [OF _ _ _ _ tail_read])
       (auto simp: skip_ws_def is_ws_def plain_text_def)
  then have "json_value (ans_stream sample_answer) (JObj answer_members) []"
    by (intro object) (auto simp: sample_answer_def skip_ws_def is_ws_def answer_members_def)
  then show ?thesis by (simp add: json_prefix_iff)
qed

lemma answer_nesting: "within_nesting max_nesting (JObj answer_members)"
  by (simp add: answer_members_def max_nesting_def)

lemma answer_parsed: "parseAnswer Some ''application/json'' (ans_stream sample_answer) = Inr (workload_token, 300 * second)"
proof -
  have d: "Decode (NewDecoder (ans_stream sample_answer)) = Some (JObj answer_members, NewDecoder [])"
    using answer_read answer_nesting by (simp add: Decode_def NewDecoder_def value_at_def after_value_def)
  have e: "Token (NewDecoder []) = TokEOF" by (intro EOF_Token) (simp add: NewDecoder_def skip_ws_def)
  have m: "text_of answer_members ''access_token'' = Some workload_token" "text_of answer_members ''token_type'' = Some ''Bearer''"
    "text_of answer_members ''issued_token_type'' = Some TokenTypeJWT" "obj_get answer_members ''expires_in'' = Some (JNum ''300'')"
    by (simp_all add: text_of_def obj_get_def answer_members_def)
  have n: "map ascii_lower ''Bearer'' = ''bearer''" "ParseInt10 ''300'' = Some 300" by code_simp+
  show ?thesis unfolding parseAnswer_def d using e m n by (simp add: isJSON_def and_then_Inr MaxLifetime_def second_def)
qed

lemma answer_short: "length (ans_stream sample_answer) \<le> maxAnswerBytes"
proof -
  have "int (length (tl answer_tail)) \<le> 200" by code_simp
  then show ?thesis using token_length by (simp add: sample_answer_def maxAnswerBytes_def)
qed

lemma credential_subject:
  "Subject_read sample_system (BootstrapCredentialFile ''/run/secret'') = Inr (credential, TokenTypeWorkloadBootstrap)"
  by code_simp

text \<open>One environment in which the exchange succeeds and one in which the request fails.\<close>

definition good_env :: exchange_env where
  "good_env = \<lparr>sys = sample_system, request_ok = (\<lambda>_. True), post = (\<lambda>_ _. Inr sample_answer), media_type = Some,
     start = 1050 * second\<rparr>"

definition down_env :: exchange_env where
  "down_env = good_env\<lparr>post := (\<lambda>_ _. Inl True)\<rparr>"

lemma good_exchange: "same_config c client \<Longrightarrow> exchange (\<lambda>x. x) good_env c ''dev-health-api'' [] = Inr fresh_entry"
proof -
  assume "same_config c client"
  then have "c_subject c = BootstrapCredentialFile ''/run/secret''" by (cases c) (simp add: same_config_def client_def)
  moreover have "ans_status sample_answer = 200" "content_type sample_answer = ''application/json''" "ends_well sample_answer"
    by (simp_all add: sample_answer_def)
  ultimately show ?thesis using answer_parsed answer_short credential_subject
    by (simp add: exchange_def good_env_def fresh_entry_def and_then_Inr demand_Inr)
qed

lemma down_exchange: "same_config c client \<Longrightarrow> exchange (\<lambda>x. x) down_env c ''dev-health-api'' [] = Inl (unavailable ''timeout'')"
proof -
  assume "same_config c client"
  then have "c_subject c = BootstrapCredentialFile ''/run/secret''" by (cases c) (simp add: same_config_def client_def)
  then show ?thesis using credential_subject by (simp add: exchange_def down_env_def good_env_def and_then_def demand_def)
qed

section \<open>Runs\<close>

abbreviation sample_slot :: string where "sample_slot \<equiv> ''dev-health-api ''"

lemma sample_key: "requestKey ''dev-health-api'' [] = Inr (sample_slot, [])"
  by code_simp

definition flying_client :: Client where
  "flying_client = set_slot client sample_slot (new_slot\<lparr>flight := True\<rparr>)"

lemma enter_idle:
  assumes "slot_entry (slot_of c key) = None" and "\<not> flight (slot_of c key)" and "retryAt (slot_of c key) \<le> now"
  shows "token_enter c key now = (set_slot c key ((slot_of c key)\<lparr>flight := True\<rparr>), Fly)"
  using assms by (cases "slot_of c key") (simp add: token_enter_def Let_def live_entry_def)

lemma first_flight:
  "wrun (\<lambda>x. x) client [WEnter ''dev-health-api'' sample_slot Fly (1050 * second)] flying_client"
  "same_config flying_client client" "flight (slot_of flying_client sample_slot)"
proof -
  have "slot_of client sample_slot = new_slot" by (simp add: slot_of_def client_def)
  then have "token_enter client sample_slot (1050 * second) = (flying_client, Fly)"
    using enter_idle [of client sample_slot "1050 * second"] by (simp add: flying_client_def new_slot_def zero_time_def second_def)
  from wenter [OF winit sample_key this]
  show "wrun (\<lambda>x. x) client [WEnter ''dev-health-api'' sample_slot Fly (1050 * second)] flying_client" .
  show "same_config flying_client client" by (simp add: flying_client_def set_slot_config) (simp add: same_config_def)
  show "flight (slot_of flying_client sample_slot)" by (simp add: flying_client_def slot_of_set)
qed

text \<open>A first call flies and lands with a token.\<close>

lemma served_run:
  "\<exists>c. wrun (\<lambda>x. x) client
     [WLand ''dev-health-api'' sample_slot (Inr fresh_entry) (1100 * second) 0 0 (Serve workload_token),
      WEnter ''dev-health-api'' sample_slot Fly (1050 * second)] c"
proof -
  have "checkToken flying_client fresh_entry (1100 * second) = Inr checked_entry"
    unfolding same_config_check(1) [OF first_flight(2)] by (rule sample_checked)
  then obtain c2 where "token_land flying_client sample_slot (Inr fresh_entry) (1100 * second) 0 0 = (c2, Serve workload_token)"
    by (simp add: token_land_def and_then_def Let_def checked_entry_def fresh_entry_def)
  then show ?thesis
    using wland [OF first_flight(1) sample_key first_flight(3), of good_env] good_exchange [OF first_flight(2)] by fastforce
qed

text \<open>A failed landing, and the next flight a second later.\<close>

abbreviation timed_out :: wevent where
  "timed_out \<equiv> WLand ''dev-health-api'' sample_slot (Inl (unavailable ''timeout'')) 0 (1100 * second) 0
     (Refuse (Some (unavailable ''timeout'')))"

lemma paced_run:
  "\<exists>c. wrun (\<lambda>x. x) client
     [WEnter ''dev-health-api'' sample_slot Fly (1101 * second), timed_out,
      WEnter ''dev-health-api'' sample_slot Fly (1050 * second)] c"
proof -
  have b: "backoff flying_client 1 = second"
    unfolding same_config_check(3) [OF first_flight(2)] by (simp add: backoff_def backoff_loop.simps client_def second_def)
  define c2 where "c2 = set_slot flying_client sample_slot
    (new_slot\<lparr>failures := 1, lastErr := Some (unavailable ''timeout''), retryAt := 1101 * second\<rparr>)"
  have "slot_of flying_client sample_slot = new_slot\<lparr>flight := True\<rparr>" by (simp add: flying_client_def slot_of_set)
  then have l: "token_land flying_client sample_slot (Inl (unavailable ''timeout'')) 0 (1100 * second) 0 =
      (c2, Refuse (Some (unavailable ''timeout'')))"
    using b by (simp add: token_land_def and_then_def Let_def new_slot_def live_entry_def c2_def)
  have "wrun (\<lambda>x. x) client [timed_out, WEnter ''dev-health-api'' sample_slot Fly (1050 * second)] c2"
    using wland [OF first_flight(1) sample_key first_flight(3), of down_env] l down_exchange [OF first_flight(2)] by fastforce
  then show ?thesis using wenter [OF _ sample_key enter_idle [of c2 sample_slot "1101 * second"]]
    by (fastforce simp: c2_def slot_of_set new_slot_def)
qed

theorem handed_token_usable_witness:
  "tokenClaims workload_token (c_issuer client) ''dev-health-api'' = Inr (1000 * second, 1300 * second) \<and>
   workloadTokenShape workload_token \<and> 1100 * second < 1300 * second - margin client"
proof -
  obtain c where r: "wrun (\<lambda>x. x) client
     [WLand ''dev-health-api'' sample_slot (Inr fresh_entry) (1100 * second) 0 0 (Serve workload_token),
      WEnter ''dev-health-api'' sample_slot Fly (1050 * second)] c" using served_run by blast
  have "handed client (WLand ''dev-health-api'' sample_slot (Inr fresh_entry) (1100 * second) 0 0 (Serve workload_token)) =
      Some (''dev-health-api'', workload_token, 1100 * second)"
    using sample_checked by (simp add: landed_def and_then_def)
  from handed_token_usable [OF client_made r this] show ?thesis using token_claims by (auto simp: client_def)
qed

theorem exchanges_paced_witness: "1100 * second + backoffFloor client \<le> 1101 * second"
proof -
  obtain c where "wrun (\<lambda>x. x) client
     (WEnter ''dev-health-api'' sample_slot Fly (1101 * second) # [] @ timed_out #
      [WEnter ''dev-health-api'' sample_slot Fly (1050 * second)]) c" using paced_run by auto
  from exchanges_paced [OF client_made this] show ?thesis by (auto simp: landed_def and_then_def)
qed

theorem backoff_doubles_witness: "backoff client 4 = 8 * second"
  using backoff_doubles [OF client_made, of 4] by (simp add: client_def second_def)

theorem request_key_exact_witness:
  "fst (projr (requestKey ''api'' [''b'', ''a''])) = fst (projr (requestKey ''api'' [''a'', ''b'', ''a'']))"
proof -
  have "requestKey ''api'' [''b'', ''a''] = Inr (''api a b'', [''a'', ''b''])"
    "requestKey ''api'' [''a'', ''b'', ''a''] = Inr (''api a b'', [''a'', ''b''])" by code_simp+
  with request_key_exact [OF this] show ?thesis by simp
qed

section \<open>A request sent with the token\<close>

definition resource :: bearerTransport where
  "resource = \<lparr>bt_scheme = ''https'', bt_host = ''auth'', bt_origin = ''https://auth:443'', bt_audience = ''dev-health-api'',
     bt_scope = []\<rparr>"

lemma resource_made: "Transport parse_host (\<lambda>x. x) (Some client) (HTTPTransport False) ''https://auth'' ''dev-health-api'' [] = Inr resource"
  using sample_key by (simp add: Transport_def CheckTransport_def isNilValue_def baseURL_def parse_host_def host_url_def Hostname_def
      splitHostPort_def from_last_colon_def origin_def JoinHostPort_def default_port_def resource_def)

lemma parse_host_back: "parses_back parse_host"
  by (auto simp: parses_back_def parse_host_def host_url_def split: if_splits)

definition caller_request :: Request where
  "caller_request = \<lparr>Method = [], req_URL = Some (host_url ''/v1/x''), req_Host = [],
     Header = [(''accept'', [''a'']), (''Authorization'', [''mine'']), (''Accept'', [''b''])], req_Body = None,
     ContentLength = 0, Close = False, has_Response = False\<rparr>"

definition serve_token :: "Client \<Rightarrow> string \<Rightarrow> string list \<Rightarrow> Client \<times> (token_error + string)" where
  "serve_token c aud scope = (c, Inr ''tok'')"

lemma request_sent:
  "map_option Header (out_sent (RoundTrip parse_host (\<lambda>x. x) (map ascii_lower) serve_token (\<lambda>_. Inr None) client resource
     (Some caller_request))) = Some [(''Accept'', [''a'', ''b'']), (''Authorization'', [''Bearer tok''])]"
  by code_simp

theorem transport_sends_only_to_target_witness:
  "\<exists>out u. out_sent (RoundTrip parse_host (\<lambda>x. x) (map ascii_lower) serve_token (\<lambda>_. Inr None) client resource (Some caller_request))
     = Some out \<and> req_URL out = Some u \<and> Host u = ''auth''"
  using transport_sends_only_to_target [OF parse_host_back resource_made, of "map ascii_lower" serve_token "\<lambda>_. Inr None" client
      caller_request] request_sent
  by (auto simp: resource_def split: option.splits)

end
