(* ===== verification/Llm_Errors.thy ===== *)
theory Llm_Errors
  imports Complex_Main Go_Time
begin

text \<open>
  llm/errors.go: the closed set of failure classes, the classifier of what a provider call can
  return, and the delays between attempts. \<open>lower\<close> stands for \<open>strings.ToLower\<close>;
  \<open>strconv.ParseFloat\<close>, \<open>http.ParseTime\<close> with the clock, and the rounding of a
  product of floats are arguments of the reading of Retry-After.
\<close>

section \<open>Classes and errors\<close>

type_synonym Kind = string

datatype ErrorClass =
    ClassGeneric | ClassAuth | ClassModelNotFound | ClassInvalidRequest | ClassRateLimit
  | ClassContextLength | ClassServer | ClassTimeout | ClassTransport | ClassOutput | ClassBatchTimeout

definition retryableClasses :: "ErrorClass set" where
  "retryableClasses = {ClassRateLimit, ClassServer, ClassTimeout, ClassTransport, ClassOutput}"

text \<open>\<open>cause_status\<close> is what \<open>StatusCode\<close> reads of the cause, 0 when it has none.\<close>

record Error =
  Class :: ErrorClass
  Provider :: Kind
  ErrModel :: string
  RetryAfter :: duration
  cause_status :: int

definition NewError :: "ErrorClass \<Rightarrow> Kind \<Rightarrow> string \<Rightarrow> Error" where
  "NewError class provider model =
     \<lparr>Class = class, Provider = provider, ErrModel = model, RetryAfter = 0, cause_status = 0\<rparr>"

definition Retryable :: "Error \<Rightarrow> bool" where
  "Retryable e = (Class e \<in> retryableClasses)"

definition errSeedUnsupported :: "Kind \<Rightarrow> string \<Rightarrow> Error" where
  "errSeedUnsupported kind model = NewError ClassInvalidRequest kind model"

text \<open>
  The error values the classifier tells apart: one of this package, a response that is not a
  2xx (its status, its Retry-After header and its body), a request with no response (and
  whether it timed out), and any other error by its text.
\<close>

datatype failure =
    Typed Error
  | StatusError int "string option" bytes
  | TransportError bool
  | Other string

section \<open>Retry-After\<close>

datatype float64 = NaN | PosInf | NegInf | Finite rat

definition maxRetryAfterSecs :: rat where
  "maxRetryAfterSecs = 60"

text \<open>\<open>max(0, min(seconds, 60))\<close>: the built-in functions give NaN when an operand is NaN.\<close>

definition clamp :: "float64 \<Rightarrow> float64" where
  "clamp x =
     (case x of NaN \<Rightarrow> NaN | PosInf \<Rightarrow> Finite maxRetryAfterSecs | NegInf \<Rightarrow> Finite 0
      | Finite q \<Rightarrow> Finite (max 0 (min q maxRetryAfterSecs)))"

text \<open>
  How the platform reads numbers and dates (the seconds until a date are finite), rounds a
  product, and converts NaN to an integer.
\<close>

record floats =
  ParseFloat :: "string \<Rightarrow> float64 option"
  until_date :: "string \<Rightarrow> rat option"
  round64 :: "rat \<Rightarrow> rat"
  nan_int :: int

definition to_duration :: "floats \<Rightarrow> float64 \<Rightarrow> duration" where
  "to_duration fl x =
     (case x of Finite q \<Rightarrow> \<lfloor>round64 fl (q * 1000000000)\<rfloor> | _ \<Rightarrow> nan_int fl)"

definition retryAfterFromHeader :: "floats \<Rightarrow> string option \<Rightarrow> duration" where
  "retryAfterFromHeader fl header =
     (case header of
        None \<Rightarrow> 0
      | Some raw \<Rightarrow>
          if raw = [] then 0
          else
            (case ParseFloat fl raw of
               Some seconds \<Rightarrow> to_duration fl (clamp seconds)
             | None \<Rightarrow>
                 (case until_date fl raw of
                    None \<Rightarrow> 0
                  | Some seconds \<Rightarrow> to_duration fl (clamp (Finite seconds)))))"

section \<open>The classifier\<close>

fun contains :: "string \<Rightarrow> string \<Rightarrow> bool" where
  "contains [] needle = (needle = [])"
| "contains (c # s) needle = (has_prefix needle (c # s) \<or> contains s needle)"

definition containsAny :: "string \<Rightarrow> string list \<Rightarrow> bool" where
  "containsAny haystack needles = list_ex (contains haystack) needles"

definition quota_words :: "string list" where
  "quota_words = [''insufficient_quota'', ''current quota'']"

definition model_words :: "string list" where
  "model_words = [''model_not_found'', ''model not found'', ''model does not exist'']"

definition auth_words :: "string list" where
  "auth_words =
     [''401'', ''invalid_api_key'', ''authentication'', ''unauthorized'', ''missing api key'',
      ''api key missing'', ''api_key is required'']"

definition rate_words :: "string list" where
  "rate_words = [''429'', ''rate_limit'', ''rate limit'', ''too many requests'']"

definition context_words :: "string list" where
  "context_words =
     [''context_length_exceeded'', ''maximum context length'', ''too many tokens'', ''input too long'',
      ''reduce your prompt'', ''prompt is too long'']"

definition request_words :: "string list" where
  "request_words =
     [''unsupported parameter'', ''unsupported value'', ''invalid parameter'', ''invalid_request_error'',
      ''invalid request'']"

definition timeout_words :: "string list" where
  "timeout_words = [''timeout'', ''timed out'']"

definition transport_words :: "string list" where
  "transport_words =
     [''connection error'', ''connection refused'', ''network is unreachable'', ''name or service not known'',
      ''dns error'', ''tls error'']"

definition server_words :: "string list" where
  "server_words = [''500'', ''502'', ''503'', ''504'', ''server error'', ''internal error'']"

definition class_of :: "string \<Rightarrow> int \<Rightarrow> ErrorClass" where
  "class_of msgLower statusCode =
     (if containsAny msgLower quota_words then ClassAuth
      else if containsAny msgLower model_words then ClassModelNotFound
      else if statusCode = 402 \<or> statusCode = 403 then ClassAuth
      else if statusCode = 404 then ClassModelNotFound
      else if statusCode = 408 then ClassTimeout
      else if statusCode = 413 then ClassInvalidRequest
      else if containsAny msgLower auth_words then ClassAuth
      else if statusCode = 429 \<or> containsAny msgLower rate_words then ClassRateLimit
      else if containsAny msgLower context_words then ClassContextLength
      else if statusCode = 400 \<or> statusCode = 422 \<or> containsAny msgLower request_words then ClassInvalidRequest
      else if containsAny msgLower timeout_words then ClassTimeout
      else if containsAny msgLower transport_words then ClassTransport
      else if statusCode \<ge> 500 \<or> containsAny msgLower server_words then ClassServer
      else ClassGeneric)"

definition classify :: "(string \<Rightarrow> string) \<Rightarrow> floats \<Rightarrow> failure \<Rightarrow> Kind \<Rightarrow> string \<Rightarrow> Error" where
  "classify lower fl err provider model =
     (case err of
        Typed already \<Rightarrow>
          if Provider already = [] then already\<lparr>Provider := provider, ErrModel := model\<rparr> else already
      | TransportError timedOut \<Rightarrow>
          NewError (if timedOut then ClassTimeout else ClassTransport) provider model
      | StatusError statusCode header body \<Rightarrow>
          (let class = class_of (lower (''http '' @ Itoa statusCode @ '' '' @ body)) statusCode;
               e = (NewError class provider model)\<lparr>cause_status := statusCode\<rparr>
           in if class = ClassRateLimit then e\<lparr>RetryAfter := retryAfterFromHeader fl header\<rparr> else e)
      | Other text \<Rightarrow> NewError (class_of (lower (text @ '' '')) 0) provider model)"

section \<open>Delays\<close>

definition baseRetryDelay :: duration where
  "baseRetryDelay = 500000000"

definition maxRetryDelay :: duration where
  "maxRetryDelay = 30 * second"

definition retryDelay :: "nat \<Rightarrow> duration" where
  "retryDelay attempt =
     (let delay = wrap_int64 (baseRetryDelay * 2 ^ attempt) in
      if delay > maxRetryDelay \<or> delay \<le> 0 then maxRetryDelay else delay)"

definition delayFor :: "Error \<Rightarrow> nat \<Rightarrow> duration" where
  "delayFor err attempt =
     (if Class err = ClassRateLimit \<and> RetryAfter err > 0 then RetryAfter err else retryDelay attempt)"

section \<open>Properties\<close>

text \<open>
  Past attempt 34 the shift no longer fits 64 bits. What is left is a multiple of a power of
  two so large that it is either not positive or above the cap.
\<close>

lemma wrap_int64_dvd: "2 ^ k dvd x \<Longrightarrow> k \<le> 63 \<Longrightarrow> 2 ^ k dvd wrap_int64 x"
proof -
  assume x: "2 ^ k dvd x" and k: "k \<le> 63"
  have "(2 :: int) ^ k dvd 2 ^ 63" "(2 :: int) ^ k dvd 2 ^ 64" using k by (simp_all only: le_imp_power_dvd)
  then show ?thesis unfolding wrap_int64_def using x by (simp add: dvd_mod dvd_diff)
qed

text \<open>
  C40. The delay before a retry is half a second times a power of two, capped at 30 seconds,
  for every attempt: where the 64-bit shift overflows, the cap is what comes out.
\<close>

theorem retry_delay_exact: "retryDelay attempt = min (baseRetryDelay * 2 ^ attempt) maxRetryDelay"
proof (cases "attempt \<le> 34")
  case True
  have "(2 :: int) ^ attempt \<le> 2 ^ 34" using True by (intro power_increasing) auto
  then have "baseRetryDelay * 2 ^ attempt < 2 ^ 63" "0 < baseRetryDelay * 2 ^ attempt"
    by (simp_all add: baseRetryDelay_def)
  then show ?thesis by (simp add: retryDelay_def Let_def wrap_int64_id min_def)
next
  case False
  let ?d = "wrap_int64 (baseRetryDelay * 2 ^ attempt)"
  have "(2 :: int) ^ 35 dvd 2 ^ attempt" using False by (intro le_imp_power_dvd) simp
  then have "(2 :: int) ^ 35 dvd ?d" by (intro wrap_int64_dvd dvd_mult) auto
  then have "?d \<le> 0 \<or> 2 ^ 35 \<le> ?d" using zdvd_imp_le by (metis not_less)
  then have "retryDelay attempt = maxRetryDelay"
    by (auto simp: retryDelay_def Let_def maxRetryDelay_def second_def)
  moreover have "(2 :: int) ^ 35 \<le> 2 ^ attempt" using False by (intro power_increasing) auto
  then have "maxRetryDelay \<le> baseRetryDelay * 2 ^ attempt"
    by (simp add: maxRetryDelay_def baseRetryDelay_def second_def)
  ultimately show ?thesis by simp
qed

lemma retry_delay_range: "0 < retryDelay attempt \<and> retryDelay attempt \<le> maxRetryDelay"
  by (auto simp: retryDelay_def Let_def maxRetryDelay_def second_def)

text \<open>What IEEE 754 gives of a rounded product between 0 and 60 * 10^9, both of which are floats.\<close>

definition rounds :: "floats \<Rightarrow> bool" where
  "rounds fl = (mono (round64 fl) \<and> round64 fl 0 = 0 \<and> round64 fl 60000000000 = 60000000000)"

lemma to_duration_range:
  assumes "rounds fl" and "x \<noteq> NaN"
  shows "to_duration fl (clamp x) \<le> 60 * second"
proof -
  obtain q where q: "clamp x = Finite q" "0 \<le> q" "q \<le> 60"
    using assms(2) by (cases x) (auto simp: clamp_def maxRetryAfterSecs_def)
  then have "round64 fl (q * 1000000000) \<le> round64 fl 60000000000"
    using assms(1) by (intro monoD [of "round64 fl"]) (simp_all add: rounds_def)
  then have "round64 fl (q * 1000000000) \<le> 60000000000" using assms(1) by (simp add: rounds_def)
  then have "\<lfloor>round64 fl (q * 1000000000)\<rfloor> \<le> 60000000000" by (simp add: floor_le_iff)
  then show ?thesis using q(1) by (simp add: to_duration_def second_def)
qed

text \<open>A failure that a call can meet: one of this package's own with no delay, and no Retry-After that reads as NaN.\<close>

fun plain_failure :: "floats \<Rightarrow> failure \<Rightarrow> bool" where
  "plain_failure fl (Typed e) = (RetryAfter e = 0)"
| "plain_failure fl (StatusError status header body) = (\<forall>raw. header = Some raw \<longrightarrow> ParseFloat fl raw \<noteq> Some NaN)"
| "plain_failure fl _ = True"

lemma retryAfter_range:
  "rounds fl \<Longrightarrow> \<forall>raw. header = Some raw \<longrightarrow> ParseFloat fl raw \<noteq> Some NaN \<Longrightarrow> retryAfterFromHeader fl header \<le> 60 * second"
  using to_duration_range by (auto simp: retryAfterFromHeader_def second_def split: option.splits)

lemma delay_range:
  assumes "rounds fl" and "plain_failure fl err"
  shows "0 < delayFor (classify lower fl err provider model) attempt \<and>
    delayFor (classify lower fl err provider model) attempt \<le> 60 * second"
proof -
  have "RetryAfter (classify lower fl err provider model) \<le> 60 * second"
    using assms retryAfter_range [OF assms(1)]
    by (cases err) (auto simp: classify_def NewError_def second_def Let_def)
  then show ?thesis using retry_delay_range [of attempt]
    by (auto simp: delayFor_def maxRetryDelay_def second_def)
qed

end
