(* ===== verification/Go_Marshal.thy ===== *)
theory Go_Marshal
  imports Go_Decoder
begin

text \<open>
  \<open>json.Marshal\<close> and the decoder are inverse: the text of a tree whose strings are
  well-formed UTF-8 and whose numbers are number texts is read back as that tree, and every
  tree the decoder yields is such a tree.
\<close>

section \<open>Well-formed strings\<close>

function (sequential) well_formed :: "bytes \<Rightarrow> bool" where
  "well_formed [] = True"
| "well_formed (c # cs) =
     (if byte c < 128 then well_formed cs
      else if utf8_len (c # cs) = 0 then False
      else well_formed (drop (utf8_len (c # cs)) (c # cs)))"
  by pat_completeness auto
termination by (relation "measure length") auto

declare well_formed.simps [simp del] marshal_chars.simps [simp del]

lemma utf8_len_bound: "0 < utf8_len s \<Longrightarrow> 2 \<le> utf8_len s \<and> utf8_len s \<le> length s"
  by (auto simp: utf8_len_def lead_info_def split: list.splits option.splits if_splits)

lemma utf8_len_head: "0 < utf8_len s \<Longrightarrow> 128 \<le> byte (hd s)"
  by (auto simp: utf8_len_def lead_info_def split: list.splits option.splits if_splits)

lemma utf8_len_tail:
  assumes "0 < utf8_len s" and "0 < i" and "i < utf8_len s"
  shows "128 \<le> byte (s ! i)"
proof -
  from assms(1) obtain c cs n lo hi where s: "s = c # cs" "lead_info (byte c) = Some (n, lo, hi)" "utf8_len s = n"
    "n - 1 \<le> length cs" "lo \<le> byte (cs ! 0)" "list_all (\<lambda>d. 128 \<le> byte d \<and> byte d \<le> 191) (take (n - 2) (tl cs))"
    by (auto simp: utf8_len_def split: list.splits option.splits if_splits)
  have lo: "128 \<le> lo" "2 \<le> n" using s(2) by (auto simp: lead_info_def split: if_splits)
  show ?thesis
  proof (cases "i = 1")
    case True
    then show ?thesis using s lo by simp
  next
    case False
    then obtain j where j: "i = Suc (Suc j)" using assms(2) by (metis One_nat_def gr0_implies_Suc not0_implies_Suc)
    then have "j < length (take (n - 2) (tl cs))" using assms(3) s by simp
    then have "128 \<le> byte (take (n - 2) (tl cs) ! j)" using s(6) by (auto simp: list_all_length)
    moreover have "take (n - 2) (tl cs) ! j = s ! i"
      using j assms(3) s(1,3,4) by (cases cs) auto
    ultimately show ?thesis by simp
  qed
qed

lemma utf8_len_prefix:
  assumes "0 < utf8_len s"
  shows "utf8_len (take (utf8_len s) s @ x) = utf8_len s"
proof -
  from assms obtain c cs n lo hi where s: "s = c # cs" "lead_info (byte c) = Some (n, lo, hi)" "utf8_len s = n"
    "n - 1 \<le> length cs" "lo \<le> byte (cs ! 0)" "byte (cs ! 0) \<le> hi"
    "list_all (\<lambda>d. 128 \<le> byte d \<and> byte d \<le> 191) (take (n - 2) (tl cs))"
    by (auto simp: utf8_len_def split: list.splits option.splits if_splits)
  have n: "2 \<le> n" using s(2) by (auto simp: lead_info_def split: if_splits)
  obtain d ds where cs: "cs = d # ds" using n s(4) by (cases cs) auto
  have t: "take n s @ x = c # d # take (n - 2) ds @ x" using n by (cases n; cases "n - 1") (auto simp: s(1) cs)
  show ?thesis using s n unfolding s(3) t by (auto simp: utf8_len_def cs)
qed

lemma take_high:
  assumes "0 < utf8_len s" and "c \<in> set (take (utf8_len s) s)"
  shows "128 \<le> byte c"
proof -
  from assms(2) obtain i where "i < length (take (utf8_len s) s)" "take (utf8_len s) s ! i = c"
    unfolding in_set_conv_nth by blast
  then have i: "i < utf8_len s" "s ! i = c" "s \<noteq> []" by auto
  show ?thesis
  proof (cases "i = 0")
    case True
    then show ?thesis using utf8_len_head [OF assms(1)] i by (simp add: hd_conv_nth)
  next
    case False
    then show ?thesis using utf8_len_tail [OF assms(1), of i] i by simp
  qed
qed

lemma well_formed_append: "well_formed p \<Longrightarrow> well_formed q \<Longrightarrow> well_formed (p @ q)"
proof (induction p rule: well_formed.induct)
  case (2 c cs)
  show ?case
  proof (cases "byte c < 128")
    case True
    then show ?thesis using 2 by (simp add: well_formed.simps)
  next
    case False
    let ?n = "utf8_len (c # cs)"
    have n: "0 < ?n" "well_formed (drop ?n (c # cs))"
      using 2(3) False by (simp_all add: well_formed.simps split: if_splits)
    have l: "?n \<le> length (c # cs)" using utf8_len_bound n(1) by blast
    have e: "utf8_len (c # cs @ q) = ?n"
      using utf8_len_prefix [OF n(1), of "drop ?n (c # cs) @ q"] by (simp flip: append_assoc)
    have "well_formed (drop ?n (c # cs) @ q)" using 2(2) False n 2(4) by simp
    moreover have "drop ?n (c # cs @ q) = drop ?n (c # cs) @ q" using l by (metis append_Cons drop_append diff_is_0_eq drop_0)
    ultimately show ?thesis using False n(1) by (simp add: well_formed.simps e)
  qed
qed simp

section \<open>Strings\<close>

lemma hex_val_digit: "n < 16 \<Longrightarrow> hex_val (hex_digit n) = Some n"
proof -
  assume "n < 16"
  then have "n \<in> set [0..<16]" by simp
  moreover have "list_all (\<lambda>n. hex_val (hex_digit n) = Some n) [0..<16]" by code_simp
  ultimately show ?thesis by (simp only: list_all_iff)
qed

lemma hex_val_chars:
  "hex_val CHR ''0'' = Some 0" "hex_val CHR ''2'' = Some 2" "hex_val CHR ''d'' = Some 13" "hex_val CHR ''f'' = Some 15"
  by code_simp+

lemma u4_ascii:
  "byte c < 128 \<Longrightarrow> u4 CHR ''0'' CHR ''0'' (hex_digit (byte c div 16)) (hex_digit (byte c mod 16)) = Some (byte c)"
  by (simp add: u4_def hex_val_digit hex_val_chars)

lemma str_body_ascii:
  assumes "byte c < 128"
  shows "str_body (marshal_ascii c @ x) = map_option (\<lambda>(b, r). (marshal_ascii c @ b, r)) (str_body x)"
  using assms u4_ascii [OF assms]
  by (auto simp: marshal_ascii_def str_body.simps(2) map_option_case split: option.splits)

lemma str_body_high:
  "\<forall>c \<in> set p. 128 \<le> byte c \<Longrightarrow> str_body (p @ x) = map_option (\<lambda>(b, r). (p @ b, r)) (str_body x)"
proof (induction p)
  case (Cons c p)
  then have "128 \<le> byte c" by simp
  then have "c \<noteq> quote" "c \<noteq> backslash" "\<not> byte c < 32" by auto
  then show ?case using Cons by (simp add: str_body.simps(2) option.map_comp comp_def case_prod_beta)
qed (simp add: option.map_id)

lemma separator_bytes:
  assumes "t \<in> set line_separators"
  obtains n where "n = 8 \<or> n = 9" and "t = map chr [226, 128, 160 + n]" and "byte (last t) - 160 = n"
  using assms that [of 8] that [of 9] by (auto simp: line_separators_def)

lemma u4_separator: "n = 8 \<or> n = 9 \<Longrightarrow> u4 CHR ''2'' CHR ''0'' CHR ''2'' (hex_digit n) = Some (8224 + n)"
  by (auto simp: u4_def hex_val_digit hex_val_chars)

lemma u4_replacement: "u4 CHR ''f'' CHR ''f'' CHR ''f'' CHR ''d'' = Some 65533"
  by (simp add: u4_def hex_val_chars)

lemma str_body_escape:
  "u4 w x y z = Some n \<Longrightarrow> str_body (backslash # CHR ''u'' # w # x # y # z # s) =
     map_option (\<lambda>(b, r). (backslash # CHR ''u'' # w # x # y # z # b, r)) (str_body s)"
  by (simp add: str_body.simps(2) [of backslash])

lemma str_body_marshal: "str_body (marshal_chars s @ quote # r) = Some (marshal_chars s, r)"
proof (induction s rule: marshal_chars.induct)
  case 1
  show ?case by (simp add: marshal_chars.simps str_body.simps)
next
  case (2 c cs)
  let ?n = "utf8_len (c # cs)"
  consider (ascii) "byte c < 128" | (bad) "\<not> byte c < 128" "?n = 0"
    | (sep) "\<not> byte c < 128" "?n \<noteq> 0" "take ?n (c # cs) \<in> set line_separators"
    | (high) "\<not> byte c < 128" "?n \<noteq> 0" "take ?n (c # cs) \<notin> set line_separators" by blast
  then show ?case
  proof cases
    case ascii
    then show ?thesis using 2(1) by (simp add: marshal_chars.simps str_body_ascii)
  next
    case bad
    then show ?thesis using 2(2) [OF bad(1) refl bad(2)]
      by (simp add: marshal_chars.simps str_body_escape [OF u4_replacement])
  next
    case sep
    obtain n where n: "n = 8 \<or> n = 9" "byte (last (take ?n (c # cs))) - 160 = n"
      using separator_bytes [OF sep(3)] by metis
    show ?thesis using 2(3) [OF sep(1) refl sep(2,3)] sep
      by (simp add: marshal_chars.simps Let_def n(2) str_body_escape [OF u4_separator [OF n(1)]] del: take_Suc_Cons)
  next
    case high
    have "\<forall>c \<in> set (take ?n (c # cs)). 128 \<le> byte c" using take_high [of "c # cs"] high(2) by blast
    then show ?thesis using 2(4) [OF high(1) refl high(2,3)] high
      by (simp add: marshal_chars.simps str_body_high Let_def)
  qed
qed

lemma unquote_escape:
  assumes "u4 w x y z = Some n" and "\<not> high_surrogate n" and "\<not> low_surrogate n"
  shows "unquote (backslash # CHR ''u'' # w # x # y # z # s) = encode_rune n @ unquote s"
  using assms by (simp add: unquote.simps(2) [of backslash])

lemma unquote_ascii:
  assumes "byte c < 128"
  shows "unquote (marshal_ascii c @ x) = c # unquote x"
proof -
  have "encode_rune (byte c) = [c]" using assms by (simp add: encode_rune_def)
  then have e: "unquote (backslash # CHR ''u'' # CHR ''0'' # CHR ''0'' # hex_digit (byte c div 16) # hex_digit (byte c mod 16) # x)
      = c # unquote x"
    using unquote_escape [OF u4_ascii [OF assms]] assms by (simp add: high_surrogate_def low_surrogate_def)
  show ?thesis using assms e
    by (auto simp: marshal_ascii_def unquote.simps(2) [of backslash] unquote.simps(2) [of c] unescape_def simp del: unquote.simps)
qed

lemma unquote_high:
  assumes "0 < utf8_len s"
  shows "unquote (take (utf8_len s) s @ x) = take (utf8_len s) s @ unquote x"
proof -
  have n: "utf8_len (take (utf8_len s) s @ x) = utf8_len s" by (rule utf8_len_prefix [OF assms])
  have l: "utf8_len s \<le> length s" using utf8_len_bound [OF assms] by simp
  obtain c cs where c: "s = c # cs" using assms by (cases s) (auto simp: utf8_len_def)
  obtain m where m: "utf8_len s = Suc m" using assms by (cases "utf8_len s") auto
  have h: "128 \<le> byte c" using utf8_len_head [OF assms] c by simp
  have e: "take (utf8_len s) s @ x = c # (take m cs @ x)" by (simp add: c m [unfolded c])
  show ?thesis using n h l m unfolding e
    by (subst unquote.simps(2)) (auto simp: c)
qed

lemma unquote_marshal: "well_formed s \<Longrightarrow> unquote (marshal_chars s) = s"
proof (induction s rule: marshal_chars.induct)
  case 1
  show ?case by (simp add: marshal_chars.simps unquote.simps)
next
  case (2 c cs)
  let ?n = "utf8_len (c # cs)"
  consider (ascii) "byte c < 128"
    | (sep) "\<not> byte c < 128" "?n \<noteq> 0" "take ?n (c # cs) \<in> set line_separators" "well_formed (drop ?n (c # cs))"
    | (high) "\<not> byte c < 128" "?n \<noteq> 0" "take ?n (c # cs) \<notin> set line_separators" "well_formed (drop ?n (c # cs))"
    using 2(5) by (auto simp: well_formed.simps split: if_splits)
  then show ?case
  proof cases
    case ascii
    then show ?thesis using 2(1,5) by (simp add: marshal_chars.simps unquote_ascii well_formed.simps)
  next
    case sep
    obtain n where n: "n = 8 \<or> n = 9" "take ?n (c # cs) = map chr [226, 128, 160 + n]"
      "byte (last (take ?n (c # cs))) - 160 = n" using separator_bytes [OF sep(3)] by metis
    have "encode_rune (8224 + n) = map chr [226, 128, 160 + n]" using n(1) by (auto simp: encode_rune_def)
    then have "encode_rune (8224 + n) @ drop ?n (c # cs) = c # cs" using n(2) append_take_drop_id by metis
    moreover have "unquote (backslash # CHR ''u'' # CHR ''2'' # CHR ''0'' # CHR ''2'' # hex_digit n # x) = encode_rune (8224 + n) @ unquote x" for x
      by (rule unquote_escape [OF u4_separator [OF n(1)]]) (use n(1) in \<open>auto simp: high_surrogate_def low_surrogate_def\<close>)
    ultimately show ?thesis using 2(3) [OF sep(1) refl sep(2,3,4)] sep
      by (simp add: marshal_chars.simps Let_def n(3) del: take_Suc_Cons)
  next
    case high
    then show ?thesis using 2(4) [OF high(1) refl high(2,3,4)] unquote_high [of "c # cs"]
      by (simp add: marshal_chars.simps Let_def)
  qed
qed

section \<open>What the decoder yields is well formed\<close>

lemma well_formed_seq:
  assumes "lead_info a = Some (2, lo, hi)" and "a < 256" and "lo \<le> b" and "b \<le> hi" and "hi \<le> 191"
  shows "well_formed (map chr [a, b])"
  using assms by (auto simp: well_formed.simps utf8_len_def lead_info_def split: if_splits)

lemma well_formed_seq3:
  assumes "lead_info a = Some (3, lo, hi)" and "a < 256" and "lo \<le> b" and "b \<le> hi" and "128 \<le> d" and "d \<le> 191" and "hi \<le> 191"
  shows "well_formed (map chr [a, b, d])"
  using assms by (auto simp: well_formed.simps utf8_len_def lead_info_def split: if_splits)

lemma well_formed_seq4:
  assumes "lead_info a = Some (4, lo, hi)" and "a < 256" and "lo \<le> b" and "b \<le> hi" and "128 \<le> d" and "d \<le> 191"
    and "128 \<le> e" and "e \<le> 191" and "hi \<le> 191"
  shows "well_formed (map chr [a, b, d, e])"
  using assms by (auto simp: well_formed.simps utf8_len_def lead_info_def numeral_eq_Suc split: if_splits)

lemma well_formed_replacement: "well_formed replacement"
  unfolding replacement_def by (rule well_formed_seq3 [of _ 128 191]) (auto simp: lead_info_def)

lemma well_formed_rune:
  assumes "r < 1114112" and "\<not> high_surrogate r" and "\<not> low_surrogate r"
  shows "well_formed (encode_rune r)"
proof -
  have s: "\<not> (55296 \<le> r \<and> r < 57344)" using assms(2,3) by (auto simp: high_surrogate_def low_surrogate_def)
  consider "r < 128" | "128 \<le> r" "r < 2048" | "2048 \<le> r" "r < 65536" | "65536 \<le> r" by linarith
  then show ?thesis
  proof cases
    case 1
    then show ?thesis by (simp add: encode_rune_def well_formed.simps)
  next
    case 2
    have "lead_info (192 + r div 64) = Some (2, 128, 191)" using 2 by (auto simp: lead_info_def)
    then have "well_formed (map chr [192 + r div 64, 128 + r mod 64])" by (rule well_formed_seq) (use 2 in auto)
    then show ?thesis using 2 by (simp add: encode_rune_def)
  next
    case 3
    let ?q = "r div 64"
    let ?a = "r div 4096" and ?b = "?q mod 64"
    have q: "?a = ?q div 64" "32 \<le> ?q" "?q < 1024" "\<not> (864 \<le> ?q \<and> ?q < 896)"
      using 3 s by (simp_all add: div_mult2_eq [symmetric] less_mult_imp_div_less) linarith
    have "?a = 0 \<Longrightarrow> 32 \<le> ?b" using q by simp
    moreover have "?a = 13 \<Longrightarrow> ?b \<le> 31" using q div_mult_mod_eq [of ?q 64] by linarith
    moreover have "?a \<le> 15" using q(1,3) by simp
    ultimately have "\<exists>lo hi. lead_info (224 + ?a) = Some (3, lo, hi) \<and> lo \<le> 128 + ?b \<and> 128 + ?b \<le> hi \<and> hi \<le> 191"
      by (auto simp: lead_info_def)
    then have "well_formed (map chr [224 + ?a, 128 + ?b, 128 + r mod 64])"
      using \<open>?a \<le> 15\<close> by (auto intro!: well_formed_seq3 simp del: list.map)
    then show ?thesis using 3 by (simp add: encode_rune_def)
  next
    case 4
    let ?q = "r div 4096"
    let ?a = "r div 262144" and ?b = "?q mod 64"
    have q: "?a = ?q div 64" "16 \<le> ?q" "?q < 272"
      using 4 assms(1) by (simp_all add: div_mult2_eq [symmetric] less_mult_imp_div_less)
    have "?a = 0 \<Longrightarrow> 16 \<le> ?b" using q by simp
    moreover have "?a = 4 \<Longrightarrow> ?b \<le> 15" using q div_mult_mod_eq [of ?q 64] by linarith
    moreover have "?a \<le> 4" using q(1,3) by simp
    ultimately have "\<exists>lo hi. lead_info (240 + ?a) = Some (4, lo, hi) \<and> lo \<le> 128 + ?b \<and> 128 + ?b \<le> hi \<and> hi \<le> 191"
      by (auto simp: lead_info_def)
    then have "well_formed (map chr [240 + ?a, 128 + ?b, 128 + r div 64 mod 64, 128 + r mod 64])"
      using \<open>?a \<le> 4\<close> by (auto intro!: well_formed_seq4 simp del: list.map)
    then show ?thesis using 4 by (simp add: encode_rune_def)
  qed
qed

lemma hex_val_bound: "hex_val c = Some n \<Longrightarrow> n < 16"
  by (auto simp: hex_val_def digit_val_def is_digit_def less_eq_char_def split: if_splits)

lemma u4_bound: "u4 w x y z = Some n \<Longrightarrow> n < 65536"
  by (auto simp: u4_def split: option.splits dest!: hex_val_bound)

lemma well_formed_take:
  assumes "0 < utf8_len s"
  shows "well_formed (take (utf8_len s) s)"
proof -
  have n: "utf8_len (take (utf8_len s) s) = utf8_len s" using utf8_len_prefix [OF assms, of "[]"] by simp
  have "s \<noteq> []" using assms by (auto simp: utf8_len_def)
  then obtain c cs where c: "take (utf8_len s) s = c # cs" using assms by (cases "take (utf8_len s) s") auto
  have "128 \<le> byte c" using take_high [OF assms, of c] c by simp
  moreover have "drop (utf8_len s) (c # cs) = []" using c by (metis drop_all length_take min.cobounded2)
  ultimately show ?thesis using n assms by (simp add: c well_formed.simps)
qed

lemma well_formed_pair:
  "high_surrogate r \<Longrightarrow> low_surrogate r' \<Longrightarrow> well_formed (encode_rune (65536 + (r - 55296) * 1024 + (r' - 56320)))"
  by (rule well_formed_rune) (auto simp: high_surrogate_def low_surrogate_def)

lemma well_formed_ascii: "byte c < 128 \<Longrightarrow> well_formed s \<Longrightarrow> well_formed (c # s)"
  by (simp add: well_formed.simps)

lemma unescape_ascii: "byte d < 128 \<Longrightarrow> byte (unescape d) < 128"
  by (simp add: unescape_def)

lemma str_body_cases:
  assumes "str_body s = Some (b, r)"
  obtains (stop) "s = quote # r" "b = []"
    | (plain) c cs b' where "s = c # cs" "c \<noteq> quote" "c \<noteq> backslash" "\<not> byte c < 32" "str_body cs = Some (b', r)" "b = c # b'"
    | (esc) d ds b' where "s = backslash # d # ds" "d \<noteq> CHR ''u''" "byte d < 128"
        "str_body ds = Some (b', r)" "b = backslash # d # b'"
    | (uni) w y z v es b' n where "s = backslash # CHR ''u'' # w # y # z # v # es" "u4 w y z v = Some n"
        "str_body es = Some (b', r)" "b = backslash # CHR ''u'' # w # y # z # v # b'"
proof -
  obtain c cs where s: "s = c # cs" using assms by (cases s) (simp_all add: str_body.simps)
  have "str_body (c # cs) = Some (b, r)" using assms s by simp
  then consider "c = quote" "b = []" "cs = r"
    | b' where "c \<noteq> quote" "c \<noteq> backslash" "\<not> byte c < 32" "str_body cs = Some (b', r)" "b = c # b'"
    | d ds b' where "c = backslash" "cs = d # ds" "d \<noteq> CHR ''u''"
        "d \<in> {CHR ''b'', CHR ''f'', CHR ''n'', CHR ''r'', CHR ''t'', backslash, CHR ''/'', quote}"
        "str_body ds = Some (b', r)" "b = c # d # b'"
    | w y z v es b' where "c = backslash" "cs = CHR ''u'' # w # y # z # v # es" "u4 w y z v \<noteq> None"
        "str_body es = Some (b', r)" "b = c # CHR ''u'' # w # y # z # v # b'"
    by (subst (asm) str_body.simps(2)) (auto split: if_splits list.splits)
  then show thesis
  proof cases
    case (3 d ds b')
    have "byte d < 128" using 3(4) by auto
    then show thesis using 3 s esc by blast
  next
    case (4 w y z v es b')
    then obtain n where n: "u4 w y z v = Some n" by auto
    show thesis by (rule uni [OF _ n 4(4)]) (simp_all add: s 4)
  qed (use s stop plain in blast)+
qed

lemma unquote_pair:
  "u4 w x y z = Some n \<Longrightarrow> u4 w' x' y' z' = Some n' \<Longrightarrow> high_surrogate n \<Longrightarrow> low_surrogate n' \<Longrightarrow>
     unquote (backslash # CHR ''u'' # w # x # y # z # backslash # CHR ''u'' # w' # x' # y' # z' # fs) =
       encode_rune (65536 + (n - 55296) * 1024 + (n' - 56320)) @ unquote fs"
  by (simp add: unquote.simps(2) [of backslash])

lemma unquote_lone:
  assumes "u4 w x y z = Some n" and "high_surrogate n \<or> low_surrogate n"
    and "\<nexists>w' x' y' z' n' fs. s = backslash # CHR ''u'' # w' # x' # y' # z' # fs \<and> u4 w' x' y' z' = Some n' \<and>
      high_surrogate n \<and> low_surrogate n'"
  shows "unquote (backslash # CHR ''u'' # w # x # y # z # s) = replacement @ unquote s"
  using assms by (subst unquote.simps(2)) (auto split: list.splits option.splits)

lemma well_formed_unquote: "str_body s = Some (b, r) \<Longrightarrow> well_formed (unquote b)"
proof (induction s arbitrary: b r rule: length_induct)
  case (1 s)
  have IH: "well_formed (unquote b')" if "str_body s' = Some (b', r')" "length s' < length s" for s' b' r'
    using 1(1) that by blast
  show ?case using 1(2)
  proof (cases rule: str_body_cases)
    case stop
    then show ?thesis by (simp add: unquote.simps well_formed.simps)
  next
    case (plain c cs b')
    have w: "well_formed (unquote b')" using IH [OF plain(5)] plain(1) by simp
    consider "byte c < 128" | "\<not> byte c < 128" "utf8_len b = 0" | "\<not> byte c < 128" "0 < utf8_len b" by blast
    then show ?thesis
    proof cases
      case 3
      let ?d = "drop (utf8_len b) b"
      have "str_body (take (utf8_len b) b @ ?d @ quote # r) = Some (b, r)"
        using 1(2) str_body_split [OF 1(2)] by (simp flip: append_assoc)
      then obtain b2 where b2: "str_body (?d @ quote # r) = Some (b2, r)" "take (utf8_len b) b @ b2 = b"
        using str_body_high [of "take (utf8_len b) b"] take_high [OF 3(2)] by auto
      then have "b2 = ?d" by (metis append_take_drop_id same_append_eq)
      then have "well_formed (unquote ?d)"
        using IH [of "?d @ quote # r" ?d r] b2(1) str_body_split [OF 1(2)] 3(2) plain(6) by simp
      moreover have "unquote b = take (utf8_len b) b @ unquote ?d" using unquote_high [OF 3(2), of ?d] by simp
      ultimately show ?thesis using well_formed_take [OF 3(2)] by (simp add: well_formed_append)
    qed (use w plain in \<open>simp_all add: unquote.simps well_formed_ascii well_formed_append well_formed_replacement\<close>)
  next
    case (esc d ds b')
    have "well_formed (unquote b')" using IH [OF esc(4)] esc(1) by simp
    then show ?thesis using esc by (simp add: unquote.simps(2) [of backslash] well_formed_ascii unescape_ascii)
  next
    case (uni w y z v es b' n)
    have wf: "well_formed (unquote b')" using IH [OF uni(3)] uni(1) by simp
    have n: "n < 65536" using u4_bound [OF uni(2)] .
    consider (plain) "\<not> high_surrogate n" "\<not> low_surrogate n"
      | (pair) w' x' y' z' n' fs where "b' = backslash # CHR ''u'' # w' # x' # y' # z' # fs" "u4 w' x' y' z' = Some n'"
          "high_surrogate n" "low_surrogate n'"
      | (lone) "high_surrogate n \<or> low_surrogate n" "\<nexists>w' x' y' z' n' fs. b' = backslash # CHR ''u'' # w' # x' # y' # z' # fs \<and>
          u4 w' x' y' z' = Some n' \<and> high_surrogate n \<and> low_surrogate n'"
      by blast
    then show ?thesis
    proof cases
      case plain
      then show ?thesis using uni(2,4) wf n by (simp add: unquote_escape well_formed_append well_formed_rune)
    next
      case pair
      obtain es' where e: "str_body es' = Some (fs, r)" "length es' < length s"
        using uni(3) by (cases rule: str_body_cases) (use pair(1) uni(1) in auto)
      then show ?thesis using IH [OF e] pair uni(2,4) by (simp add: unquote_pair well_formed_append well_formed_pair)
    next
      case lone
      then show ?thesis using uni(2,4) wf
        by (simp add: unquote_lone [OF uni(2) lone] well_formed_append well_formed_replacement)
    qed
  qed
qed

section \<open>Numbers\<close>

definition number_text :: "bytes \<Rightarrow> bool" where
  "number_text t = (lex_number t = Some (t, []))"

text \<open>What may follow a number without changing it.\<close>

definition num_end :: "bytes \<Rightarrow> bool" where
  "num_end x = (x = [] \<or> \<not> is_digit (hd x) \<and> hd x \<noteq> CHR ''.'' \<and> hd x \<noteq> CHR ''e'' \<and> hd x \<noteq> CHR ''E'')"

lemma digits_again:
  assumes "digits1 s = Some (d, r)" and "y = [] \<or> \<not> is_digit (hd y)"
  shows "digits1 (d @ y) = Some (d, y)"
proof -
  have d: "\<forall>c \<in> set d. is_digit c" "d \<noteq> []"
    using assms(1) by (auto simp: digits1_def Let_def split: if_splits dest: set_takeWhileD)
  have "takeWhile is_digit y = []" "dropWhile is_digit y = y" using assms(2) by (cases y; simp)+
  then show ?thesis using d by (simp add: digits1_def takeWhile_append2 dropWhile_append2)
qed

lemma int_again:
  "int_part s = Some (i, r) \<Longrightarrow> y = [] \<or> \<not> is_digit (hd y) \<Longrightarrow> int_part (i @ y) = Some (i, y)"
  using digits_again [of s i r y]
  by (auto simp: int_part_def digits1_def Let_def split: list.splits if_splits)

lemma frac_again:
  assumes "frac_part s = Some (f, r)" and "y = [] \<or> \<not> is_digit (hd y) \<and> hd y \<noteq> CHR ''.''"
  shows "frac_part (f @ y) = Some (f, y)"
proof -
  consider "f = []" | d cs where "f = CHR ''.'' # d" "digits1 cs = Some (d, r)"
    using assms(1) by (auto simp: frac_part_def split: list.splits if_splits)
  then show ?thesis
  proof cases
    case 1
    then show ?thesis using assms(2) by (cases y) (auto simp: frac_part_def)
  next
    case 2
    have "digits1 (d @ y) = Some (d, y)" using digits_again [OF 2(2)] assms(2) by blast
    then show ?thesis using 2 by (simp add: frac_part_def)
  qed
qed

lemma digits_head: "digits1 s = Some (d, r) \<Longrightarrow> \<exists>c ds. d = c # ds \<and> is_digit c"
  by (cases s) (auto simp: digits1_def Let_def split: if_splits)

lemma exp_again:
  assumes "exp_part s = Some (e, r)" and "num_end y"
  shows "exp_part (e @ y) = Some (e, y)"
proof -
  have y: "y = [] \<or> \<not> is_digit (hd y)" using assms(2) by (auto simp: num_end_def)
  consider "e = []"
    | c d cs where "e = c # d" "c = CHR ''e'' \<or> c = CHR ''E''" "digits1 cs = Some (d, r)"
    | c g d cs where "e = c # g # d" "c = CHR ''e'' \<or> c = CHR ''E''" "g = CHR ''+'' \<or> g = CHR ''-''" "digits1 cs = Some (d, r)"
    using assms(1) by (auto simp: exp_part_def split: list.splits if_splits)
  then show ?thesis
  proof cases
    case 1
    then show ?thesis using assms(2) by (cases y) (auto simp: exp_part_def num_end_def)
  next
    case 2
    obtain z zs where d: "d = z # zs" "is_digit z" using digits_head [OF 2(3)] by blast
    then have "z \<noteq> CHR ''+''" "z \<noteq> CHR ''-''" by (auto simp: is_digit_def)
    then show ?thesis using 2 digits_again [OF 2(3) y] by (simp add: exp_part_def d)
  next
    case 3
    then show ?thesis using digits_again [OF 3(4) y] by (simp add: exp_part_def)
  qed
qed

lemma part_heads:
  "frac_part s = Some (f, r) \<Longrightarrow> f = [] \<or> hd f = CHR ''.''"
  "exp_part s = Some (e, r) \<Longrightarrow> e = [] \<or> hd e = CHR ''e'' \<or> hd e = CHR ''E''"
  by (auto simp: frac_part_def exp_part_def split: list.splits if_splits)

lemma int_head: "int_part s = Some (i, r) \<Longrightarrow> i \<noteq> [] \<and> is_digit (hd i)"
  using digits_head [of s i r] by (auto simp: int_part_def is_digit_def split: list.splits if_splits)

lemma lex_number_again:
  assumes "lex_number s = Some (t, r)" and "num_end x"
  shows "lex_number (t @ x) = Some (t, x)"
proof -
  let ?sg = "takeWhile (\<lambda>c. c = CHR ''-'') (take 1 s)"
  obtain i f e r1 r2 where p: "int_part (drop (length ?sg) s) = Some (i, r1)" "frac_part r1 = Some (f, r2)"
    "exp_part r2 = Some (e, r)" "t = ?sg @ i @ f @ e"
    using assms(1) by (auto simp: lex_number_def Let_def split: option.splits)
  have e: "exp_part (e @ x) = Some (e, x)" by (rule exp_again [OF p(3) assms(2)])
  have he: "e @ x = [] \<or> \<not> is_digit (hd (e @ x)) \<and> hd (e @ x) \<noteq> CHR ''.''"
    using part_heads(2) [OF p(3)] assms(2) by (cases e) (auto simp: num_end_def is_digit_def)
  have f: "frac_part (f @ e @ x) = Some (f, e @ x)" by (rule frac_again [OF p(2) he])
  have hf: "f @ e @ x = [] \<or> \<not> is_digit (hd (f @ e @ x))"
    using part_heads(1) [OF p(2)] he by (cases f) (auto simp: is_digit_def)
  have i: "int_part (i @ f @ e @ x) = Some (i, f @ e @ x)" by (rule int_again [OF p(1) hf])
  have "i \<noteq> []" "hd i \<noteq> CHR ''-''" using int_head [OF p(1)] by (auto simp: is_digit_def)
  then have "takeWhile (\<lambda>c. c = CHR ''-'') (take 1 (t @ x)) = ?sg"
    unfolding p(4) by (cases s; cases i) auto
  then show ?thesis using i f e by (simp add: lex_number_def Let_def p(4))
qed

section \<open>The round trip\<close>

fun json_ok :: "json \<Rightarrow> bool" where
  "json_ok JNull = True"
| "json_ok (JBool b) = True"
| "json_ok (JNum t) = number_text t"
| "json_ok (JStr s) = well_formed s"
| "json_ok (JArr vs) = list_all json_ok vs"
| "json_ok (JObj ms) = list_all (\<lambda>m. well_formed (fst m) \<and> json_ok (snd m)) ms"

lemma num_end_delim [simp]: "num_end (CHR '','' # x)" "num_end (CHR '']'' # x)" "num_end (CHR ''}'' # x)" "num_end []"
  by (simp_all add: num_end_def is_digit_def)

lemma skip_ws_nonspace [simp]: "\<not> is_ws c \<Longrightarrow> skip_ws (c # s) = c # s"
  by (simp add: skip_ws_def)

lemma not_ws [simp]: "\<not> is_ws quote" "\<not> is_ws CHR ''[''" "\<not> is_ws CHR '']''" "\<not> is_ws CHR ''{''" "\<not> is_ws CHR ''}''"
  "\<not> is_ws CHR '',''" "\<not> is_ws CHR '':''" "\<not> is_ws CHR ''t''" "\<not> is_ws CHR ''f''" "\<not> is_ws CHR ''n''"
  by (simp_all add: is_ws_def)

lemma lex_string_marshal: "well_formed s \<Longrightarrow> lex_string (marshal_string s @ r) = Some (s, r)"
  by (simp add: marshal_string_def lex_string_def str_body_marshal unquote_marshal)

lemma number_head: "c \<noteq> CHR ''-'' \<Longrightarrow> \<not> is_digit c \<Longrightarrow> lex_number (c # cs) = None"
proof -
  assume c: "c \<noteq> CHR ''-''" "\<not> is_digit c"
  then have "c \<noteq> CHR ''0''" by (auto simp: is_digit_def)
  with c show ?thesis by (simp add: lex_number_def int_part_def digits1_def)
qed

lemma number_read:
  assumes "number_text t" and "num_end r"
  shows "json_value (t @ r) (JNum t) r"
proof -
  have n: "lex_number (t @ r) = Some (t, r)" using lex_number_again assms by (simp add: number_text_def)
  have "t \<noteq> []" using assms(1) by (auto simp: number_text_def lex_number_def int_part_def)
  then obtain c cs where t: "t = c # cs" by (cases t) auto
  have "c = CHR ''-'' \<or> is_digit c" using number_head [of c cs] assms(1) by (auto simp: number_text_def t)
  then have "\<not> is_ws c" "c \<notin> {quote, CHR ''t'', CHR ''f'', CHR ''n''}" by (auto simp: is_ws_def is_digit_def)
  then have "lex_scalar (skip_ws (t @ r)) = Some (JNum t, r)" using n by (simp add: t lex_scalar_def)
  then show ?thesis by (rule scalar)
qed

lemma elems_read:
  assumes "\<And>v r. v \<in> set (w # vs) \<Longrightarrow> num_end r \<Longrightarrow> json_value (json_marshal v @ r) v r"
  shows "json_elems (join '','' (map json_marshal (w # vs)) @ CHR '']'' # r) (w # vs) r"
  using assms
proof (induction vs arbitrary: w)
  case Nil
  have "json_value (json_marshal w @ CHR '']'' # r) w (CHR '']'' # r)" using Nil by simp
  then show ?case by (auto intro!: last_elem)
next
  case (Cons v vs)
  let ?t = "join '','' (map json_marshal (v # vs)) @ CHR '']'' # r"
  have v: "json_value (json_marshal w @ CHR '','' # ?t) w (CHR '','' # ?t)" using Cons(2) by simp
  have "json_elems ?t (v # vs) r" using Cons(1) [of v] Cons(2) by auto
  then have "json_elems (json_marshal w @ CHR '','' # ?t) (w # v # vs) r" using v by (auto intro: more_elems)
  then show ?case by simp
qed

definition marshal_member :: "string \<times> json \<Rightarrow> bytes" where
  "marshal_member m = marshal_string (fst m) @ '':'' @ json_marshal (snd m)"

lemma skip_ws_string: "skip_ws (marshal_string k @ x) = marshal_string k @ x"
  by (simp add: marshal_string_def)

lemma members_read:
  assumes "\<And>p r. p \<in> set (m # ms) \<Longrightarrow> num_end r \<Longrightarrow> json_value (json_marshal (snd p) @ r) (snd p) r"
    and "\<And>p. p \<in> set (m # ms) \<Longrightarrow> well_formed (fst p)"
  shows "json_members (join '','' (map marshal_member (m # ms)) @ CHR ''}'' # r) (m # ms) r"
  using assms
proof (induction ms arbitrary: m)
  case Nil
  obtain k v where m: "m = (k, v)" by (cases m)
  let ?v = "json_marshal v @ CHR ''}'' # r"
  have v: "json_value ?v v (CHR ''}'' # r)" using Nil(1) [of m] m by simp
  have "lex_string (skip_ws (marshal_string k @ CHR '':'' # ?v)) = Some (k, CHR '':'' # ?v)"
    using Nil(2) [of m] m by (simp add: skip_ws_string lex_string_marshal)
  then have "json_members (marshal_string k @ CHR '':'' # ?v) [(k, v)] r" using v by (auto intro!: last_member)
  then show ?case by (simp add: m marshal_member_def)
next
  case (Cons m2 ms)
  obtain k v where m: "m = (k, v)" by (cases m)
  let ?t = "join '','' (map marshal_member (m2 # ms)) @ CHR ''}'' # r"
  let ?v = "json_marshal v @ CHR '','' # ?t"
  have v: "json_value ?v v (CHR '','' # ?t)" using Cons(2) [of m] m by simp
  have l: "lex_string (skip_ws (marshal_string k @ CHR '':'' # ?v)) = Some (k, CHR '':'' # ?v)"
    using Cons(3) [of m] m by (simp add: skip_ws_string lex_string_marshal)
  have "json_members ?t (m2 # ms) r" by (rule Cons(1)) (use Cons(2,3) in auto)
  then have "json_members (marshal_string k @ CHR '':'' # ?v) ((k, v) # m2 # ms) r"
    using more_members [OF l _ v] by simp
  then show ?case by (simp add: m marshal_member_def [of "(k, v)"])
qed

lemma marshal_read: "json_ok v \<Longrightarrow> num_end r \<Longrightarrow> json_value (json_marshal v @ r) v r"
proof (induction v arbitrary: r rule: json_marshal.induct)
  case 1
  then show ?case by (auto intro!: scalar simp: lex_scalar_def lex_literal_def strip_prefix_iff)
next
  case (2 b)
  then show ?case by (auto intro!: scalar simp: lex_scalar_def lex_literal_def strip_prefix_iff)
next
  case (3 t)
  then show ?case by (simp add: number_read)
next
  case (4 s)
  then show ?case using lex_string_marshal [of s r]
    by (auto intro!: scalar simp: skip_ws_string lex_scalar_def marshal_string_def)
next
  case (5 vs)
  show ?case
  proof (cases vs)
    case Nil
    then show ?thesis by (auto intro!: empty_array)
  next
    case (Cons w ws)
    have "json_elems (join '','' (map json_marshal (w # ws)) @ CHR '']'' # r) (w # ws) r"
      by (rule elems_read) (use 5 Cons in \<open>auto simp: list_all_iff\<close>)
    then show ?thesis using Cons by (auto intro!: array)
  qed
next
  case (6 ms)
  have f: "(\<lambda>m. marshal_string (fst m) @ '':'' @ json_marshal (snd m)) = marshal_member"
    by (rule ext) (simp add: marshal_member_def)
  show ?case
  proof (cases ms)
    case Nil
    then show ?thesis by (auto intro!: empty_object)
  next
    case (Cons w ws)
    have "json_members (join '','' (map marshal_member (w # ws)) @ CHR ''}'' # r) (w # ws) r"
    proof (rule members_read)
      fix p x
      assume "p \<in> set (w # ws)" and "num_end x"
      then show "json_value (json_marshal (snd p) @ x) (snd p) x" using 6(1) [of p x] 6(2) Cons by (auto simp: list_all_iff)
    qed (use 6(2) Cons in \<open>auto simp: list_all_iff\<close>)
    then show ?thesis using Cons unfolding json_marshal.simps f by (auto intro!: object)
  qed
qed

lemma marshal_parses: "json_ok v \<Longrightarrow> json_text (json_marshal v) v"
  using marshal_read [of v "[]"] by (auto simp: json_text_def skip_ws_def)

lemma unmarshal_marshal: "json_ok v \<Longrightarrow> within_nesting max_nesting v \<Longrightarrow> json_unmarshal (json_marshal v) = Some v"
  using marshal_parses [of v] by (simp add: json_unmarshal_def json_parse_iff [symmetric])

lemma lex_scalar_ok: "lex_scalar s = Some (v, r) \<Longrightarrow> json_ok v"
  by (auto simp: lex_scalar_def lex_literal_def lex_string_def number_text_def split: list.splits if_splits
      dest: well_formed_unquote lex_number_again [where x = "[]", simplified])

lemma grammar_ok:
  "json_value s v r \<Longrightarrow> json_ok v"
  "json_elems s vs r \<Longrightarrow> list_all json_ok vs"
  "json_members s ms r \<Longrightarrow> list_all (\<lambda>m. well_formed (fst m) \<and> json_ok (snd m)) ms"
  by (induction rule: json_value_json_elems_json_members.inducts)
    (auto dest: lex_scalar_ok simp: lex_string_def well_formed_unquote split: list.splits if_splits)

end
