(* ===== verification/Llm_Strict.thy ===== *)
theory Llm_Strict
  imports Go_Marshal "HOL-Library.AList"
begin

text \<open>
  llm/strict.go: the strict JSON gate and the call that repairs an answer at most once. A
  provider, the caller's validation and its repair are arguments.
\<close>

section \<open>Compact JSON\<close>

text \<open>
  Decoding into an interface value makes a map of every object: the last of several members
  with one name counts, and \<open>json.Marshal\<close> writes the members in the order of their names.
\<close>

definition map_members :: "(string \<times> json) list \<Rightarrow> (string \<times> json) list" where
  "map_members ms = sort_key fst (foldl (\<lambda>al m. AList.update (fst m) (snd m) al) [] ms)"

fun canon :: "json \<Rightarrow> json" where
  "canon (JArr vs) = JArr (map canon vs)"
| "canon (JObj ms) = JObj (map_members (map (\<lambda>m. (fst m, canon (snd m))) ms))"
| "canon v = v"

definition CompactJSON :: "string \<Rightarrow> string" where
  "CompactJSON text =
     (if trim_space text = [] then []
      else
        (case Decode (NewDecoder text) of
           None \<Rightarrow> []
         | Some (value, decoder) \<Rightarrow>
             (case Token decoder of
                TokEOF \<Rightarrow> json_marshal (canon value)
              | _ \<Rightarrow> [])))"

definition gateJSON :: "string \<Rightarrow> string \<times> string" where
  "gateJSON text =
     (let compact = CompactJSON text in (compact, if compact = [] then text else []))"

section \<open>The call with one repair\<close>

datatype Outcome = OutcomeOK | OutcomeRepaired | OutcomeInvalid

text \<open>What \<open>CompleteStrict\<close> reads of a result.\<close>

record answer =
  Text :: string
  Unparsed :: string
  Refused :: bool

datatype 'e reason = ErrEmptyAnswer | Rejected 'e

definition check :: "(string \<Rightarrow> 'e option) \<Rightarrow> ('a answer_scheme) \<Rightarrow> 'e reason option" where
  "check validate result =
     (if Text result = [] then Some ErrEmptyAnswer else map_option Rejected (validate (Text result)))"

text \<open>
  \<open>complete\<close> is the provider as a function of the number of calls before; the value is the
  final result, the outcome or the provider's error, and every call's request and result.
\<close>

record ('r, 'a, 'x) strict =
  final :: "'a answer_scheme option"
  outcome :: "'x + Outcome"
  calls :: "'a answer_scheme list"
  asked :: "'r list"

definition CompleteStrict ::
  "(nat \<Rightarrow> 'r \<Rightarrow> 'x + 'a answer_scheme) \<Rightarrow> 'r \<Rightarrow> (string \<Rightarrow> 'e option) \<Rightarrow> (string \<Rightarrow> 'e reason \<Rightarrow> 'r) \<Rightarrow> ('r, 'a, 'x) strict" where
  "CompleteStrict complete request validate repair =
     (case complete 0 request of
        Inl err \<Rightarrow> \<lparr>final = None, outcome = Inl err, calls = [], asked = [request]\<rparr>
      | Inr first \<Rightarrow>
          if Refused first
          then \<lparr>final = Some first, outcome = Inr OutcomeInvalid, calls = [first], asked = [request]\<rparr>
          else
            (case check validate first of
               None \<Rightarrow> \<lparr>final = Some first, outcome = Inr OutcomeOK, calls = [first], asked = [request]\<rparr>
             | Some why \<Rightarrow>
                 (let rejected = (if Text first = [] then Unparsed first else Text first);
                      again = repair rejected why
                  in case complete 1 again of
                       Inl err \<Rightarrow> \<lparr>final = Some first, outcome = Inl err, calls = [first], asked = [request, again]\<rparr>
                     | Inr answer2 \<Rightarrow>
                         \<lparr>final = Some answer2,
                          outcome = Inr (if check validate answer2 = None then OutcomeRepaired else OutcomeInvalid),
                          calls = [first, answer2], asked = [request, again]\<rparr>)))"

section \<open>The compact text means what the reply meant\<close>

abbreviation last_wins :: "(string \<times> json) list \<Rightarrow> (string \<times> json) list" where
  "last_wins \<equiv> foldl (\<lambda>al m. AList.update (fst m) (snd m) al) []"

lemma foldl_update_map: "map_of (foldl (\<lambda>al m. AList.update (fst m) (snd m) al) al ms) = map_of al ++ map_of (rev ms)"
  by (induction ms arbitrary: al) (auto simp: update_conv' map_add_def fun_eq_iff split: option.splits)

lemma foldl_update_distinct:
  "distinct (map fst al) \<Longrightarrow> distinct (map fst (foldl (\<lambda>al m. AList.update (fst m) (snd m) al) al ms))"
  by (induction ms arbitrary: al) (auto simp: distinct_update)

lemma map_members_sorted: "sorted (map fst (map_members ms))"
  by (simp add: map_members_def)

lemma map_members_distinct: "distinct (map fst (map_members ms))"
  unfolding map_members_def using foldl_update_distinct [of "[]" ms]
  by (simp add: distinct_map inj_on_def)

lemma option_ext: "(\<And>v. a = Some v \<longleftrightarrow> b = Some v) \<Longrightarrow> a = b"
  by (metis not_Some_eq)

text \<open>A member of the map is the last one of that name.\<close>

lemma map_members_get: "obj_get (map_members ms) k = obj_get ms k"
proof -
  have d: "distinct (map fst (last_wins ms))" using foldl_update_distinct [of "[]" ms] by simp
  have "obj_get (map_members ms) k = map_of (last_wins ms) k"
  proof (rule option_ext)
    fix v
    show "obj_get (map_members ms) k = Some v \<longleftrightarrow> map_of (last_wins ms) k = Some v"
      unfolding map_of_eq_Some_iff [OF d] obj_get_unique [OF map_members_distinct] by (simp add: map_members_def)
  qed
  then show ?thesis by (simp add: foldl_update_map obj_get_def)
qed

lemma map_members_mem: "m \<in> set (map_members ms) \<Longrightarrow> m \<in> set ms"
  using map_members_get [of ms "fst m"] obj_get_unique [OF map_members_distinct, of ms "fst m" "snd m"]
    obj_get_mem [of ms "fst m" "snd m"] by simp

lemma last_wins_distinct:
  "distinct (map fst (al @ ms)) \<Longrightarrow> foldl (\<lambda>al m. AList.update (fst m) (snd m) al) al ms = al @ ms"
proof (induction ms arbitrary: al)
  case (Cons m ms)
  have "AList.update (fst m) (snd m) al = al @ [m]" if "fst m \<notin> fst ` set al" for al
    using that by (induction al) auto
  then have "AList.update (fst m) (snd m) al = al @ [m]" using Cons(2) by auto
  then show ?case using Cons(1) [of "al @ [m]"] Cons(2) by simp
qed simp

lemma map_members_idem: "map_members (map_members ms) = map_members ms"
proof -
  have "last_wins (map_members ms) = map_members ms"
    using last_wins_distinct [of "[]" "map_members ms"] map_members_distinct [of ms] by simp
  then show ?thesis using map_members_sorted [of ms]
    by (simp add: map_members_def [of "map_members ms"] sort_key_id_if_sorted)
qed

lemma canon_idem: "canon (canon v) = canon v"
proof (induction v rule: canon.induct)
  case (2 ms)
  let ?M = "map_members (map (\<lambda>m. (fst m, canon (snd m))) ms)"
  have "(fst m, canon (snd m)) = m" if "m \<in> set ?M" for m
    using map_members_mem [OF that] 2 by auto
  then have "map (\<lambda>m. (fst m, canon (snd m))) ?M = ?M" by (rule map_idI)
  then show ?case by (simp add: map_members_idem)
qed simp_all

lemma canon_ok: "json_ok v \<Longrightarrow> json_ok (canon v)"
  by (induction v rule: canon.induct) (auto simp: list_all_iff dest!: map_members_mem)

lemma canon_nesting: "within_nesting n v \<Longrightarrow> within_nesting n (canon v)"
  by (induction v arbitrary: n rule: canon.induct) (fastforce simp: list_all_iff dest!: map_members_mem)+

lemma canon_members: "obj_get (map_members (map (\<lambda>m. (fst m, canon (snd m))) ms)) k = map_option canon (obj_get ms k)"
proof -
  have "obj_get (map (\<lambda>m. (fst m, canon (snd m))) ms) k = map_of (map (\<lambda>(k, v). (k, canon v)) (rev ms)) k"
    by (simp add: obj_get_def rev_map case_prod_beta')
  also have "\<dots> = map_option canon (obj_get ms k)" by (subst map_of_map) (simp add: obj_get_def)
  finally show ?thesis by (simp add: map_members_get)
qed

lemma json_text_visible: "json_text s v \<Longrightarrow> trim_space s \<noteq> []"
proof -
  assume "json_text s v"
  then obtain r where "json_value s v r" by (auto simp: json_text_def)
  then obtain c t where c: "skip_ws s = c # t" "value_char c" using json_value_start by blast
  then have "c \<in> set s" by (metis list.set_intros(1) set_dropWhileD skip_ws_def)
  moreover have "visible c" using c(2) by (auto simp: value_char_byte visible_def)
  ultimately show ?thesis by (rule trim_visible_char)
qed

lemma CompactJSON_unmarshal:
  "CompactJSON text = (case json_unmarshal text of None \<Rightarrow> [] | Some v \<Rightarrow> json_marshal (canon v))"
proof (cases "json_unmarshal text")
  case None
  then show ?thesis
    by (auto simp: CompactJSON_def Decode_def NewDecoder_def value_at_def after_value_def json_unmarshal_def json_parse_def
        split: option.splits token_result.splits if_splits dest!: Token_EOF)
next
  case (Some v)
  then have v: "json_parse text = Some v" "within_nesting max_nesting v"
    by (auto simp: json_unmarshal_def split: option.splits if_splits)
  then obtain r where r: "json_prefix text = Some (v, r)" "skip_ws r = []"
    by (auto simp: json_parse_def split: option.splits if_splits)
  have "trim_space text \<noteq> []" using v(1) json_text_visible by (simp add: json_parse_iff)
  then show ?thesis using r v Some EOF_Token
    by (simp add: CompactJSON_def Decode_def NewDecoder_def value_at_def after_value_def)
qed

lemma json_marshal_nonempty: "json_ok v \<Longrightarrow> json_marshal v \<noteq> []"
  using marshal_parses [of v] json_value_start by (fastforce simp: json_text_def skip_ws_def)

lemma json_unmarshal_iff: "json_unmarshal text = Some v \<longleftrightarrow> json_text text v \<and> within_nesting max_nesting v"
  by (auto simp: json_unmarshal_def json_parse_iff [symmetric] split: option.splits)

lemma canon_text_ok: "json_text text v \<Longrightarrow> json_ok (canon v)"
  using grammar_ok(1) canon_ok by (auto simp: json_text_def)

lemma marshal_canon_nonempty: "json_unmarshal text = Some v \<Longrightarrow> json_marshal (canon v) \<noteq> []"
  using json_marshal_nonempty canon_text_ok json_unmarshal_iff by blast

lemma CompactJSON_nonempty: "CompactJSON text \<noteq> [] \<longleftrightarrow> (\<exists>v. json_text text v \<and> within_nesting max_nesting v)"
  by (auto simp: CompactJSON_unmarshal json_unmarshal_iff [symmetric] marshal_canon_nonempty split: option.splits)

lemma CompactJSON_text:
  "json_text text v \<Longrightarrow> within_nesting max_nesting v \<Longrightarrow>
     CompactJSON text = json_marshal (canon v) \<and> json_text (CompactJSON text) (canon v)"
  using canon_text_ok marshal_parses by (simp add: CompactJSON_unmarshal json_unmarshal_iff [THEN iffD2])

lemma CompactJSON_idem: "CompactJSON (CompactJSON text) = CompactJSON text"
proof (cases "CompactJSON text = []")
  case True
  have "CompactJSON [] = []" by (simp add: CompactJSON_def trim_space_def trim_left_space_def)
  then show ?thesis using True by simp
next
  case False
  then obtain v where v: "json_text text v" "within_nesting max_nesting v" using CompactJSON_nonempty by blast
  then have c: "CompactJSON text = json_marshal (canon v)" "json_text (CompactJSON text) (canon v)" using CompactJSON_text by blast+
  then show ?thesis using CompactJSON_text [OF c(2)] canon_nesting [OF v(2)] by (simp add: canon_idem)
qed

text \<open>
  What it means that a value was made compact, independently of how: scalars are kept, arrays
  element by element, and an object keeps under each name what counts in the old one (the last
  member of that name), made compact, with every name once and in order.
\<close>

inductive compacted :: "json \<Rightarrow> json \<Rightarrow> bool" where
  compacted_null: "compacted JNull JNull"
| compacted_bool: "compacted (JBool b) (JBool b)"
| compacted_num: "compacted (JNum t) (JNum t)"
| compacted_str: "compacted (JStr t) (JStr t)"
| compacted_arr: "list_all2 compacted vs ws \<Longrightarrow> compacted (JArr vs) (JArr ws)"
| compacted_obj: "sorted (map fst ns) \<Longrightarrow> distinct (map fst ns) \<Longrightarrow> fst ` set ns = fst ` set ms \<Longrightarrow>
    (\<And>k v. obj_get ms k = Some v \<Longrightarrow> \<exists>w. obj_get ns k = Some w \<and> compacted v w) \<Longrightarrow> compacted (JObj ms) (JObj ns)"

lemma obj_get_names: "obj_get ms k = None \<longleftrightarrow> k \<notin> fst ` set ms"
  by (simp add: obj_get_def map_of_eq_None_iff)

lemma compacted_canon: "compacted v (canon v)"
proof (induction v rule: canon.induct)
  case (1 vs)
  then show ?case by (auto intro!: compacted_arr simp: list_all2_conv_all_nth)
next
  case (2 ms)
  let ?ns = "map_members (map (\<lambda>m. (fst m, canon (snd m))) ms)"
  have "k \<in> fst ` set ?ns \<longleftrightarrow> k \<in> fst ` set ms" for k
    using canon_members [of ms k] obj_get_names [of ?ns k] obj_get_names [of ms k] by (cases "obj_get ms k") auto
  moreover have "\<exists>w. obj_get ?ns k = Some w \<and> compacted v w" if "obj_get ms k = Some v" for k v
    using 2 [of "(k, v)"] obj_get_mem [OF that] canon_members [of ms k] that by auto
  ultimately show ?case using map_members_sorted map_members_distinct by (auto intro!: compacted_obj)
qed (auto intro: compacted.intros)

text \<open>
  C35. The gate is exact: a text comes out non-empty exactly when it is one JSON value within
  the decoder's nesting limit. What comes out is what \<open>json.Marshal\<close> writes of, and a JSON
  text of, the compact form of that value: the same scalars, the same array elements, and the
  members of every object under the same names, each name once, in order and with the last of
  its members. The gate leaves it as it is.
\<close>

theorem compact_json_exact:
  "(CompactJSON text \<noteq> [] \<longleftrightarrow> (\<exists>v. json_text text v \<and> within_nesting max_nesting v)) \<and>
   (\<forall>v. json_text text v \<and> within_nesting max_nesting v \<longrightarrow>
      (\<exists>w. compacted v w \<and> CompactJSON text = json_marshal w \<and> json_text (CompactJSON text) w)) \<and>
   CompactJSON (CompactJSON text) = CompactJSON text"
  using CompactJSON_nonempty CompactJSON_text CompactJSON_idem compacted_canon by blast

lemma check_None: "check validate a = None \<longleftrightarrow> Text a \<noteq> [] \<and> validate (Text a) = None"
  by (simp add: check_def)

text \<open>
  C37. A strict call asks the provider once or twice, the second time for the repair the
  caller builds from the rejected text and the reason, and never after a refused answer. When
  there is an outcome, the final result is the last call's; it is not \<open>OutcomeInvalid\<close>
  exactly when the first answer was no refusal and the final text is not empty and passes the
  caller's validation, and \<open>OutcomeOK\<close> says that one call was enough.
\<close>

theorem strict_contract:
  assumes "r = CompleteStrict complete request validate repair"
  shows "hd (asked r) = request \<and> length (calls r) \<le> length (asked r) \<and>
    (length (asked r) = 1 \<or> (length (asked r) = 2 \<and>
       (\<exists>a why. complete 0 request = Inr a \<and> \<not> Refused a \<and> check validate a = Some why \<and>
          asked r ! 1 = repair (if Text a = [] then Unparsed a else Text a) why))) \<and>
    (\<forall>out. outcome r = Inr out \<longrightarrow> (\<exists>a. final r = Some a \<and> last (calls r) = a \<and> length (calls r) = length (asked r) \<and>
      (out \<noteq> OutcomeInvalid \<longleftrightarrow> \<not> Refused (hd (calls r)) \<and> Text a \<noteq> [] \<and> validate (Text a) = None) \<and>
      (out = OutcomeOK \<longrightarrow> calls r = [a])))"
proof -
  consider (err) err where "complete 0 request = Inl err"
    | (refused) a where "complete 0 request = Inr a" "Refused a"
    | (ok) a where "complete 0 request = Inr a" "\<not> Refused a" "check validate a = None"
    | (err2) a why err where "complete 0 request = Inr a" "\<not> Refused a" "check validate a = Some why"
        "complete 1 (repair (if Text a = [] then Unparsed a else Text a) why) = Inl err"
    | (twice) a why b where "complete 0 request = Inr a" "\<not> Refused a" "check validate a = Some why"
        "complete 1 (repair (if Text a = [] then Unparsed a else Text a) why) = Inr b"
    by (metis option.exhaust sum.exhaust)
  then show ?thesis
  proof cases
    case ok
    then show ?thesis using check_None [of validate a] by (simp add: assms CompleteStrict_def)
  next
    case twice
    then show ?thesis using check_None [of validate b] by (cases "check validate b") (simp_all add: assms CompleteStrict_def Let_def)
  qed (simp_all add: assms CompleteStrict_def Let_def)
qed

section \<open>Witnesses\<close>

definition sample_reply :: string where
  "sample_reply = ''{\"b\":1,\"a\":[],\"b\":2}''"

theorem compact_json_exact_witness:
  "CompactJSON sample_reply = ''{\"a\":[],\"b\":2}'' \<and> CompactJSON (CompactJSON sample_reply) = CompactJSON sample_reply"
proof -
  have u: "json_unmarshal sample_reply = Some (JObj [(''b'', JNum ''1''), (''a'', JArr []), (''b'', JNum ''2'')])"
    by code_simp
  have "json_marshal (canon (JObj [(''b'', JNum ''1''), (''a'', JArr []), (''b'', JNum ''2'')])) = ''{\"a\":[],\"b\":2}''"
    by code_simp
  then have "CompactJSON sample_reply = ''{\"a\":[],\"b\":2}''" by (simp only: CompactJSON_unmarshal u option.simps)
  then show ?thesis using u [unfolded json_unmarshal_iff] compact_json_exact [of sample_reply] by blast
qed

definition sample_complete :: "nat \<Rightarrow> string \<Rightarrow> string + answer" where
  "sample_complete n r =
     (if n = 0 then Inr \<lparr>Text = ''[]'', Unparsed = [], Refused = False\<rparr>
      else if r = ''again []'' then Inr \<lparr>Text = ''{}'', Unparsed = [], Refused = False\<rparr>
      else Inl ''unexpected'')"

theorem strict_contract_witness:
  "\<exists>r. r = CompleteStrict sample_complete ''ask'' (\<lambda>t. if t = ''{}'' then None else Some ''no object'') (\<lambda>t _. ''again '' @ t) \<and>
     outcome r = Inr OutcomeRepaired \<and> length (asked r) = 2 \<and> length (calls r) = 2"
proof -
  let ?r = "CompleteStrict sample_complete ''ask'' (\<lambda>t. if t = ''{}'' then None else Some ''no object'') (\<lambda>t _. ''again '' @ t)"
  have o: "outcome ?r = Inr OutcomeRepaired" "length (asked ?r) = 2"
    by (simp_all add: CompleteStrict_def sample_complete_def check_def Let_def)
  then have "length (calls ?r) = 2" using strict_contract [OF refl, of sample_complete "''ask''"] by metis
  with o show ?thesis by blast
qed

end
