(* ===== verification/Llm_Call.thy ===== *)
theory Llm_Call
  imports Llm_Errors Llm_Strict Go_Struct
begin

text \<open>
  One provider call: the types of llm/provider.go, the HTTP exchange and the choice of a client
  of llm/transport.go, and the budget of llm/budget.go. The network, the caller's context and
  the budget are arguments: a call is a function of what they answer, and it leaves a log of
  what was asked of the budget, sent and waited for.
\<close>

section \<open>Requests, results, configuration\<close>

definition KindOpenAI :: Kind where "KindOpenAI = ''openai''"
definition KindAnthropic :: Kind where "KindAnthropic = ''anthropic''"
definition KindLocal :: Kind where "KindLocal = ''local''"
definition KindGemini :: Kind where "KindGemini = ''gemini''"
definition KindQwen :: Kind where "KindQwen = ''qwen''"

definition DefaultModel :: "Kind \<Rightarrow> string" where
  "DefaultModel kind =
     (if kind = KindOpenAI then ''gpt-5-mini''
      else if kind = KindAnthropic then ''claude-haiku-5-5''
      else if kind = KindGemini then ''gemini-3.8-flash''
      else if kind = KindQwen then ''qwen-plus''
      else if kind = KindLocal then ''llama3.2''
      else [])"

datatype FormatType = FormatTypeJSONSchema | FormatTypeJSONObject

text \<open>
  A schema is the tree \<open>json.Marshal\<close> writes of the map, or the text of its error for a
  map it cannot encode.
\<close>

record JSONFormat =
  FType :: FormatType
  FName :: string
  FSchema :: "string + json"

definition format_object :: "JSONFormat option \<Rightarrow> bool" where
  "format_object f = (case f of None \<Rightarrow> False | Some x \<Rightarrow> FType x = FormatTypeJSONObject)"

definition format_schema :: "JSONFormat option \<Rightarrow> bool" where
  "format_schema f = (case f of None \<Rightarrow> False | Some x \<Rightarrow> FType x \<noteq> FormatTypeJSONObject)"

datatype CachePolicy = CacheNone | CacheSystem

record Request =
  System :: string
  Prompt :: string
  Format :: "JSONFormat option"
  ReqMaxOutputTokens :: int
  Seed :: "int option"
  ReasoningEffort :: string
  Cache :: CachePolicy

record Usage =
  InputTokens :: "int option"
  OutputTokens :: "int option"
  CachedInputTokens :: "int option"
  CacheCreationInputTokens :: "int option"

definition usageOf :: "int option \<Rightarrow> int option \<Rightarrow> int option \<Rightarrow> int option \<Rightarrow> Usage" where
  "usageOf input output cached_in created =
     \<lparr>InputTokens = input, OutputTokens = output, CachedInputTokens = cached_in, CacheCreationInputTokens = created\<rparr>"

definition zero_usage :: Usage where
  "zero_usage = usageOf None None None None"

text \<open>A result extends what the strict call reads of one.\<close>

record Result = answer +
  ResModel :: string
  ResponseModel :: string
  StopReason :: string
  ResUsage :: Usage
  FormatPath :: string
  FormatReason :: string

definition FormatPathSchema :: string where "FormatPathSchema = ''schema''"
definition FormatPathTool :: string where "FormatPathTool = ''tool''"
definition FormatPathObject :: string where "FormatPathObject = ''object''"

section \<open>The HTTP client\<close>

text \<open>
  What the providers set of a client: whether redirects are followed and where its transport
  sends. \<open>Custom\<close> is a round tripper of the caller's own.
\<close>

datatype transport = NetTransport "string option" | Custom string

record http_client =
  Timeout :: duration
  follows_redirects :: bool
  Transport :: "transport option"

definition hardenedTimeout :: duration where
  "hardenedTimeout = 60 * second"

definition newHardenedClient :: http_client where
  "newHardenedClient =
     \<lparr>Timeout = hardenedTimeout, follows_redirects = False, Transport = Some (NetTransport None)\<rparr>"

definition noRedirects :: "http_client \<Rightarrow> http_client" where
  "noRedirects client = client\<lparr>follows_redirects := False\<rparr>"

text \<open>\<open>proxy\<close> is the proxy of \<open>http.DefaultTransport\<close>, from the environment.\<close>

definition clientFor :: "string option \<Rightarrow> http_client option \<Rightarrow> http_client" where
  "clientFor proxy configured =
     (case configured of
        None \<Rightarrow> newHardenedClient
      | Some given \<Rightarrow>
          (let client = noRedirects given;
               transport = (case Transport client of None \<Rightarrow> NetTransport proxy | Some t \<Rightarrow> t)
           in case transport of
                NetTransport _ \<Rightarrow> client\<lparr>Transport := Some (NetTransport None)\<rparr>
              | Custom t \<Rightarrow> client\<lparr>Transport := Some (Custom t)\<rparr>))"

section \<open>The budget\<close>

record Attempt =
  IdempotencyKey :: string
  AProvider :: Kind
  AModel :: string
  ABaseURL :: string
  MaxInputBytes :: int
  MaxOutputTokens :: int
  CacheWrite :: bool

text \<open>
  What a budget's \<open>Run\<close> does: it may invoke the call, any number of times, and go on with
  what the call reported; it returns nil, the error of its last invocation itself, or an error
  of its own.
\<close>

datatype run = RunOK | RunSame | RunOwn string | Invoke "Usage \<times> failure option \<Rightarrow> run"

datatype call_error = Failed failure | BudgetError string

definition IsBudgetRefusal :: "call_error \<Rightarrow> bool" where
  "IsBudgetRefusal err = (case err of BudgetError _ \<Rightarrow> True | Failed _ \<Rightarrow> False)"

text \<open>\<open>invoked\<close> is the error of the last invocation, if there was one.\<close>

primrec run_budget ::
  "run \<Rightarrow> ('s \<Rightarrow> (Usage \<times> failure option) \<times> 's) \<Rightarrow> failure option option \<Rightarrow> 's \<Rightarrow> call_error option \<times> 's" where
  "run_budget RunOK = (\<lambda>send invoked s. (None, s))"
| "run_budget RunSame = (\<lambda>send invoked s.
     (case invoked of Some (Some err) \<Rightarrow> Some (Failed err) | _ \<Rightarrow> None, s))"
| "run_budget (RunOwn cause) = (\<lambda>send invoked s. (Some (BudgetError cause), s))"
| "run_budget (Invoke k) = (\<lambda>send invoked s.
     case send s of (answer, s') \<Rightarrow> run_budget (k answer) send (Some (snd answer)) s')"

section \<open>The log of a call\<close>

record http_request =
  http_method :: string
  target :: string
  header :: "(string \<times> string) list"
  payload :: "bytes option"

datatype event = Asked Attempt | Sent http_request | Slept duration

definition sent_count :: "event list \<Rightarrow> nat" where
  "sent_count es = length (filter (\<lambda>e. case e of Sent _ \<Rightarrow> True | _ \<Rightarrow> False) es)"

definition asked_count :: "event list \<Rightarrow> nat" where
  "asked_count es = length (filter (\<lambda>e. case e of Asked _ \<Rightarrow> True | _ \<Rightarrow> False) es)"

type_synonym budget = "nat \<Rightarrow> Attempt \<Rightarrow> run"

text \<open>The state of a call: what the closure of the attempt has stored, and the log.\<close>

definition guarded ::
  "budget option \<Rightarrow> Attempt \<Rightarrow> ('a \<times> event list \<Rightarrow> (Usage \<times> failure option) \<times> 'a \<times> event list) \<Rightarrow>
   'a \<times> event list \<Rightarrow> call_error option \<times> 'a \<times> event list" where
  "guarded budget attempt send s =
     (case budget of
        None \<Rightarrow> (case send s of ((_, err), s') \<Rightarrow> (map_option Failed err, s'))
      | Some b \<Rightarrow>
          run_budget (b (asked_count (snd s)) attempt) send None (fst s, snd s @ [Asked attempt]))"

section \<open>One exchange\<close>

text \<open>
  What comes of a request: it cannot be built, there is no response, the body breaks off, or
  a status, the Retry-After header and the body. \<open>bool\<close> says whether it was a timeout.
\<close>

datatype reply = Unbuildable | NoReply bool | Broken bool | Reply int "string option" bytes

type_synonym network = "nat \<Rightarrow> http_request \<Rightarrow> reply"

definition decodeFailure :: Error where
  "decodeFailure = NewError ClassGeneric [] []"

text \<open>
  \<open>decode\<close> stores what it could read and says whether it was usable.
\<close>

definition exchange ::
  "network \<Rightarrow> http_request \<Rightarrow> (bytes \<Rightarrow> 'a \<times> bool) \<Rightarrow> 'a \<times> event list \<Rightarrow> failure option \<times> 'a \<times> event list" where
  "exchange net req decode s =
     (let es = snd s @ [Sent req] in
      case net (sent_count (snd s)) req of
        Unbuildable \<Rightarrow> (Some (Other ''llm: build request''), s)
      | NoReply timedOut \<Rightarrow> (Some (TransportError timedOut), fst s, es)
      | Broken timedOut \<Rightarrow> (Some (TransportError timedOut), fst s, es)
      | Reply status retryAfter raw \<Rightarrow>
          if status < 200 \<or> status \<ge> 300 then (Some (StatusError status retryAfter raw), fst s, es)
          else
            (case decode raw of
               (x, True) \<Rightarrow> (None, x, es)
             | (x, False) \<Rightarrow> (Some (Typed decodeFailure), x, es)))"

section \<open>Configuration\<close>

datatype TemperatureMode = TemperatureDefault | TemperatureOmit

datatype OutputCapMode = OutputCapDefault | OutputCapOmit

text \<open>A \<open>Secret\<close> is \<open>None\<close> when no value is present; \<open>NewSecret\<close> of the empty text is none.\<close>

definition NewSecret :: "string \<Rightarrow> string option" where
  "NewSecret value = (if value = [] then None else Some value)"

definition Reveal :: "string option \<Rightarrow> string" where
  "Reveal s = (case s of None \<Rightarrow> [] | Some value \<Rightarrow> value)"

record Config =
  CKind :: Kind
  APIKey :: "string option"
  BaseURL :: string
  CModel :: string
  CMaxOutputTokens :: int
  HTTPClient :: "http_client option"
  Budget :: "budget option"
  Temperature :: TemperatureMode
  OutputCap :: OutputCapMode

text \<open>\<open>strings.TrimRight(s, "/")\<close>.\<close>

definition trim_slashes :: "string \<Rightarrow> string" where
  "trim_slashes s = rev (dropWhile (\<lambda>c. c = CHR ''/'') (rev s))"

definition withDefaults :: "Config \<Rightarrow> string \<Rightarrow> Config" where
  "withDefaults c defaultBaseURL =
     (let c1 = (if trim_space (BaseURL c) = [] then c\<lparr>BaseURL := defaultBaseURL\<rparr> else c);
          c2 = c1\<lparr>BaseURL := trim_slashes (BaseURL c1)\<rparr>
      in if CModel c2 = [] then c2\<lparr>CModel := DefaultModel (CKind c2)\<rparr> else c2)"

text \<open>A built provider: its configuration and its client.\<close>

record provider =
  cfg :: Config
  client :: http_client

datatype new_error = NotConfigured | UnknownKind

section \<open>Decoded answers\<close>

text \<open>A response body's \<open>model\<close>: anything but a string or \<open>null\<close> leaves it as it is.\<close>

definition into_model :: "json \<Rightarrow> string \<Rightarrow> string" where
  "into_model v m = (case v of JNull \<Rightarrow> [] | JStr s \<Rightarrow> s | _ \<Rightarrow> m)"

definition into_int :: "json \<Rightarrow> int \<Rightarrow> int option" where
  "into_int v n = (case v of JNull \<Rightarrow> Some n | JNum t \<Rightarrow> ParseInt10 t | _ \<Rightarrow> None)"

definition into_int_ptr :: "json \<Rightarrow> int option \<Rightarrow> int option option" where
  "into_int_ptr = into_ptr 0 into_int"

text \<open>What the parsers give of a body.\<close>

record wire_answer =
  ans_model :: string
  ans_text :: string
  ans_reason :: string
  ans_usage :: Usage
  ans_refused :: bool

definition zero_answer :: wire_answer where
  "zero_answer = \<lparr>ans_model = [], ans_text = [], ans_reason = [], ans_usage = zero_usage, ans_refused = False\<rparr>"

text \<open>The closure of an attempt: one exchange, and the usage of the answer it stored.\<close>

definition send_once ::
  "network \<Rightarrow> http_request \<Rightarrow> (bytes \<Rightarrow> wire_answer \<times> bool) \<Rightarrow> wire_answer \<times> event list \<Rightarrow>
   (Usage \<times> failure option) \<times> wire_answer \<times> event list" where
  "send_once nt req decode s =
     (case exchange nt req decode s of (err, s') \<Rightarrow> ((ans_usage (fst s'), err), s'))"

section \<open>What follows a failed attempt\<close>

text \<open>What a call needs of the standard library and of its surroundings.\<close>

record platform =
  to_lower :: "string \<Rightarrow> string"
  floating :: floats
  fold_case :: "string \<Rightarrow> string"
  capacity :: "nat \<Rightarrow> nat"

text \<open>
  \<open>ctx_ended n\<close>: whether the context has ended when the loop looks after attempt \<open>n\<close>;
  \<open>woke n\<close>: whether the wait after attempt \<open>n\<close> came to its end.
\<close>

record env =
  net :: network
  ctx_ended :: "nat \<Rightarrow> bool"
  woke :: "nat \<Rightarrow> bool"
  random_id :: string

datatype complete_error = Raw call_error | Ended | Classified Error

text \<open>The common part of the retry loops: \<open>None\<close> means that the loop goes on.\<close>

definition after_failure ::
  "platform \<Rightarrow> env \<Rightarrow> Kind \<Rightarrow> string \<Rightarrow> nat \<Rightarrow> nat \<Rightarrow> call_error \<Rightarrow> event list \<Rightarrow> complete_error option \<times> event list" where
  "after_failure pl e kind model maxRetries attempt err es =
     (case err of
        BudgetError _ \<Rightarrow> (Some (Raw err), es)
      | Failed f \<Rightarrow>
          if ctx_ended e attempt then (Some (Raw err), es)
          else
            (let classified = classify (to_lower pl) (floating pl) f kind model in
             if Retryable classified \<and> attempt < maxRetries then
               (if woke e attempt then None else Some Ended, es @ [Slept (delayFor classified attempt)])
             else (Some (Classified classified), es)))"

lemma after_failure_again:
  "after_failure pl e kind model m n err es = (None, es2) \<Longrightarrow>
     n < m \<and> (\<exists>f. err = Failed f \<and> \<not> ctx_ended e n \<and> woke e n \<and> Retryable (classify (to_lower pl) (floating pl) f kind model)) \<and>
     (\<exists>d. es2 = es @ [Slept d])"
  by (auto simp: after_failure_def Let_def split: call_error.splits if_splits)

lemma after_failure_stop:
  "after_failure pl e kind model m n err es = (Some stop, es2) \<Longrightarrow> es2 = es \<or> n < m \<and> (\<exists>d. es2 = es @ [Slept d])"
  by (auto simp: after_failure_def Let_def split: call_error.splits if_splits)

section \<open>The log of one attempt\<close>

definition int_json :: "int \<Rightarrow> json" where
  "int_json n = JNum (Itoa n)"

text \<open>The body of a request is an object with this output cap under this name, or with none.\<close>

definition carries :: "string \<Rightarrow> int option \<Rightarrow> http_request \<Rightarrow> bool" where
  "carries name cap r \<longleftrightarrow>
     (\<exists>ms. payload r = Some (json_marshal (JObj ms)) \<and> obj_get ms name = map_option int_json cap)"

text \<open>
  One attempt of a call: without a budget at most one request; with one, the budget is asked
  under the key of this attempt, and requests follow only where the budget invokes the call.
  The output cap the budget was told is the one in the body of every request (\<open>capped cap\<close>),
  and the number of input bytes is the length of that body, 1 for an empty one.
\<close>

definition one_attempt :: "budget option \<Rightarrow> (int \<Rightarrow> http_request \<Rightarrow> bool) \<Rightarrow> string \<Rightarrow> nat \<Rightarrow> int \<Rightarrow> event list \<Rightarrow> bool" where
  "one_attempt b capped key n cap es =
     (es = [] \<or>
      (case b of
         None \<Rightarrow> (\<exists>r. es = [Sent r] \<and> capped cap r)
       | Some g \<Rightarrow>
           (\<exists>a rs m. es = Asked a # map Sent rs \<and> IdempotencyKey a = key @ '':attempt:'' @ Itoa (int n) \<and>
              MaxOutputTokens a = cap \<and> (rs \<noteq> [] \<longrightarrow> (\<exists>k. g m a = Invoke k)) \<and>
              (\<forall>r \<in> set rs. capped cap r \<and> (\<exists>body. payload r = Some body \<and> MaxInputBytes a = max 1 (int (length body)))))))"

text \<open>
  The log of a whole call: one attempt, or two with a wait between them, the second with an
  output cap that is not lower.
\<close>

definition admitted_calls :: "budget option \<Rightarrow> (int \<Rightarrow> http_request \<Rightarrow> bool) \<Rightarrow> string \<Rightarrow> int \<Rightarrow> event list \<Rightarrow> bool" where
  "admitted_calls b capped key cap es =
     (\<exists>e1. one_attempt b capped key 1 cap e1 \<and>
       (es = e1 \<or> (\<exists>d e2 c. one_attempt b capped key 2 c e2 \<and> cap \<le> c \<and> es = e1 @ [Slept d] @ e2)))"

lemma exchange_log: "snd (snd (exchange nt req decode s)) = snd s \<or> snd (snd (exchange nt req decode s)) = snd s @ [Sent req]"
  by (auto simp: exchange_def Let_def split: reply.splits prod.splits bool.splits)

lemma run_budget_log:
  assumes "\<And>s. snd (snd (send s)) = snd s \<or> snd (snd (send s)) = snd s @ [Sent req]"
  shows "\<exists>rs. snd (snd (run_budget r send invoked s)) = snd s @ map Sent rs \<and> set rs \<subseteq> {req} \<and>
    (rs \<noteq> [] \<longrightarrow> (\<exists>k. r = Invoke k))"
proof (induction r arbitrary: invoked s)
  case (Invoke k)
  obtain answer s' where s: "send s = (answer, s')" by (cases "send s")
  obtain rs where rs: "snd (snd (run_budget (k answer) send (Some (snd answer)) s')) = snd s' @ map Sent rs" "set rs \<subseteq> {req}"
    using Invoke [of "k answer"] by blast
  have "snd s' = snd s \<or> snd s' = snd s @ [Sent req]" using assms [of s] s by simp
  then show ?case
  proof
    assume "snd s' = snd s"
    with rs s show ?thesis by auto
  next
    assume "snd s' = snd s @ [Sent req]"
    with rs s show ?thesis by (intro exI [of _ "req # rs"]) simp
  qed
qed (auto intro: exI [of _ "[]"])

lemma send_once_log: "snd (snd (send_once nt req decode s)) = snd s \<or> snd (snd (send_once nt req decode s)) = snd s @ [Sent req]"
  using exchange_log [of nt req decode s] by (auto simp: send_once_def split: prod.splits)

lemma guarded_one:
  assumes "IdempotencyKey a = key @ '':attempt:'' @ Itoa (int n)" and "MaxOutputTokens a = cap" and "capped cap req"
    and "payload req = Some body" and "MaxInputBytes a = max 1 (int (length body))"
  shows "\<exists>es'. one_attempt b capped key n cap es' \<and> snd (snd (guarded b a (send_once nt req decode) (x, es))) = es @ es'"
proof (cases b)
  case None
  then show ?thesis using send_once_log [of nt req decode "(x, es)"] assms(3)
    by (auto simp: guarded_def one_attempt_def split: prod.splits)
next
  case (Some g)
  obtain rs where "snd (snd (guarded b a (send_once nt req decode) (x, es))) = (es @ [Asked a]) @ map Sent rs" "set rs \<subseteq> {req}"
      "rs \<noteq> [] \<longrightarrow> (\<exists>k. g (asked_count es) a = Invoke k)"
    using run_budget_log [of "send_once nt req decode" req, OF send_once_log, of "g (asked_count es) a" None
        "(x, es @ [Asked a])"] Some
    by (auto simp: guarded_def)
  then show ?thesis using assms Some
    by (intro exI [of _ "Asked a # map Sent rs"]) (fastforce simp: one_attempt_def)
qed

text \<open>
  What the loops of the providers have in common: \<open>loop n x es\<close> is the loop at attempt
  \<open>n\<close> with the log so far, \<open>x\<close> its other variables and \<open>cap x\<close> the output cap it
  asks for. A pass makes one attempt and ends, or waits and goes on with a cap that is not
  lower.
\<close>

locale attempt_loop =
  fixes loop :: "nat \<Rightarrow> 'x \<Rightarrow> event list \<Rightarrow> 'r \<times> event list"
    and cap :: "'x \<Rightarrow> int"
    and b :: "budget option"
    and capped :: "int \<Rightarrow> http_request \<Rightarrow> bool"
    and key :: string
  assumes pass: "\<exists>es'. one_attempt b capped key (Suc n) (cap x) es' \<and>
    (snd (loop n x es) = es @ es' \<or>
     n < 1 \<and> (\<exists>d x'. cap x \<le> cap x' \<and>
       (snd (loop n x es) = es @ es' @ [Slept d] \<or> loop n x es = loop (Suc n) x' (es @ es' @ [Slept d]))))"
begin

lemma last_pass: "\<exists>es'. one_attempt b capped key 2 (cap x) es' \<and> snd (loop 1 x es) = es @ es'"
  using pass [of 1 x es] by (auto simp: numeral_2_eq_2)

lemma two_attempts: "admitted_calls b capped key (cap x) (snd (loop 0 x []))"
proof -
  obtain e1 where e1: "one_attempt b capped key 1 (cap x) e1"
    and "snd (loop 0 x []) = e1 \<or> (\<exists>d x'. cap x \<le> cap x' \<and>
       (snd (loop 0 x []) = e1 @ [Slept d] \<or> loop 0 x [] = loop 1 x' (e1 @ [Slept d])))"
    using pass [of 0 x "[]"] by auto
  then consider "snd (loop 0 x []) = e1" | d where "snd (loop 0 x []) = e1 @ [Slept d]"
    | d x' where "cap x \<le> cap x'" "loop 0 x [] = loop 1 x' (e1 @ [Slept d])" by blast
  then show ?thesis
  proof cases
    case 2
    have "one_attempt b capped key 2 (cap x) []" by (simp add: one_attempt_def)
    with 2 e1 show ?thesis unfolding admitted_calls_def by (intro exI [of _ e1]) auto
  next
    case 3
    then show ?thesis using last_pass [of x' "e1 @ [Slept d]"] e1 unfolding admitted_calls_def by (metis append_assoc)
  qed (use e1 in \<open>auto simp: admitted_calls_def\<close>)
qed

end

end
