(* ===== verification/Llm_Chat.thy ===== *)
theory Llm_Chat
  imports Llm_Call
begin

text \<open>
  llm/compatible.go: the Chat Completions client of self-hosted servers, Gemini and Qwen: its
  constructor, the request body, the reading of a response and the loop of at most two
  attempts.
\<close>

section \<open>Construction\<close>

definition defaultLocalBaseURL :: string where
  "defaultLocalBaseURL = ''http://localhost:11434/v1''"

definition defaultGeminiBaseURL :: string where
  "defaultGeminiBaseURL = ''https://generativelanguage.googleapis.com/v1beta/openai''"

definition defaultDashScopeBaseURL :: string where
  "defaultDashScopeBaseURL = ''https://dashscope.aliyuncs.com/compatible-mode/v1''"

definition compatibleMinOutputTokens :: int where
  "compatibleMinOutputTokens = 4096"

definition compatibleMaxRetries :: nat where
  "compatibleMaxRetries = 1"

definition NewCompatible :: "string option \<Rightarrow> Config \<Rightarrow> new_error + provider" where
  "NewCompatible proxy c =
     (let c1 = (if CKind c = KindLocal \<and> APIKey c = None then c\<lparr>APIKey := NewSecret ''not-needed''\<rparr> else c) in
      if CKind c \<notin> {KindLocal, KindGemini, KindQwen} then Inl UnknownKind
      else if APIKey c1 = None then Inl NotConfigured
      else
        (let url = (if CKind c = KindLocal then defaultLocalBaseURL
                    else if CKind c = KindGemini then defaultGeminiBaseURL else defaultDashScopeBaseURL);
             c2 = withDefaults c1 url;
             c3 = c2\<lparr>CMaxOutputTokens := max (CMaxOutputTokens c2) compatibleMinOutputTokens\<rparr>
         in Inr \<lparr>cfg = c3, client = clientFor proxy (HTTPClient c3)\<rparr>))"

section \<open>The request body\<close>

definition chat_message :: "string \<Rightarrow> string \<Rightarrow> json" where
  "chat_message role content = JObj [(''role'', JStr role), (''content'', JStr content)]"

text \<open>The format a request asks for: nothing, any object, or a strict schema.\<close>

datatype chat_format = NoFormat | ObjectFormat | SchemaFormat string "string + json"

definition chatFormat :: "Kind \<Rightarrow> JSONFormat option \<Rightarrow> chat_format" where
  "chatFormat kind f =
     (if format_schema f then SchemaFormat (FName (the f)) (FSchema (the f))
      else if format_object f \<or> kind \<noteq> KindLocal then ObjectFormat
      else NoFormat)"

definition chat_format_json :: "chat_format \<Rightarrow> string + json option" where
  "chat_format_json f =
     (case f of
        NoFormat \<Rightarrow> Inr None
      | ObjectFormat \<Rightarrow> Inr (Some (JObj [(''type'', JStr ''json_object'')]))
      | SchemaFormat name schema \<Rightarrow>
          and_then schema (\<lambda>s. Inr (Some (JObj
            [(''type'', JStr ''json_schema''),
             (''json_schema'', JObj [(''name'', JStr name), (''schema'', s), (''strict'', JBool True)])]))))"

record chat_request =
  cr_model :: string
  cr_system :: string
  cr_prompt :: string
  cr_max :: "int option"
  cr_temperature :: bool
  cr_format :: chat_format
  cr_seed :: "int option"
  cr_effort :: string

definition optional :: "string \<Rightarrow> json option \<Rightarrow> (string \<times> json) list" where
  "optional name v = (case v of None \<Rightarrow> [] | Some x \<Rightarrow> [(name, x)])"

definition chat_json :: "chat_request \<Rightarrow> string + json" where
  "chat_json b =
     and_then (chat_format_json (cr_format b)) (\<lambda>f. Inr (JObj
       ([(''model'', JStr (cr_model b)),
         (''messages'', JArr [chat_message ''system'' (cr_system b), chat_message ''user'' (cr_prompt b)])]
        @ optional ''max_completion_tokens'' (map_option int_json (cr_max b))
        @ optional ''temperature'' (if cr_temperature b then Some (JNum ''0.3'') else None)
        @ optional ''response_format'' f
        @ optional ''seed'' (map_option int_json (cr_seed b))
        @ optional ''reasoning_effort'' (if cr_effort b = [] then None else Some (JStr (cr_effort b))))))"

definition chat_body :: "Config \<Rightarrow> Request \<Rightarrow> chat_request" where
  "chat_body c request =
     \<lparr>cr_model = CModel c, cr_system = System request, cr_prompt = Prompt request,
      cr_max = (if OutputCap c = OutputCapOmit then None else Some (max (CMaxOutputTokens c) (ReqMaxOutputTokens request))),
      cr_temperature = (Temperature c \<noteq> TemperatureOmit),
      cr_format = chatFormat (CKind c) (Format request),
      cr_seed = Seed request, cr_effort = ReasoningEffort request\<rparr>"

section \<open>Reading a response\<close>

record chat_reply =
  msg_role :: string
  msg_content :: string
  msg_refusal :: string
  finish_reason :: string

definition zero_reply :: chat_reply where
  "zero_reply = \<lparr>msg_role = [], msg_content = [], msg_refusal = [], finish_reason = []\<rparr>"

definition put_message :: "string \<Rightarrow> json \<Rightarrow> chat_reply \<Rightarrow> chat_reply option" where
  "put_message k v x =
     (if k = ''role'' then map_option (\<lambda>s. x\<lparr>msg_role := s\<rparr>) (into_string v (msg_role x))
      else if k = ''content'' then map_option (\<lambda>s. x\<lparr>msg_content := s\<rparr>) (into_string v (msg_content x))
      else map_option (\<lambda>s. x\<lparr>msg_refusal := s\<rparr>) (into_string v (msg_refusal x)))"

definition put_choice :: "(string \<Rightarrow> string) \<Rightarrow> string \<Rightarrow> json \<Rightarrow> chat_reply \<Rightarrow> chat_reply option" where
  "put_choice f k v x =
     (if k = ''message'' then into_struct f [''role'', ''content'', ''refusal''] put_message v x
      else map_option (\<lambda>s. x\<lparr>finish_reason := s\<rparr>) (into_string v (finish_reason x)))"

record chat_usage =
  prompt_tokens :: "int option"
  prompt_details :: "int option option"
  completion_tokens :: "int option"

definition zero_chat_usage :: chat_usage where
  "zero_chat_usage = \<lparr>prompt_tokens = None, prompt_details = None, completion_tokens = None\<rparr>"

definition put_chat_usage :: "(string \<Rightarrow> string) \<Rightarrow> string \<Rightarrow> json \<Rightarrow> chat_usage \<Rightarrow> chat_usage option" where
  "put_chat_usage f k v x =
     (if k = ''prompt_tokens'' then map_option (\<lambda>n. x\<lparr>prompt_tokens := n\<rparr>) (into_int_ptr v (prompt_tokens x))
      else if k = ''prompt_tokens_details'' then
        map_option (\<lambda>d. x\<lparr>prompt_details := d\<rparr>)
          (into_ptr None (into_struct f [''cached_tokens''] (\<lambda>_. into_int_ptr)) v (prompt_details x))
      else map_option (\<lambda>n. x\<lparr>completion_tokens := n\<rparr>) (into_int_ptr v (completion_tokens x)))"

record chat_response =
  resp_model :: string
  choices :: "chat_reply slice"
  resp_usage :: "chat_usage option"

definition zero_response :: chat_response where
  "zero_response = \<lparr>resp_model = [], choices = nil_slice, resp_usage = None\<rparr>"

definition put_response ::
  "(string \<Rightarrow> string) \<Rightarrow> (nat \<Rightarrow> nat) \<Rightarrow> string \<Rightarrow> json \<Rightarrow> chat_response \<Rightarrow> chat_response option" where
  "put_response f grow k v x =
     (if k = ''model'' then Some (x\<lparr>resp_model := into_model v (resp_model x)\<rparr>)
      else if k = ''choices'' then
        map_option (\<lambda>cs. x\<lparr>choices := cs\<rparr>)
          (into_slice grow zero_reply (into_struct f [''message'', ''finish_reason''] (put_choice f)) v (choices x))
      else
        map_option (\<lambda>u. x\<lparr>resp_usage := u\<rparr>)
          (into_ptr zero_chat_usage
            (into_struct f [''prompt_tokens'', ''prompt_tokens_details'', ''completion_tokens''] (put_chat_usage f))
            v (resp_usage x)))"

definition parseChatResponse :: "(string \<Rightarrow> string) \<Rightarrow> (nat \<Rightarrow> nat) \<Rightarrow> bytes \<Rightarrow> wire_answer \<times> bool" where
  "parseChatResponse f grow raw =
     (case Option.bind (json_unmarshal raw)
             (\<lambda>doc. into_struct f [''model'', ''choices'', ''usage''] (put_response f grow) doc zero_response) of
        None \<Rightarrow> (zero_answer, False)
      | Some decoded \<Rightarrow>
          (let answer = zero_answer
                 \<lparr>ans_model := resp_model decoded,
                  ans_usage :=
                    (case resp_usage decoded of
                       None \<Rightarrow> zero_usage
                     | Some u \<Rightarrow>
                         usageOf (prompt_tokens u) (completion_tokens u)
                           (case prompt_details u of None \<Rightarrow> None | Some hit \<Rightarrow> hit) None)\<rparr>
           in case elems_of (choices decoded) of
                [] \<Rightarrow> (answer, False)
              | c # _ \<Rightarrow>
                  (answer\<lparr>ans_text := if msg_refusal c \<noteq> [] then [] else msg_content c,
                     ans_reason := finish_reason c, ans_refused := (msg_refusal c \<noteq> [])\<rparr>, True)))"

section \<open>The call\<close>

definition valueOr :: "int option \<Rightarrow> int \<Rightarrow> int" where
  "valueOr v fallback = (case v of None \<Rightarrow> fallback | Some n \<Rightarrow> n)"

definition chat_send ::
  "platform \<Rightarrow> env \<Rightarrow> provider \<Rightarrow> string \<Rightarrow> nat \<Rightarrow> chat_request \<Rightarrow> event list \<Rightarrow> call_error option \<times> wire_answer \<times> event list" where
  "chat_send pl e p requestKey attempt body es =
     (case chat_json body of
        Inl err \<Rightarrow> (Some (Failed (Other (''llm: encode request: '' @ err))), zero_answer, es)
      | Inr doc \<Rightarrow>
          guarded (Budget (cfg p))
            \<lparr>IdempotencyKey = requestKey @ '':attempt:'' @ Itoa (int attempt), AProvider = CKind (cfg p),
             AModel = CModel (cfg p), ABaseURL = BaseURL (cfg p),
             MaxInputBytes = max 1 (int (length (json_marshal doc))),
             MaxOutputTokens = valueOr (cr_max body) 0, CacheWrite = False\<rparr>
            (send_once (net e)
              \<lparr>http_method = ''POST'', target = BaseURL (cfg p) @ ''/chat/completions'',
               header = [(''Content-Type'', ''application/json''), (''Authorization'', ''Bearer '' @ Reveal (APIKey (cfg p)))],
               payload = Some (json_marshal doc)\<rparr>
              (parseChatResponse (fold_case pl) (capacity pl)))
            (zero_answer, es))"

definition format_path :: "JSONFormat option \<Rightarrow> string" where
  "format_path f =
     (case f of None \<Rightarrow> [] | Some _ \<Rightarrow> if format_object f then FormatPathObject else FormatPathSchema)"

definition chat_result :: "provider \<Rightarrow> Request \<Rightarrow> wire_answer \<Rightarrow> Result" where
  "chat_result p request answer =
     (let gated = (if Format request \<noteq> None \<and> \<not> ans_refused answer then gateJSON (ans_text answer) else (ans_text answer, []))
      in \<lparr>Text = fst gated, Unparsed = snd gated, Refused = ans_refused answer,
          ResModel = CModel (cfg p), ResponseModel = ans_model answer, StopReason = ans_reason answer,
          ResUsage = ans_usage answer, FormatPath = format_path (Format request), FormatReason = []\<rparr>)"

function chat_loop ::
  "platform \<Rightarrow> env \<Rightarrow> provider \<Rightarrow> Request \<Rightarrow> string \<Rightarrow> nat \<Rightarrow> event list \<Rightarrow> (complete_error + Result) \<times> event list" where
  "chat_loop pl e p request requestKey attempt es =
     (case chat_send pl e p requestKey (attempt + 1) (chat_body (cfg p) request) es of
        (None, answer, es1) \<Rightarrow> (Inr (chat_result p request answer), es1)
      | (Some err, answer, es1) \<Rightarrow>
          (case after_failure pl e (CKind (cfg p)) (CModel (cfg p)) compatibleMaxRetries attempt err es1 of
             (Some stop, es2) \<Rightarrow> (Inl stop, es2)
           | (None, es2) \<Rightarrow> chat_loop pl e p request requestKey (Suc attempt) es2))"
  by pat_completeness auto

termination
  by (relation "measure (\<lambda>(pl, e, p, request, requestKey, attempt, es). compatibleMaxRetries - attempt)")
    (auto dest!: after_failure_again [OF sym])

declare chat_loop.simps [simp del]

definition Compatible_Complete ::
  "platform \<Rightarrow> env \<Rightarrow> provider \<Rightarrow> Request \<Rightarrow> (complete_error + Result) \<times> event list" where
  "Compatible_Complete pl e p request =
     (if Seed request \<noteq> None \<and> CKind (cfg p) = KindGemini
      then (Inl (Classified (errSeedUnsupported KindGemini (CModel (cfg p)))), [])
      else chat_loop pl e p request (''shared:'' @ random_id e) 0 [])"

section \<open>The loop keeps the contract of attempts\<close>

definition chat_cap :: "provider \<Rightarrow> Request \<Rightarrow> int" where
  "chat_cap p request = valueOr (cr_max (chat_body (cfg p) request)) 0"

text \<open>A body carries the cap the budget is told, unless the configuration leaves it out.\<close>

definition chat_carries :: "provider \<Rightarrow> int \<Rightarrow> http_request \<Rightarrow> bool" where
  "chat_carries p cap = carries ''max_completion_tokens'' (if OutputCap (cfg p) = OutputCapOmit then None else Some cap)"

lemma obj_get_Cons: "obj_get ((k, v) # ms) n = (case obj_get ms n of Some w \<Rightarrow> Some w | None \<Rightarrow> if k = n then Some v else None)"
  by (auto simp: obj_get_def map_add_def split: option.splits)

lemma obj_get_append: "obj_get (ms @ ns) n = (case obj_get ns n of Some w \<Rightarrow> Some w | None \<Rightarrow> obj_get ms n)"
  unfolding obj_get_def by (simp add: map_add_def)

lemma obj_get_Nil: "obj_get [] n = None"
  by (simp add: obj_get_def)

lemma obj_get_optional: "obj_get (optional name v) n = (if n = name then v else None)"
  by (auto simp: optional_def obj_get_def split: option.splits)

lemmas member_simps = obj_get_Nil obj_get_Cons obj_get_append obj_get_optional

lemma chat_json_cap:
  assumes "chat_json b = Inr doc"
  shows "\<exists>ms. doc = JObj ms \<and> obj_get ms ''max_completion_tokens'' = map_option int_json (cr_max b)"
  using assms by (cases "chat_format_json (cr_format b)") (auto simp: chat_json_def and_then_def member_simps split: option.splits)

lemma chat_send_one:
  "\<exists>es'. one_attempt (Budget (cfg p)) (chat_carries p) key n (chat_cap p request) es' \<and>
    snd (snd (chat_send pl e p key n (chat_body (cfg p) request) es)) = es @ es'"
proof (cases "chat_json (chat_body (cfg p) request)")
  case (Inl err)
  then show ?thesis by (intro exI [of _ "[]"]) (simp add: chat_send_def one_attempt_def)
next
  case (Inr doc)
  from chat_json_cap [OF this] obtain ms where ms: "doc = JObj ms"
    "obj_get ms ''max_completion_tokens'' = map_option int_json (cr_max (chat_body (cfg p) request))" by blast
  show ?thesis unfolding chat_send_def Inr sum.case
    by (intro guarded_one)
      (use ms in \<open>auto simp: chat_carries_def carries_def chat_cap_def chat_body_def valueOr_def\<close>)
qed

lemma chat_pass:
  "\<exists>es'. one_attempt (Budget (cfg p)) (chat_carries p) key (Suc n) (chat_cap p request) es' \<and>
    (snd (chat_loop pl e p request key n es) = es @ es' \<or>
     n < 1 \<and> (\<exists>d. snd (chat_loop pl e p request key n es) = es @ es' @ [Slept d] \<or>
       chat_loop pl e p request key n es = chat_loop pl e p request key (Suc n) (es @ es' @ [Slept d])))"
proof -
  obtain err answer es1 where send: "chat_send pl e p key (n + 1) (chat_body (cfg p) request) es = (err, answer, es1)"
    by (metis prod_cases3)
  obtain es' where es': "one_attempt (Budget (cfg p)) (chat_carries p) key (Suc n) (chat_cap p request) es'" "es1 = es @ es'"
    using chat_send_one [of p key "n + 1" request pl e es] send by auto
  show ?thesis
  proof (cases err)
    case None
    then show ?thesis using es' send by (subst (1 2 3) chat_loop.simps) auto
  next
    case (Some er)
    let ?after = "after_failure pl e (CKind (cfg p)) (CModel (cfg p)) compatibleMaxRetries n er es1"
    obtain stop es2 where after: "?after = (stop, es2)" by (cases ?after)
    have l: "chat_loop pl e p request key n es =
        (case stop of Some x \<Rightarrow> (Inl x, es2) | None \<Rightarrow> chat_loop pl e p request key (Suc n) es2)"
      using send Some after by (subst chat_loop.simps) (simp split: option.splits)
    show ?thesis
    proof (cases stop)
      case None
      have "n < 1" and "\<exists>d. es2 = es @ es' @ [Slept d]"
        using after_failure_again [OF after [unfolded None]] es'(2) by (auto simp: compatibleMaxRetries_def)
      then show ?thesis using None l es'(1) by (intro exI [of _ es']) auto
    next
      case (Some x)
      have "es2 = es1 \<or> n < 1 \<and> (\<exists>d. es2 = es1 @ [Slept d])"
        using after_failure_stop [OF after [unfolded Some]] by (auto simp: compatibleMaxRetries_def)
      then show ?thesis using Some l es' by (intro exI [of _ es']) auto
    qed
  qed
qed

interpretation chat: attempt_loop "\<lambda>n (_ :: unit) es. chat_loop pl e p request key n es" "\<lambda>_. chat_cap p request"
  "Budget (cfg p)" "chat_carries p" key for pl e p request key
  by unfold_locales (use chat_pass in auto)

end
