(* ===== verification/Llm_Openai.thy ===== *)
theory Llm_Openai
  imports Llm_Chat
begin

text \<open>
  llm/openai.go: the client of the Responses API: its constructor, the request body, the
  reading of a response and the loop of at most two attempts, which also retries a cut answer
  with a raised output cap.
\<close>

section \<open>Construction\<close>

definition defaultOpenAIBaseURL :: string where
  "defaultOpenAIBaseURL = ''https://api.openai.com/v1''"

definition openAIMinOutputTokens :: int where
  "openAIMinOutputTokens = 2048"

definition openAIMaxOutputTokens :: int where
  "openAIMaxOutputTokens = 8192"

definition openAIMaxRetries :: nat where
  "openAIMaxRetries = 1"

definition NewOpenAI :: "string option \<Rightarrow> Config \<Rightarrow> new_error + provider" where
  "NewOpenAI proxy c =
     (let c1 = c\<lparr>CKind := KindOpenAI\<rparr> in
      if APIKey c1 = None then Inl NotConfigured
      else
        (let c2 = withDefaults c1 defaultOpenAIBaseURL;
             c3 = c2\<lparr>CMaxOutputTokens := max (CMaxOutputTokens c2) openAIMinOutputTokens\<rparr>
         in Inr \<lparr>cfg = c3, client = clientFor proxy (HTTPClient c3)\<rparr>))"

section \<open>The request body\<close>

datatype responses_format = JsonObject | JsonSchema string "string + json"

record responses_request =
  rr_model :: string
  rr_instructions :: string
  rr_input :: string
  rr_format :: responses_format
  rr_effort :: string
  rr_max :: int

definition responsesBody :: "provider \<Rightarrow> Request \<Rightarrow> int \<Rightarrow> responses_request" where
  "responsesBody p request maxTokens =
     \<lparr>rr_model = CModel (cfg p), rr_instructions = System request, rr_input = Prompt request,
      rr_format = (if format_schema (Format request)
                   then JsonSchema (FName (the (Format request))) (FSchema (the (Format request))) else JsonObject),
      rr_effort = (if ReasoningEffort request \<noteq> [] then ReasoningEffort request else ''low''),
      rr_max = maxTokens\<rparr>"

text \<open>\<open>omitempty\<close> leaves out an empty name and an empty or nil schema.\<close>

definition responses_format_json :: "responses_format \<Rightarrow> string + json" where
  "responses_format_json f =
     (case f of
        JsonObject \<Rightarrow> Inr (JObj [(''type'', JStr ''json_object'')])
      | JsonSchema name schema \<Rightarrow>
          and_then schema (\<lambda>s. Inr (JObj
            ([(''type'', JStr ''json_schema'')] @ (if name = [] then [] else [(''name'', JStr name)])
             @ [(''strict'', JBool True)] @ (if s = JNull \<or> s = JObj [] then [] else [(''schema'', s)])))))"

definition responses_json :: "responses_request \<Rightarrow> string + json" where
  "responses_json b =
     and_then (responses_format_json (rr_format b)) (\<lambda>f. Inr (JObj
       [(''model'', JStr (rr_model b)), (''instructions'', JStr (rr_instructions b)), (''input'', JStr (rr_input b)),
        (''text'', JObj [(''format'', f), (''verbosity'', JStr ''low'')]),
        (''reasoning'', JObj [(''effort'', JStr (rr_effort b))]),
        (''max_output_tokens'', int_json (rr_max b))]))"

section \<open>Reading a response\<close>

record chunk =
  chunk_type :: string
  chunk_text :: string

definition zero_chunk :: chunk where
  "zero_chunk = \<lparr>chunk_type = [], chunk_text = []\<rparr>"

definition put_chunk :: "string \<Rightarrow> json \<Rightarrow> chunk \<Rightarrow> chunk option" where
  "put_chunk k v x =
     (if k = ''type'' then map_option (\<lambda>s. x\<lparr>chunk_type := s\<rparr>) (into_string v (chunk_type x))
      else map_option (\<lambda>s. x\<lparr>chunk_text := s\<rparr>) (into_string v (chunk_text x)))"

text \<open>An element of \<open>output\<close> has one field, its \<open>content\<close>.\<close>

definition put_content :: "(string \<Rightarrow> string) \<Rightarrow> (nat \<Rightarrow> nat) \<Rightarrow> json \<Rightarrow> chunk slice \<Rightarrow> chunk slice option" where
  "put_content f grow =
     into_struct f [''content''] (\<lambda>_. into_slice grow zero_chunk (into_struct f [''type'', ''text''] put_chunk))"

record responses_usage =
  in_tokens :: "int option"
  out_tokens :: "int option"
  in_details :: "int option option"

definition zero_responses_usage :: responses_usage where
  "zero_responses_usage = \<lparr>in_tokens = None, out_tokens = None, in_details = None\<rparr>"

definition put_responses_usage :: "(string \<Rightarrow> string) \<Rightarrow> string \<Rightarrow> json \<Rightarrow> responses_usage \<Rightarrow> responses_usage option" where
  "put_responses_usage f k v x =
     (if k = ''input_tokens'' then map_option (\<lambda>n. x\<lparr>in_tokens := n\<rparr>) (into_int_ptr v (in_tokens x))
      else if k = ''output_tokens'' then map_option (\<lambda>n. x\<lparr>out_tokens := n\<rparr>) (into_int_ptr v (out_tokens x))
      else
        map_option (\<lambda>d. x\<lparr>in_details := d\<rparr>)
          (into_ptr None (into_struct f [''cached_tokens''] (\<lambda>_. into_int_ptr)) v (in_details x)))"

record responses_response =
  rs_model :: string
  output_text :: string
  output_items :: "chunk slice slice"
  rs_usage :: "responses_usage option"
  incomplete :: "string option"

definition zero_responses :: responses_response where
  "zero_responses = \<lparr>rs_model = [], output_text = [], output_items = nil_slice, rs_usage = None, incomplete = None\<rparr>"

definition responses_fields :: "string list" where
  "responses_fields = [''model'', ''output_text'', ''output'', ''usage'', ''incomplete_details'']"

definition put_responses ::
  "(string \<Rightarrow> string) \<Rightarrow> (nat \<Rightarrow> nat) \<Rightarrow> string \<Rightarrow> json \<Rightarrow> responses_response \<Rightarrow> responses_response option" where
  "put_responses f grow k v x =
     (if k = ''model'' then Some (x\<lparr>rs_model := into_model v (rs_model x)\<rparr>)
      else if k = ''output_text'' then map_option (\<lambda>s. x\<lparr>output_text := s\<rparr>) (into_string v (output_text x))
      else if k = ''output'' then
        map_option (\<lambda>s. x\<lparr>output_items := s\<rparr>) (into_slice grow nil_slice (put_content f grow) v (output_items x))
      else if k = ''usage'' then
        map_option (\<lambda>u. x\<lparr>rs_usage := u\<rparr>)
          (into_ptr zero_responses_usage
            (into_struct f [''input_tokens'', ''output_tokens'', ''input_tokens_details''] (put_responses_usage f))
            v (rs_usage x))
      else
        map_option (\<lambda>r. x\<lparr>incomplete := r\<rparr>)
          (into_ptr [] (into_struct f [''reason''] (\<lambda>_. into_string)) v (incomplete x)))"

definition answer_of :: "responses_response \<Rightarrow> wire_answer" where
  "answer_of decoded =
     (let chunks = concat (map elems_of (elems_of (output_items decoded)));
          text = (if output_text decoded \<noteq> [] then output_text decoded
                  else concat (map chunk_text
                    (filter (\<lambda>c. chunk_type c = ''output_text'' \<or> chunk_type c = ''text'') chunks)))
      in \<lparr>ans_model = rs_model decoded, ans_text = text,
          ans_reason = (case incomplete decoded of
              None \<Rightarrow> ''completed'' | Some r \<Rightarrow> if r \<noteq> [] then r else ''completed''),
          ans_usage = (case rs_usage decoded of
              None \<Rightarrow> zero_usage
            | Some u \<Rightarrow> usageOf (in_tokens u) (out_tokens u) (case in_details u of None \<Rightarrow> None | Some hit \<Rightarrow> hit) None),
          ans_refused = (text = [] \<and> list_ex (\<lambda>c. chunk_type c = ''refusal'') chunks)\<rparr>)"

definition parseOpenAIResponse :: "(string \<Rightarrow> string) \<Rightarrow> (nat \<Rightarrow> nat) \<Rightarrow> bytes \<Rightarrow> wire_answer \<times> bool" where
  "parseOpenAIResponse f grow raw =
     (case Option.bind (json_unmarshal raw) (\<lambda>doc. into_struct f responses_fields (put_responses f grow) doc zero_responses) of
        None \<Rightarrow> (zero_answer, False)
      | Some decoded \<Rightarrow> (answer_of decoded, True))"

section \<open>The call\<close>

definition openai_send ::
  "platform \<Rightarrow> env \<Rightarrow> provider \<Rightarrow> string \<Rightarrow> nat \<Rightarrow> responses_request \<Rightarrow> event list \<Rightarrow> call_error option \<times> wire_answer \<times> event list" where
  "openai_send pl e p requestKey attempt body es =
     (case responses_json body of
        Inl err \<Rightarrow> (Some (Failed (Other (''llm: encode request: '' @ err))), zero_answer, es)
      | Inr doc \<Rightarrow>
          guarded (Budget (cfg p))
            \<lparr>IdempotencyKey = requestKey @ '':attempt:'' @ Itoa (int attempt), AProvider = KindOpenAI,
             AModel = CModel (cfg p), ABaseURL = BaseURL (cfg p),
             MaxInputBytes = max 1 (int (length (json_marshal doc))), MaxOutputTokens = rr_max body, CacheWrite = False\<rparr>
            (send_once (net e)
              \<lparr>http_method = ''POST'', target = BaseURL (cfg p) @ ''/responses'',
               header = [(''Content-Type'', ''application/json''), (''Authorization'', ''Bearer '' @ Reveal (APIKey (cfg p)))],
               payload = Some (json_marshal doc)\<rparr>
              (parseOpenAIResponse (fold_case pl) (capacity pl)))
            (zero_answer, es))"

definition openai_gate :: "Request \<Rightarrow> wire_answer \<Rightarrow> string \<times> string" where
  "openai_gate request answer =
     (let gated = (if ans_refused answer then ([], []) else gateJSON (ans_text answer))
      in (fst gated, if Format request = None then [] else snd gated))"

definition openai_result :: "provider \<Rightarrow> Request \<Rightarrow> wire_answer \<Rightarrow> Result" where
  "openai_result p request answer =
     \<lparr>Text = fst (openai_gate request answer), Unparsed = snd (openai_gate request answer), Refused = ans_refused answer,
      ResModel = CModel (cfg p), ResponseModel = ans_model answer, StopReason = ans_reason answer,
      ResUsage = ans_usage answer, FormatPath = format_path (Format request), FormatReason = []\<rparr>"

definition cut_answer :: "Request \<Rightarrow> wire_answer \<Rightarrow> bool" where
  "cut_answer request answer =
     (fst (openai_gate request answer) = [] \<and> \<not> ans_refused answer \<and> ans_reason answer = ''max_output_tokens'')"

text \<open>The cap is a 64-bit integer: doubling it may wrap, and it is still never lowered.\<close>

definition raised :: "int \<Rightarrow> int \<Rightarrow> int" where
  "raised limit maxTokens = max maxTokens (min limit (wrap_int64 (maxTokens * 2)))"

definition cut_wait :: duration where
  "cut_wait = 500000000"

function openai_loop ::
  "platform \<Rightarrow> env \<Rightarrow> provider \<Rightarrow> Request \<Rightarrow> string \<Rightarrow> nat \<Rightarrow> int \<Rightarrow> event list \<Rightarrow> (complete_error + Result) \<times> event list" where
  "openai_loop pl e p request requestKey attempt maxTokens es =
     (case openai_send pl e p requestKey (attempt + 1) (responsesBody p request maxTokens) es of
        (Some err, answer, es1) \<Rightarrow>
          (case after_failure pl e KindOpenAI (CModel (cfg p)) openAIMaxRetries attempt err es1 of
             (Some stop, es2) \<Rightarrow> (Inl stop, es2)
           | (None, es2) \<Rightarrow> openai_loop pl e p request requestKey (Suc attempt) maxTokens es2)
      | (None, answer, es1) \<Rightarrow>
          if cut_answer request answer \<and> attempt < openAIMaxRetries then
            (if woke e attempt
             then openai_loop pl e p request requestKey (Suc attempt) (raised openAIMaxOutputTokens maxTokens) (es1 @ [Slept cut_wait])
             else (Inl Ended, es1 @ [Slept cut_wait]))
          else (Inr (openai_result p request answer), es1))"
  by pat_completeness auto
termination
  by (relation "measure (\<lambda>(pl, e, p, request, requestKey, attempt, maxTokens, es). openAIMaxRetries - attempt)")
    (auto dest!: after_failure_again [OF sym])

declare openai_loop.simps [simp del]

definition OpenAI_Complete ::
  "platform \<Rightarrow> env \<Rightarrow> provider \<Rightarrow> Request \<Rightarrow> (complete_error + Result) \<times> event list" where
  "OpenAI_Complete pl e p request =
     (if Seed request \<noteq> None then (Inl (Classified (errSeedUnsupported KindOpenAI (CModel (cfg p)))), [])
      else openai_loop pl e p request (''shared:'' @ random_id e) 0 (max (CMaxOutputTokens (cfg p)) (ReqMaxOutputTokens request)) [])"

section \<open>The loop keeps the contract of attempts\<close>

definition openai_carries :: "int \<Rightarrow> http_request \<Rightarrow> bool" where
  "openai_carries cap = carries ''max_output_tokens'' (Some cap)"

lemma responses_json_cap:
  assumes "responses_json b = Inr doc"
  shows "\<exists>ms. doc = JObj ms \<and> obj_get ms ''max_output_tokens'' = Some (int_json (rr_max b))"
  using assms by (cases "responses_format_json (rr_format b)") (auto simp: responses_json_def and_then_def member_simps)

lemma openai_send_one:
  "\<exists>es'. one_attempt (Budget (cfg p)) openai_carries key n (rr_max body) es' \<and>
    snd (snd (openai_send pl e p key n body es)) = es @ es'"
proof (cases "responses_json body")
  case (Inl err)
  then show ?thesis by (intro exI [of _ "[]"]) (simp add: openai_send_def one_attempt_def)
next
  case (Inr doc)
  from responses_json_cap [OF this] obtain ms where ms: "doc = JObj ms"
    "obj_get ms ''max_output_tokens'' = Some (int_json (rr_max body))" by blast
  show ?thesis unfolding openai_send_def Inr sum.case
    by (intro guarded_one) (use ms in \<open>auto simp: openai_carries_def carries_def\<close>)
qed

lemma raised_not_lower: "x \<le> raised limit x"
  by (simp add: raised_def)

lemma openai_pass:
  "\<exists>es'. one_attempt (Budget (cfg p)) openai_carries key (Suc n) x es' \<and>
    (snd (openai_loop pl e p request key n x es) = es @ es' \<or>
     n < 1 \<and> (\<exists>d x'. x \<le> x' \<and> (snd (openai_loop pl e p request key n x es) = es @ es' @ [Slept d] \<or>
       openai_loop pl e p request key n x es = openai_loop pl e p request key (Suc n) x' (es @ es' @ [Slept d]))))"
proof -
  obtain err answer es1 where send: "openai_send pl e p key (n + 1) (responsesBody p request x) es = (err, answer, es1)"
    by (metis prod_cases3)
  obtain es' where es': "one_attempt (Budget (cfg p)) openai_carries key (Suc n) x es'" "es1 = es @ es'"
    using openai_send_one [of p key "n + 1" "responsesBody p request x" pl e es] send by (auto simp: responsesBody_def)
  show ?thesis
  proof (cases err)
    case None
    then have l: "openai_loop pl e p request key n x es =
        (if cut_answer request answer \<and> n < 1 then
           (if woke e n then openai_loop pl e p request key (Suc n) (raised openAIMaxOutputTokens x) (es1 @ [Slept cut_wait])
            else (Inl Ended, es1 @ [Slept cut_wait]))
         else (Inr (openai_result p request answer), es1))"
      using send by (subst openai_loop.simps) (simp add: openAIMaxRetries_def)
    show ?thesis using es' raised_not_lower unfolding l by (intro exI [of _ es']) auto
  next
    case (Some er)
    let ?after = "after_failure pl e KindOpenAI (CModel (cfg p)) openAIMaxRetries n er es1"
    obtain stop es2 where after: "?after = (stop, es2)" by (cases ?after)
    have l: "openai_loop pl e p request key n x es =
        (case stop of Some y \<Rightarrow> (Inl y, es2) | None \<Rightarrow> openai_loop pl e p request key (Suc n) x es2)"
      using send Some after by (subst openai_loop.simps) (simp split: option.splits)
    show ?thesis
    proof (cases stop)
      case None
      have "n < 1" and "\<exists>d. es2 = es @ es' @ [Slept d]"
        using after_failure_again [OF after [unfolded None]] es'(2) by (auto simp: openAIMaxRetries_def)
      then show ?thesis using None l es'(1) by (intro exI [of _ es']) auto
    next
      case (Some y)
      have "es2 = es1 \<or> n < 1 \<and> (\<exists>d. es2 = es1 @ [Slept d])"
        using after_failure_stop [OF after [unfolded Some]] by (auto simp: openAIMaxRetries_def)
      then show ?thesis using Some l es' by (intro exI [of _ es']) auto
    qed
  qed
qed

interpretation openai: attempt_loop "openai_loop pl e p request key" "\<lambda>x. x" "Budget (cfg p)" openai_carries key for pl e p request key
  by unfold_locales (rule openai_pass)

end
