(* ===== verification/Llm_Providers.thy ===== *)
theory Llm_Providers
  imports Llm_Openai
begin

text \<open>
  What the providers of package \<open>llm\<close> promise together: how a call is admitted, how
  long it waits, and that an answer under a format has passed the strict gate.
\<close>

section \<open>Admission\<close>

lemma no_calls: "admitted_calls b capped key cap []"
  by (auto simp: admitted_calls_def one_attempt_def)

lemma compatible_admitted:
  "admitted_calls (Budget (cfg p)) (chat_carries p) (''shared:'' @ random_id e) (chat_cap p request)
     (snd (Compatible_Complete pl e p request))"
  using chat.two_attempts no_calls by (simp add: Compatible_Complete_def)

lemma openai_admitted:
  "admitted_calls (Budget (cfg p)) openai_carries (''shared:'' @ random_id e)
     (max (CMaxOutputTokens (cfg p)) (ReqMaxOutputTokens request)) (snd (OpenAI_Complete pl e p request))"
  using openai.two_attempts no_calls by (simp add: OpenAI_Complete_def)


section \<open>Waits\<close>

text \<open>The failures of a call are those of its exchanges; the budget adds only its own errors.\<close>

definition plain_net :: "floats \<Rightarrow> network \<Rightarrow> bool" where
  "plain_net fl nt \<longleftrightarrow>
     (\<forall>n req status raw body. nt n req = Reply status (Some raw) body \<longrightarrow> ParseFloat fl raw \<noteq> Some NaN)"

lemma exchange_plain: "plain_net fl nt \<Longrightarrow> fst (exchange nt req decode s) = Some err \<Longrightarrow> plain_failure fl err"
  by (auto simp: exchange_def plain_net_def decodeFailure_def NewError_def Let_def split: reply.splits if_splits prod.splits bool.splits)
    blast+

lemma run_budget_failure:
  assumes "\<And>s err. snd (fst (send s)) = Some err \<Longrightarrow> P err"
  shows "(\<And>err. invoked = Some (Some err) \<Longrightarrow> P err) \<Longrightarrow> fst (run_budget r send invoked s) = Some (Failed err) \<Longrightarrow> P err"
proof (induction r arbitrary: invoked s)
  case (Invoke k)
  obtain answer s' where s: "send s = (answer, s')" by (cases "send s")
  have "P err" if "Some (snd answer) = Some (Some err)" for err using assms [of s err] that s by simp
  then show ?case using Invoke(1) [of "k answer" "Some (snd answer)" s'] Invoke(3) s by auto
qed (auto split: option.splits)

lemma guarded_plain:
  assumes "plain_net fl nt" and "fst (guarded b a (send_once nt req decode) s) = Some (Failed err)"
  shows "plain_failure fl err"
proof -
  have send: "plain_failure fl err" if "snd (fst (send_once nt req decode s)) = Some err" for s err
    using exchange_plain [OF assms(1), of req decode s err] that by (auto simp: send_once_def split: prod.splits)
  show ?thesis
  proof (cases b)
    case None
    then show ?thesis using assms(2) send [of s err] by (auto simp: guarded_def split: prod.splits)
  next
    case (Some g)
    then show ?thesis using assms(2) run_budget_failure [of "send_once nt req decode" "plain_failure fl", OF send, where invoked = None]
      by (auto simp: guarded_def)
  qed
qed

lemma send_plain:
  assumes "plain_net fl (net e)"
  shows "fst (chat_send pl e p key n body es) = Some (Failed err) \<Longrightarrow> plain_failure fl err"
    and "fst (openai_send pl e p key n body' es) = Some (Failed err) \<Longrightarrow> plain_failure fl err"
  using guarded_plain [OF assms] by (auto simp: chat_send_def openai_send_def split: sum.splits)

definition short_waits :: "event list \<Rightarrow> bool" where
  "short_waits es \<longleftrightarrow> (\<forall>d. Slept d \<in> set es \<longrightarrow> 0 < d \<and> d \<le> 60 * second)"

lemma one_attempt_waits: "one_attempt b capped key n cap es \<Longrightarrow> Slept d \<notin> set es"
  by (auto simp: one_attempt_def split: option.splits)

lemma send_waits:
  "short_waits es \<Longrightarrow> chat_send pl e p key n (chat_body (cfg p) request) es = (r, x, es1) \<Longrightarrow> short_waits es1"
  "short_waits es \<Longrightarrow> openai_send pl e p key n body es = (r', x', es2) \<Longrightarrow> short_waits es2"
  using chat_send_one [of p key n request pl e es] openai_send_one [of p key n body pl e es]
  by (auto simp: short_waits_def dest: one_attempt_waits)

lemma after_failure_waits:
  assumes "after_failure pl e kind model m n err es = (stop, es2)" and "short_waits es" and "rounds (floating pl)"
    and "\<And>f. err = Failed f \<Longrightarrow> plain_failure (floating pl) f"
  shows "short_waits es2"
  using assms delay_range [OF assms(3)]
  by (auto simp: after_failure_def short_waits_def Let_def split: call_error.splits if_splits)

lemma chat_loop_waits:
  "rounds (floating pl) \<Longrightarrow> plain_net (floating pl) (net e) \<Longrightarrow> short_waits es \<Longrightarrow>
     short_waits (snd (chat_loop pl e p request key n es))"
proof (induction pl e p request key n es rule: chat_loop.induct)
  case (1 pl e p request key n es)
  obtain r x es1 where send: "chat_send pl e p key (n + 1) (chat_body (cfg p) request) es = (r, x, es1)" by (metis prod_cases3)
  have es1: "short_waits es1" using send_waits(1) [OF 1(4) send] .
  show ?case
  proof (cases r)
    case None
    then show ?thesis using es1 send by (subst chat_loop.simps) simp
  next
    case (Some err)
    obtain stop es2 where after: "after_failure pl e (CKind (cfg p)) (CModel (cfg p)) compatibleMaxRetries n err es1 = (stop, es2)"
      by fastforce
    have "short_waits es2"
      using after_failure_waits [OF after es1 1(2)] send_plain(1) [OF 1(3)] send Some by (metis fst_conv)
    moreover have "stop = None \<Longrightarrow> short_waits es2 \<Longrightarrow> short_waits (snd (chat_loop pl e p request key (Suc n) es2))"
      using 1(1) [OF send [symmetric] Some refl after [symmetric]] 1(2,3) by simp
    ultimately show ?thesis using send Some after by (subst chat_loop.simps) (simp split: option.split)
  qed
qed

lemma openai_loop_waits:
  "rounds (floating pl) \<Longrightarrow> plain_net (floating pl) (net e) \<Longrightarrow> short_waits es \<Longrightarrow>
     short_waits (snd (openai_loop pl e p request key n x es))"
proof (induction pl e p request key n x es rule: openai_loop.induct)
  case (1 pl e p request key n x es)
  obtain r y es1 where send: "openai_send pl e p key (n + 1) (responsesBody p request x) es = (r, y, es1)" by (metis prod_cases3)
  have es1: "short_waits es1" using send_waits(2) [OF 1(5) send] .
  show ?case
  proof (cases r)
    case None
    have "short_waits (es1 @ [Slept cut_wait])" using es1 by (auto simp: short_waits_def cut_wait_def second_def)
    then show ?thesis using 1(1) [OF send [symmetric] None refl] 1(3,4) es1 send None
      by (subst openai_loop.simps) auto
  next
    case (Some err)
    obtain stop es2 where after: "after_failure pl e KindOpenAI (CModel (cfg p)) openAIMaxRetries n err es1 = (stop, es2)"
      by fastforce
    have "short_waits es2"
      using after_failure_waits [OF after es1 1(3)] send_plain(2) [OF 1(4)] send Some by (metis fst_conv)
    moreover have "stop = None \<Longrightarrow> short_waits es2 \<Longrightarrow> short_waits (snd (openai_loop pl e p request key (Suc n) x es2))"
      using 1(2) [OF send [symmetric] Some refl after [symmetric]] 1(3,4) by simp
    ultimately show ?thesis using send Some after by (subst openai_loop.simps) (simp split: option.split)
  qed
qed

text \<open>
  C39. No call waits for ever: whatever the server answers, the budget does and the context
  says, every wait in the log of a call is positive and at most a minute. This is for float
  arithmetic that rounds monotonically and keeps 0 and 60 seconds exact, and for a server that
  sends no Retry-After that reads as NaN, whose conversion to a duration the language leaves
  open.
\<close>

theorem retry_wait_bounded:
  assumes "rounds (floating pl)"
    and "\<forall>n req status raw body. net e n req = Reply status (Some raw) body \<longrightarrow> ParseFloat (floating pl) raw \<noteq> Some NaN"
  shows "\<forall>d. Slept d \<in> set (snd (Compatible_Complete pl e p request)) \<union> set (snd (OpenAI_Complete pl e p request)) \<longrightarrow>
    0 < d \<and> d \<le> 60 * second"
proof -
  have n: "plain_net (floating pl) (net e)" using assms(2) by (simp add: plain_net_def)
  have "short_waits []" by (simp add: short_waits_def)
  then have "short_waits (snd (Compatible_Complete pl e p request))" "short_waits (snd (OpenAI_Complete pl e p request))"
    using chat_loop_waits [OF assms(1) n] openai_loop_waits [OF assms(1) n]
    by (simp_all add: Compatible_Complete_def OpenAI_Complete_def)
  then show ?thesis by (auto simp: short_waits_def)
qed

section \<open>Gated answers\<close>

lemma run_budget_answer:
  assumes "\<And>s. P (fst s) \<Longrightarrow> P (fst (snd (send s)))"
  shows "P (fst s) \<Longrightarrow> P (fst (snd (run_budget r send invoked s)))"
proof (induction r arbitrary: invoked s)
  case (Invoke k)
  obtain answer s' where s: "send s = (answer, s')" by (cases "send s")
  then have "P (fst s')" using assms [of s] Invoke(2) by simp
  then show ?case using Invoke(1) [of "k answer"] s by simp
qed simp_all

lemma guarded_answer:
  assumes "P x" and "\<And>raw. P (fst (decode raw))"
  shows "P (fst (snd (guarded b a (send_once nt req decode) (x, es))))"
proof -
  have step: "P (fst s) \<Longrightarrow> P (fst (snd (send_once nt req decode s)))" for s
    using assms(2) by (auto simp: send_once_def exchange_def Let_def split: reply.splits prod.splits bool.splits)
      (metis fst_conv)+
  show ?thesis using step [of "(x, es)"] assms(1)
      run_budget_answer [of P "send_once nt req decode" "(x, es @ [Asked a])" "the b (asked_count es) a" None, OF step]
    by (cases b) (auto simp: guarded_def split: prod.splits)
qed

definition refusal_empty :: "wire_answer \<Rightarrow> bool" where
  "refusal_empty a = (ans_refused a \<longrightarrow> ans_text a = [])"

lemma parsed_refusal_empty:
  "refusal_empty zero_answer" "refusal_empty (fst (parseChatResponse f grow raw))" "refusal_empty (fst (parseOpenAIResponse f grow raw))"
  by (simp_all add: refusal_empty_def zero_answer_def parseChatResponse_def parseOpenAIResponse_def answer_of_def Let_def
      split: option.splits list.splits)

lemma chat_send_answer: "refusal_empty (fst (snd (chat_send pl e p key n body es)))"
  by (simp add: chat_send_def guarded_answer parsed_refusal_empty split: sum.splits)

lemma openai_send_answer: "refusal_empty (fst (snd (openai_send pl e p key n body es)))"
  by (simp add: openai_send_def guarded_answer parsed_refusal_empty split: sum.splits)

lemma chat_loop_result:
  "chat_loop pl e p request key n es = (Inr r, es') \<Longrightarrow> \<exists>answer. refusal_empty answer \<and> r = chat_result p request answer"
proof (induction pl e p request key n es rule: chat_loop.induct)
  case (1 pl e p request key n es)
  have a: "refusal_empty answer" if "chat_send pl e p key (Suc n) (chat_body (cfg p) request) es = (err, answer, es1)" for err answer es1
    using chat_send_answer [of pl e p key "Suc n" "chat_body (cfg p) request" es] that by simp
  show ?case using 1(2) a 1(1) [OF sym refl sym sym refl]
    by (subst (asm) chat_loop.simps) (auto split: prod.splits option.splits)
qed

lemma openai_loop_result:
  "openai_loop pl e p request key n x es = (Inr r, es') \<Longrightarrow> \<exists>answer. refusal_empty answer \<and> r = openai_result p request answer"
proof (induction pl e p request key n x es rule: openai_loop.induct)
  case (1 pl e p request key n x es)
  have a: "refusal_empty answer" if "openai_send pl e p key (Suc n) (responsesBody p request x) es = (err, answer, es1)" for err answer es1
    using openai_send_answer [of pl e p key "Suc n" "responsesBody p request x" es] that by simp
  show ?case using 1(3) a 1(1) [OF sym refl sym] 1(2) [OF sym refl sym sym refl]
    by (subst (asm) openai_loop.simps) (auto split: prod.splits option.splits if_splits)
qed

text \<open>What the strict call may rely on, for a result under a format.\<close>

definition gated :: "'a answer_scheme \<Rightarrow> bool" where
  "gated r =
     (CompactJSON (Text r) = Text r \<and> (Text r \<noteq> [] \<longrightarrow> Unparsed r = []) \<and>
      (Refused r \<longrightarrow> Text r = [] \<and> Unparsed r = []))"

lemma CompactJSON_Nil: "CompactJSON [] = []"
  by (simp add: CompactJSON_def trim_space_def trim_left_space_def)

lemma chat_result_gated: "refusal_empty a \<Longrightarrow> Format request \<noteq> None \<Longrightarrow> gated (chat_result p request a)"
  by (auto simp: gated_def chat_result_def refusal_empty_def gateJSON_def Let_def CompactJSON_idem CompactJSON_Nil)

lemma openai_result_gated: "refusal_empty a \<Longrightarrow> gated (openai_result p request a)"
  by (auto simp: gated_def openai_result_def openai_gate_def refusal_empty_def gateJSON_def Let_def CompactJSON_idem CompactJSON_Nil)

text \<open>
  C36. Under a format, whatever the provider's server sent, the text of a result is empty or a
  JSON text in compact form (the gate leaves it as it is); the reply as written is kept only
  when there is no such text; and a refused result has neither. So the caller's validation is
  only ever asked about JSON.
\<close>

theorem answers_gated:
  assumes "Compatible_Complete pl e p request = (Inr r, es) \<or> OpenAI_Complete pl e p request = (Inr r, es)"
    and "Format request \<noteq> None"
  shows "gated r \<and> (Text r \<noteq> [] \<longrightarrow> (\<exists>v. json_text (Text r) v))"
proof -
  have g: "gated r" using assms(1)
  proof
    assume "Compatible_Complete pl e p request = (Inr r, es)"
    then have "chat_loop pl e p request (''shared:'' @ random_id e) 0 [] = (Inr r, es)"
      by (simp add: Compatible_Complete_def split: if_splits)
    then show ?thesis using chat_loop_result chat_result_gated assms(2) by blast
  next
    assume "OpenAI_Complete pl e p request = (Inr r, es)"
    then have "openai_loop pl e p request (''shared:'' @ random_id e) 0 (max (CMaxOutputTokens (cfg p)) (ReqMaxOutputTokens request)) [] = (Inr r, es)"
      by (simp add: OpenAI_Complete_def split: if_splits)
    then show ?thesis using openai_loop_result openai_result_gated by blast
  qed
  then have "Text r \<noteq> [] \<longrightarrow> (\<exists>v. json_text (Text r) v)"
    using CompactJSON_nonempty [of "Text r"] by (auto simp: gated_def)
  with g show ?thesis by blast
qed

end
