(* ===== verification/Llm_Samples.thy ===== *)
theory Llm_Samples
  imports Llm_Providers
begin

text \<open>
  A Chat Completions provider evaluated end to end: a first attempt the server answers with a
  500, a wait, and a second one with an answer.
\<close>

definition plain_floats :: floats where
  "plain_floats =
     \<lparr>ParseFloat = (\<lambda>s. if s = ''900'' then Some (Finite 900) else if s = ''NaN'' then Some NaN else None),
      until_date = (\<lambda>_. None), round64 = (\<lambda>q. q), nan_int = - (2 ^ 63)\<rparr>"

definition sample_platform :: platform where
  "sample_platform = \<lparr>to_lower = (\<lambda>s. s), floating = plain_floats, fold_case = (\<lambda>s. s), capacity = Suc\<rparr>"

definition chat_reply_doc :: json where
  "chat_reply_doc = JObj [(''choices'', JArr [JObj
     [(''message'', JObj [(''content'', JStr ''{ \"a\": 1 }'')]), (''finish_reason'', JStr ''stop'')]])]"

definition sample_net :: network where
  "sample_net n r = (if n = 0 then Reply 500 None [] else Reply 200 None (json_marshal chat_reply_doc))"

definition sample_env :: env where
  "sample_env = \<lparr>net = sample_net, ctx_ended = (\<lambda>_. False), woke = (\<lambda>_. True), random_id = ''00''\<rparr>"

definition sample_config :: Config where
  "sample_config = \<lparr>CKind = KindLocal, APIKey = None, BaseURL = [], CModel = [], CMaxOutputTokens = 0, HTTPClient = None,
     Budget = None, Temperature = TemperatureDefault, OutputCap = OutputCapDefault\<rparr>"

definition sample_provider :: provider where
  "sample_provider = \<lparr>cfg = sample_config\<lparr>APIKey := Some ''not-needed'', BaseURL := ''http://localhost:11434/v1'',
     CModel := ''llama3.2'', CMaxOutputTokens := 4096\<rparr>, client = newHardenedClient\<rparr>"

lemma sample_built: "NewCompatible None sample_config = Inr sample_provider"
proof -
  have "trim_space [] = []" "trim_slashes defaultLocalBaseURL = ''http://localhost:11434/v1''"
    by (simp_all add: trim_space_def trim_left_space_def trim_slashes_def defaultLocalBaseURL_def)
  then show ?thesis
    by (simp add: NewCompatible_def sample_config_def sample_provider_def withDefaults_def Let_def NewSecret_def DefaultModel_def
        KindOpenAI_def KindAnthropic_def KindGemini_def KindQwen_def KindLocal_def compatibleMinOutputTokens_def clientFor_def)
qed

definition sample_request :: Request where
  "sample_request = \<lparr>System = ''s'', Prompt = ''p'', Format = Some \<lparr>FType = FormatTypeJSONObject, FName = [], FSchema = Inr JNull\<rparr>,
     ReqMaxOutputTokens = 0, Seed = None, ReasoningEffort = [], Cache = CacheNone\<rparr>"

lemma sample_parsed:
  "parseChatResponse (\<lambda>s. s) Suc (json_marshal chat_reply_doc) =
     (zero_answer\<lparr>ans_text := ''{ \"a\": 1 }'', ans_reason := ''stop''\<rparr>, True)"
proof -
  have "json_ok chat_reply_doc" "within_nesting max_nesting chat_reply_doc"
    by (simp_all add: chat_reply_doc_def max_nesting_def well_formed.simps)
  then have u: "json_unmarshal (json_marshal chat_reply_doc) = Some chat_reply_doc" by (rule unmarshal_marshal)
  have "into_struct (\<lambda>s. s) [''model'', ''choices'', ''usage''] (put_response (\<lambda>s. s) Suc) chat_reply_doc zero_response =
      Some (zero_response\<lparr>choices := \<lparr>arr = [zero_reply\<lparr>msg_content := ''{ \"a\": 1 }'', finish_reason := ''stop''\<rparr>], len = 1\<rparr>\<rparr>)"
    by code_simp
  then show ?thesis by (simp add: parseChatResponse_def u elems_of_def zero_response_def zero_reply_def zero_answer_def)
qed

lemma sample_gate: "gateJSON ''{ \"a\": 1 }'' = (''{\"a\":1}'', [])"
proof -
  have "json_parse ''{ \"a\": 1 }'' = Some (JObj [(''a'', JNum ''1'')])" by code_simp
  then have "json_unmarshal ''{ \"a\": 1 }'' = Some (JObj [(''a'', JNum ''1'')])" by (simp add: json_unmarshal_def max_nesting_def)
  moreover have "json_marshal (canon (JObj [(''a'', JNum ''1'')])) = ''{\"a\":1}''" by code_simp
  ultimately show ?thesis by (simp only: gateJSON_def CompactJSON_unmarshal option.simps Let_def) simp
qed

lemma sample_encodes: obtains doc where "chat_json (chat_body (cfg sample_provider) sample_request) = Inr doc"
  by (simp add: chat_json_def chat_body_def chatFormat_def format_schema_def format_object_def sample_request_def
      chat_format_json_def and_then_def)

lemma sample_class: "class_of (''http '' @ Itoa 500 @ '' '') 500 = ClassServer"
  by code_simp

lemma sample_complete_chat:
  "\<exists>es. Slept (retryDelay 0) \<in> set es \<and> Compatible_Complete sample_platform sample_env sample_provider sample_request =
     (Inr \<lparr>Text = ''{\"a\":1}'', Unparsed = [], Refused = False, ResModel = ''llama3.2'', ResponseModel = [], StopReason = ''stop'',
        ResUsage = zero_usage, FormatPath = ''object'', FormatReason = []\<rparr>, es)"
proof -
  obtain doc where doc: "chat_json (chat_body (cfg sample_provider) sample_request) = Inr doc" using sample_encodes .
  have b: "Budget (cfg sample_provider) = None" by (simp add: sample_provider_def sample_config_def)
  let ?p = sample_provider and ?r = sample_request and ?pl = sample_platform and ?e = sample_env
  define req where "req = \<lparr>http_method = ''POST'', target = BaseURL (cfg ?p) @ ''/chat/completions'',
    header = [(''Content-Type'', ''application/json''), (''Authorization'', ''Bearer '' @ Reveal (APIKey (cfg ?p)))],
    payload = Some (json_marshal doc)\<rparr>"
  have send: "chat_send ?pl ?e ?p key n (chat_body (cfg ?p) ?r) es =
      (if sent_count es = 0 then (Some (Failed (StatusError 500 None [])), zero_answer, es @ [Sent req])
       else (None, zero_answer\<lparr>ans_text := ''{ \"a\": 1 }'', ans_reason := ''stop''\<rparr>, es @ [Sent req]))" for key n es
    by (simp add: chat_send_def doc guarded_def b send_once_def exchange_def sample_env_def sample_net_def sample_platform_def
        sample_parsed req_def)
  let ?d = "Slept (retryDelay 0)"
  have after: "after_failure ?pl ?e (CKind (cfg ?p)) (CModel (cfg ?p)) compatibleMaxRetries 0 (Failed (StatusError 500 None [])) [Sent req] =
      (None, [Sent req, ?d])"
    using sample_class by (simp add: after_failure_def sample_platform_def sample_env_def classify_def Retryable_def retryableClasses_def
        NewError_def Let_def compatibleMaxRetries_def delayFor_def)
  have "chat_loop ?pl ?e ?p ?r key 1 [Sent req, ?d] =
      (Inr (chat_result ?p ?r (zero_answer\<lparr>ans_text := ''{ \"a\": 1 }'', ans_reason := ''stop''\<rparr>)), [Sent req, ?d, Sent req])" for key
    by (subst chat_loop.simps) (simp add: send sent_count_def)
  then have "chat_loop ?pl ?e ?p ?r key 0 [] =
      (Inr (chat_result ?p ?r (zero_answer\<lparr>ans_text := ''{ \"a\": 1 }'', ans_reason := ''stop''\<rparr>)), [Sent req, ?d, Sent req])" for key
    by (subst chat_loop.simps) (simp add: send sent_count_def after)
  then show ?thesis
    by (simp add: Compatible_Complete_def sample_request_def chat_result_def sample_gate Let_def sample_provider_def zero_answer_def
        format_path_def format_object_def FormatPathObject_def)
qed

theorem retry_wait_bounded_witness:
  "\<exists>d. Slept d \<in> set (snd (Compatible_Complete sample_platform sample_env sample_provider sample_request)) \<and> 0 < d \<and> d \<le> 60 * second"
proof -
  have "rounds (floating sample_platform)" by (simp add: rounds_def plain_floats_def sample_platform_def mono_def)
  moreover have "\<forall>n req status raw body. net sample_env n req = Reply status (Some raw) body \<longrightarrow>
      ParseFloat (floating sample_platform) raw \<noteq> Some NaN"
    by (simp add: sample_env_def sample_net_def)
  moreover have "Slept (retryDelay 0) \<in> set (snd (Compatible_Complete sample_platform sample_env sample_provider sample_request))"
    using sample_complete_chat by auto
  ultimately show ?thesis
    using retry_wait_bounded [of sample_platform sample_env sample_provider sample_request] by blast
qed

theorem answers_gated_witness:
  "\<exists>r es. Compatible_Complete sample_platform sample_env sample_provider sample_request = (Inr r, es) \<and>
     Text r = ''{\"a\":1}'' \<and> gated r \<and> (\<exists>v. json_text (Text r) v)"
proof -
  obtain r es where c: "Compatible_Complete sample_platform sample_env sample_provider sample_request = (Inr r, es)"
    and t: "Text r = ''{\"a\":1}''" using sample_complete_chat by auto
  have "Format sample_request \<noteq> None" by (simp add: sample_request_def)
  then have "gated r \<and> (\<exists>v. json_text (Text r) v)" using answers_gated [OF disjI1 [OF c]] t by auto
  with c t show ?thesis by blast
qed

end
