(* ===== verification/Spec2Isabelle.thy ===== *)
theory Spec2Isabelle
  imports Pep_Samples Pep_Cached_Samples Auth_Jwks_Samples Auth_Exchange_Samples Wt_Samples Llm_Samples
begin

text \<open>
  A verification development for the Go library \<open>dev-health-go\<close> (sources under
  \<open>src/\<close>): the code other services link against to ask for authorization decisions,
  to verify tokens and to obtain them.

  \<^bold>\<open>The program and its parts.\<close>
  A resource server holds a \<open>pep\<close> client. For each request it asks the policy decision
  point over HTTP (\<open>pep/client.go\<close>, \<open>pep/request.go\<close>), reads the answer strictly
  (\<open>pep/wire.go\<close>, \<open>pep/strict.go\<close>) into a decision value
  (\<open>pep/internal/decision\<close>, \<open>pep/decision.go\<close>, \<open>pep/errors.go\<close>) and may keep
  allows in a bounded cache (\<open>pep/cache.go\<close>); \<open>pep/pepfake\<close> is the test double, and
  \<open>repokey\<close> defines the repository keys that obligations name. A server authenticates its
  callers with \<open>authverify\<close>: three token verifiers over the keys of a JWKS, read from a
  file (\<open>jwks.go\<close>) or fetched and cached from one pinned issuer (\<open>jwks_client.go\<close>);
  the token service exchanges a projected Kubernetes token for an opaque or workload token
  (\<open>workload_exchange.go\<close>, \<open>workload_token_exchange_service.go\<close>,
  \<open>k8s_token_review.go\<close>). A client obtains and caches its tokens with
  \<open>workloadtoken\<close> (configuration, one exchange, a cache with single flight and backoff,
  and an HTTP transport that attaches the token). Package \<open>llm\<close> asks a language model over
  HTTP: provider clients send a request at most twice, each attempt under a budget
  (\<open>budget.go\<close>, \<open>transport.go\<close>, \<open>errors.go\<close>), and the strict call
  (\<open>strict.go\<close>) validates the JSON of the answer and repairs it at most once.

  \<^bold>\<open>Conventions.\<close> A Go string or byte slice is a list of bytes; an instant or a
  duration is an integer number of nanoseconds; struct types are records and enumerations are
  datatypes; a function that returns an error returns a sum whose left part is the error, and
  each early return is a branch. Code that runs under a mutex is one function of the state
  record, and concurrent use is an inductive relation that interleaves these sections with
  arbitrary clock readings, newest event first. A whole call of the cached client or of the
  JWKS client takes what the other callers do between its sections as lists of operations. What is not in \<open>src/\<close> is an argument:
  the HTTP exchange, the file system, \<open>url.Parse\<close>, Ed25519 verification, SHA-256, the
  random source, the clock, Unicode case folding. Where a result relies on such code, the
  hypothesis says what (for instance that a hash is injective on the texts it is given), and a
  witness instantiates it.

  \<^bold>\<open>The Go standard library as used.\<close>
  \<^item> \<open>Prelude\<close>: bytes, times, machine integers, \<open>strings\<close>, the error monad.
  \<^item> \<open>Regex\<close>: anchored patterns; the derivative matcher equals the language.
  \<^item> \<open>Go_Json\<close>, \<open>Go_Decoder\<close>, \<open>Go_Struct\<close>: the JSON grammar as an inductive
    relation and an executable parser equal to it; the token interface of the decoder, with the
    locale \<open>duplicate_walk\<close> that says what every strict walk over tokens accepts
    (interpreted on \<open>walk\<close> of \<open>pep/strict.go\<close> and on \<open>scanValue\<close> of
    \<open>authverify/jwks.go\<close>); binding of members to struct fields.
  \<^item> \<open>Go_Marshal\<close>: \<open>json.Marshal\<close> and the decoder are inverse, and every tree the
    decoder yields is one that marshals (well-formed UTF-8 strings, number texts).
  \<^item> \<open>Go_Time\<close>, \<open>Go_Base64\<close>: decimal numbers, RFC 3339 instants, unpadded base64.

  \<^bold>\<open>Components and what is shown of them.\<close>
  \<^item> \<open>Repokey\<close> (\<open>repokey.go\<close>): the pattern, unrolled as the source unrolls it, accepts
    exactly the keys of 2 to 20 well-formed segments within 255 bytes.
  \<^item> \<open>Decision\<close> (\<open>decision.go\<close>, \<open>errors.go\<close>): decisions and obligations and
    the questions a service asks of them; the locale \<open>decider\<close> states the contract of a
    decision client and is interpreted on the client, the cached client and the double.
  \<^item> \<open>Pep_Request\<close>, \<open>Pep_Strict\<close>, \<open>Pep_Wire\<close>, \<open>Pep_Obligations\<close>: the
    request documents; exactness of the duplicate-member walk and of revision tokens; an allow
    comes only from a checked document; a batch verdict belongs to its request; obligations say
    what the document states.
  \<^item> \<open>Pep_Client\<close>: the client fails closed, and a batch is all or nothing.
  \<^item> \<open>Pep_Cache\<close>, \<open>Pep_Cache_Trace\<close>, \<open>Pep_Cached\<close>: the map, list and counter
    refine an abstract recency list; in every interleaving a served decision is current; the
    cache stays bounded; cache keys separate requests. Whatever the other callers do between
    the sections of a call, an enforced decision is an allow the wrapped client gave for the
    same key, and a batch mixes no stale hit with newer answers unless the cache is closed
    meanwhile.
  \<^item> \<open>Pep_Fake\<close> (\<open>pepfake/fake.go\<close>): the double allows only what its rules name.
  \<^item> \<open>Auth_Wire\<close>, \<open>Auth_Token\<close> (\<open>accesstoken.go\<close>, \<open>accesstoken_wire.go\<close>,
    \<open>workload_token.go\<close>, \<open>service_account_token.go\<close>): soundness of acceptance, the
    order of refusals, disjointness of the three classes, lifetime bounds. The locale
    \<open>token_class\<close> carries what the classes share and has an interpretation per class.
  \<^item> \<open>Auth_Jwks\<close>, \<open>Auth_Jwks_Client\<close>: what keys a document gives, agreement of the
    file and HTTP paths. The runs of the client follow each caller through its call (miss,
    fetch or wait, decision): freshness of served keys, with the grace only after the caller's
    own refresh returned, pacing of refreshes, recovery, and what \<open>ResolveKey\<close> reports;
    every call, with other callers between its sections, is a stretch of such a run.
  \<^item> \<open>Auth_Exchange\<close>, \<open>Auth_K8s\<close>: a grant is narrowed, short lived and given only to
    an authenticated subject.
  \<^item> \<open>Wt_Config\<close>, \<open>Wt_Check\<close>, \<open>Wt_Exchange\<close>, \<open>Wt_Client\<close>, \<open>Wt_Runs\<close>,
    \<open>Wt_Transport\<close>, \<open>Wt_Verified\<close>: the token client. Its check implies acceptance by
    the verifier of \<open>Auth_Token\<close>; in every interleaving a token handed out is usable and
    exchanges are paced; the secret file is guarded; the transport sends the token only to its
    target.
  \<^item> \<open>Llm_Strict\<close> (\<open>strict.go\<close>): the gate is exact, against a relation of a value to its
    compact form that does not mention how it is computed, and idempotent; and the contract of
    the call with one repair. \<open>Llm_Errors\<close> (\<open>errors.go\<close>): the classifier, Retry-After
    and the delays, which are bounded for every attempt. \<open>Llm_Call\<close> (\<open>provider.go\<close>,
    \<open>transport.go\<close>, \<open>budget.go\<close>, \<open>secret.go\<close>): one exchange under a budget; a
    budget's \<open>Run\<close> is a tree that may invoke the call any number of times. The locale
    \<open>attempt_loop\<close> states what one pass of a retry loop does and proves the shape of a
    call's log; it is interpreted on the loops of \<open>Llm_Chat\<close> (\<open>compatible.go\<close>) and
    \<open>Llm_Openai\<close> (\<open>openai.go\<close>). \<open>Llm_Providers\<close>: calls are admitted with the
    cap and the size of the body that is sent, waits are bounded, answers are gated.
  \<^item> The theories named \<open>_Samples\<close> evaluate whole documents, tokens and calls; the
    witnesses of the properties are there.

  \<^bold>\<open>Fuel and bounds.\<close> The recursive walks over tokens and the JSON parser take fuel
  that is twice the length of the input (plus one for the walks); the laws of the walk and
  the equality of the parser with the grammar hold at that fuel, so a refusal is never a lack
  of it. All other recursion is structural or has a termination proof. Sixty-four bit arithmetic
  is kept where it can wrap (the counters and revisions of the cache, the backoff); elsewhere a
  bound checked by the code keeps values in range and the lemma says so.

  \<^bold>\<open>Not modelled.\<close>
  \<^item> The texts of errors, logging and metrics: nothing in the library reads them back.
  \<^item> The opening of files by the platform (\<open>secretfile_*.go\<close>): the flags are system
    calls; what \<open>fstat\<close> and \<open>read\<close> give is an argument of \<open>readSubjectFile\<close>.
  \<^item> \<open>llm\<close>: the Messages client (\<open>anthropic.go\<close>, \<open>anthropic_schema_fit.go\<close>),
    whose answer may be the raw text of a tool call, which the JSON trees do not keep, and with
    it the rewriting of schemas it sends; the Batch API (\<open>batch.go\<close>,
    \<open>openai_batch.go\<close>), a sequence of exchanges over multipart uploads; the redaction of
    error texts; spans and printed forms.
  \<^item> \<open>clickhouse\<close>: mostly a wrapper of a third-party driver; the substitution of named
    bindings and the bounds of its options are left out with it. \<open>readers\<close>: SQL texts and
    the scanning of rows; what they return is the database's. \<open>schema\<close>: declarations of
    tables and engines for a test database.
\<close>

end
